(* ===== verification/Prelude.thy ===== *)
theory Prelude
  imports Main "HOL-Library.Word"
begin

text \<open>
  Shared vocabulary of the development: the machine integer types of the Rust sources, byte
  order conversions (\<open>from_be_bytes\<close>, \<open>to_be_bytes\<close>, \<open>to_ne_bytes\<close> on a little-endian
  target), slices of byte buffers, tables of optional slots (\<open>Vec<Option<T>>\<close>) and the lemma
  collections the component theories draw on.
\<close>

unbundle bit_operations_syntax

type_synonym u8 = "8 word"
type_synonym u16 = "16 word"
type_synonym u32 = "32 word"
type_synonym u64 = "64 word"
type_synonym bytes = "8 word list"

text \<open>\<open>core::time::Duration\<close> as a number of nanoseconds.\<close>

type_synonym duration = nat

text \<open>\<open>Result<T, ()>\<close>: the error carries no information.\<close>

datatype 'a result = Ok 'a | Err

fun is_err :: "'a result \<Rightarrow> bool" where
  "is_err (Ok _) = False"
| "is_err Err = True"

lemma is_err_iff: "is_err r \<longleftrightarrow> r = Err"
  by (cases r) simp_all

named_theorems byte_simps \<open>conversions between words and bytes\<close>
named_theorems layout_simps \<open>reading fields of a laid out packet\<close>
named_theorems frame_simps \<open>what an operation leaves unchanged\<close>

section \<open>Byte order\<close>

definition u16_from_be :: "u8 \<Rightarrow> u8 \<Rightarrow> u16" where
  "u16_from_be a b = of_nat (256 * unat a + unat b)"

definition u16_to_be :: "u16 \<Rightarrow> bytes" where
  "u16_to_be w = [of_nat (unat w div 256), of_nat (unat w mod 256)]"

definition u16_from_ne :: "u8 \<Rightarrow> u8 \<Rightarrow> u16" where
  "u16_from_ne a b = of_nat (unat a + 256 * unat b)"

definition u16_to_ne :: "u16 \<Rightarrow> bytes" where
  "u16_to_ne w = [of_nat (unat w mod 256), of_nat (unat w div 256)]"

definition u32_from_be :: "u8 \<Rightarrow> u8 \<Rightarrow> u8 \<Rightarrow> u8 \<Rightarrow> u32" where
  "u32_from_be a b c d =
     of_nat (16777216 * unat a + 65536 * unat b + 256 * unat c + unat d)"

definition u32_to_be :: "u32 \<Rightarrow> bytes" where
  "u32_to_be w =
     [of_nat (unat w div 16777216), of_nat (unat w div 65536 mod 256),
      of_nat (unat w div 256 mod 256), of_nat (unat w mod 256)]"

lemma unat_u8_less [simp]: "unat (a :: u8) < 256"
  using unsigned_less [of a] by simp

lemma unat_u16_less [simp]: "unat (a :: u16) < 65536"
  using unsigned_less [of a] by simp

lemma unat_u32_less [simp]: "unat (a :: u32) < 4294967296"
  using unsigned_less [of a] by simp

lemma unat_of_nat_u8: "n < 256 \<Longrightarrow> unat (of_nat n :: u8) = n"
  by (simp add: unat_of_nat)

lemma unat_of_nat_u16: "n < 65536 \<Longrightarrow> unat (of_nat n :: u16) = n"
  by (simp add: unat_of_nat)

lemma unat_of_nat_u32: "n < 4294967296 \<Longrightarrow> unat (of_nat n :: u32) = n"
  by (simp add: unat_of_nat)

lemma length_u16_to_be [simp]: "length (u16_to_be w) = 2"
  by (simp add: u16_to_be_def)

lemma length_u16_to_ne [simp]: "length (u16_to_ne w) = 2"
  by (simp add: u16_to_ne_def)

lemma length_u32_to_be [simp]: "length (u32_to_be w) = 4"
  by (simp add: u32_to_be_def)

lemma unat_u16_from_ne [byte_simps]: "unat (u16_from_ne a b) = unat a + 256 * unat b"
proof -
  have "unat a < 256" "unat b < 256" by simp_all
  then show ?thesis
    unfolding u16_from_ne_def by (intro unat_of_nat_u16) linarith
qed

lemma unat_u16_from_be [byte_simps]: "unat (u16_from_be a b) = 256 * unat a + unat b"
proof -
  have "unat a < 256" "unat b < 256" by simp_all
  then show ?thesis
    unfolding u16_from_be_def by (intro unat_of_nat_u16) linarith
qed

lemma u16_be_roundtrip [byte_simps]:
  "u16_from_be (of_nat (unat w div 256)) (of_nat (unat w mod 256)) = w"
proof (rule word_unat_eq_iff [THEN iffD2])
  have "unat w div 256 < 256" using unat_u16_less [of w] by linarith
  then show "unat (u16_from_be (of_nat (unat w div 256)) (of_nat (unat w mod 256))) = unat w"
    by (simp add: unat_u16_from_be unat_of_nat_u8)
qed

lemma u16_ne_roundtrip [byte_simps]:
  "u16_from_ne (of_nat (unat w mod 256)) (of_nat (unat w div 256)) = w"
proof (rule word_unat_eq_iff [THEN iffD2])
  have "unat w div 256 < 256" using unat_u16_less [of w] by linarith
  then show "unat (u16_from_ne (of_nat (unat w mod 256)) (of_nat (unat w div 256))) = unat w"
    by (simp add: unat_u16_from_ne unat_of_nat_u8)
qed

lemma u32_be_roundtrip [byte_simps]:
  "u32_from_be (of_nat (unat w div 16777216)) (of_nat (unat w div 65536 mod 256))
     (of_nat (unat w div 256 mod 256)) (of_nat (unat w mod 256)) = w"
proof (rule word_unat_eq_iff [THEN iffD2])
  have top: "unat w div 16777216 < 256" using unat_u32_less [of w] by linarith
  have split: "16777216 * (unat w div 16777216) + 65536 * (unat w div 65536 mod 256)
      + 256 * (unat w div 256 mod 256) + unat w mod 256 = unat w"
  proof -
    define a where "a = unat w div 256"
    define b where "b = a div 256"
    have quot: "unat w div 65536 = b" "unat w div 16777216 = b div 256"
      by (simp_all add: a_def b_def flip: div_mult2_eq)
    have "unat w = 256 * a + unat w mod 256" "a = 256 * b + a mod 256"
      "b = 256 * (b div 256) + b mod 256"
      by (simp_all add: a_def b_def)
    then show ?thesis unfolding quot a_def [symmetric] by linarith
  qed
  show "unat (u32_from_be (of_nat (unat w div 16777216)) (of_nat (unat w div 65536 mod 256))
      (of_nat (unat w div 256 mod 256)) (of_nat (unat w mod 256))) = unat w"
    unfolding u32_from_be_def
    by (simp add: unat_of_nat_u8 top split unat_of_nat_u32)
qed

lemma u16_from_be_to_be: "u16_from_be (u16_to_be w ! 0) (u16_to_be w ! 1) = w"
  by (simp add: u16_to_be_def u16_be_roundtrip)

section \<open>Buffers\<close>

text \<open>
  \<open>buf[off..off + src.len()].copy_from_slice(src)\<close>. The code only copies inside the buffer;
  \<open>copy_at_length\<close> shows that such a copy keeps the length.
\<close>

definition copy_at :: "nat \<Rightarrow> 'a list \<Rightarrow> 'a list \<Rightarrow> 'a list" where
  "copy_at off src buf = take off buf @ src @ drop (off + length src) buf"

lemma copy_at_length: "off + length src \<le> length buf \<Longrightarrow> length (copy_at off src buf) = length buf"
  by (simp add: copy_at_def)

lemma copy_at_right [layout_simps]:
  "length a \<le> off \<Longrightarrow> copy_at off src (a @ b) = a @ copy_at (off - length a) src b"
  by (simp add: copy_at_def)

lemma copy_at_left [layout_simps]:
  "off + length src \<le> length a \<Longrightarrow> copy_at off src (a @ b) = copy_at off src a @ b"
  by (simp add: copy_at_def)

lemma copy_at_replicate [layout_simps]:
  "off + length src \<le> n \<Longrightarrow>
     copy_at off src (replicate n x) = replicate off x @ src @ replicate (n - (off + length src)) x"
  by (simp add: copy_at_def)

lemma copy_at_Cons [layout_simps]:
  "0 < off \<Longrightarrow> copy_at off src (x # xs) = x # copy_at (off - 1) src xs"
  "copy_at 0 src (x # xs) = src @ drop (length src) (x # xs)"
  by (cases off) (simp_all add: copy_at_def)

text \<open>\<open>&buf[lo..hi]\<close>.\<close>

definition slice :: "nat \<Rightarrow> nat \<Rightarrow> 'a list \<Rightarrow> 'a list" where
  "slice lo hi xs = take (hi - lo) (drop lo xs)"

section \<open>Tables of optional slots\<close>

text \<open>\<open>table.get(i).and_then(|s| s.as_ref())\<close>.\<close>

definition slot_get :: "'a option list \<Rightarrow> nat \<Rightarrow> 'a option" where
  "slot_get t i = (if i < length t then t ! i else None)"

lemma slot_get_SomeD: "slot_get t i = Some x \<Longrightarrow> i < length t \<and> t ! i = Some x"
  by (simp add: slot_get_def split: if_splits)

lemma slot_get_update [simp]:
  "slot_get (t[i := v]) j = (if i = j \<and> i < length t then v else slot_get t j)"
  by (simp add: slot_get_def)

lemma slot_get_Cons [simp]: "slot_get (x # t) 0 = x" "slot_get (x # t) (Suc i) = slot_get t i"
  by (simp_all add: slot_get_def)

lemma slot_get_Nil [simp]: "slot_get [] i = None"
  by (simp add: slot_get_def)

lemma slot_get_Cons_all:
  "(\<forall>i y. slot_get (x # t) i = Some y \<longrightarrow> P y) \<longleftrightarrow>
     (\<forall>y. x = Some y \<longrightarrow> P y) \<and> (\<forall>i y. slot_get t i = Some y \<longrightarrow> P y)"
  by (metis not0_implies_Suc slot_get_Cons)

lemma slot_get_append:
  "slot_get (t @ [v]) j = (if j = length t then v else slot_get t j)"
  by (simp add: slot_get_def nth_append)

text \<open>
  The allocation loop that the UDP, TCP and socket tables share: the first empty slot, else a new
  slot at the end when there is room.
\<close>

fun first_free :: "'a option list \<Rightarrow> nat option" where
  "first_free [] = None"
| "first_free (None # t) = Some 0"
| "first_free (Some x # t) = map_option Suc (first_free t)"

lemma first_free_None: "first_free t = None \<longleftrightarrow> (\<forall>i < length t. t ! i \<noteq> None)"
proof (induction t rule: first_free.induct)
  case (3 x t)
  then show ?case by (auto simp: less_Suc_eq_0_disj nth_Cons split: nat.splits)
qed auto

lemma first_free_Some:
  "first_free t = Some i \<Longrightarrow> i < length t \<and> t ! i = None \<and> (\<forall>j < i. t ! j \<noteq> None)"
proof (induction t arbitrary: i rule: first_free.induct)
  case (3 x t)
  then show ?case by (auto simp: less_Suc_eq_0_disj)
qed auto

lemma first_free_eq:
  assumes "i < length t" and "t ! i = None" and "\<And>j. j < i \<Longrightarrow> t ! j \<noteq> None"
  shows "first_free t = Some i"
proof -
  obtain k where "first_free t = Some k" using assms(1, 2) first_free_None [of t] by (cases "first_free t") auto
  moreover from first_free_Some [OF this] assms have "k = i" by (metis linorder_neqE_nat)
  ultimately show ?thesis by simp
qed

end
