(* ===== verification/Platform.thy ===== *)
theory Platform
  imports Prelude
begin

text \<open>
  The Linux platform layer of \<^verbatim>\<open>src/src/platform/linux\<close>: what the stack reads from the operating
  system (clock, random numbers, results of system calls) as streams that the model consumes
  one element per call, the interrupt table of \<open>intr.rs\<close>, and the timer table of \<open>timer.rs\<close>.
  Handlers are values of a type parameter: the tables only store and return them.
\<close>

section \<open>The operating system\<close>

text \<open>
  \<open>clock n\<close>, \<open>rand n\<close> and \<open>sys_ret n\<close> are the results of the n-th call of
  \<open>clock_gettime(CLOCK_MONOTONIC)\<close>, \<open>rand\<close> and of the file system calls, \<open>hwaddr\<close> the six bytes
  \<open>ioctl(SIOCGIFHWADDR)\<close> stores; \<open>wire\<close> logs the
  frames written to TAP descriptors, \<open>open_fds\<close> the descriptors that are open, \<open>softirqs\<close> counts
  the software interrupts raised. \<open>panicked\<close> records that the code reached a panic: the state
  after it is not meaningful any more.
\<close>

record os =
  clock :: "nat \<Rightarrow> duration"
  clock_reads :: nat
  rand :: "nat \<Rightarrow> u32"
  rand_reads :: nat
  sys_ret :: "nat \<Rightarrow> int"
  sys_calls :: nat
  hwaddr :: bytes
  open_fds :: "int list"
  wire :: "(int \<times> bytes) list"
  softirqs :: nat
  panicked :: bool

definition now :: "os \<Rightarrow> duration \<times> os" where
  "now s = (clock s (clock_reads s), s\<lparr>clock_reads := Suc (clock_reads s)\<rparr>)"

definition random32 :: "os \<Rightarrow> u32 \<times> os" where
  "random32 s = (rand s (rand_reads s), s\<lparr>rand_reads := Suc (rand_reads s)\<rparr>)"

definition syscall :: "os \<Rightarrow> int \<times> os" where
  "syscall s = (sys_ret s (sys_calls s), s\<lparr>sys_calls := Suc (sys_calls s)\<rparr>)"

text \<open>\<open>libc::close\<close> and \<open>libc::open\<close> as far as the set of open descriptors goes.\<close>

definition fd_close :: "int \<Rightarrow> os \<Rightarrow> os" where
  "fd_close fd s = s\<lparr>open_fds := remove1 fd (open_fds s)\<rparr>"

definition fd_open :: "os \<Rightarrow> int \<times> os" where
  "fd_open s = (let (fd, s') = syscall s
     in (fd, if fd = - 1 then s' else s'\<lparr>open_fds := fd # open_fds s'\<rparr>))"

definition softirq_raise :: "os \<Rightarrow> os" where
  "softirq_raise s = s\<lparr>softirqs := Suc (softirqs s)\<rparr>"

definition panic :: "os \<Rightarrow> os" where
  "panic s = s\<lparr>panicked := True\<rparr>"

text \<open>\<open>CLOCK_MONOTONIC\<close> never goes backwards.\<close>

definition monotonic :: "os \<Rightarrow> bool" where
  "monotonic s \<longleftrightarrow> (\<forall>i j. i \<le> j \<longrightarrow> clock s i \<le> clock s j)"

section \<open>Interrupt table\<close>

definition FLAG_SHARED :: u32 where "FLAG_SHARED = 0x0001"
definition FLAG_QUIET :: u32 where "FLAG_QUIET = 0x0002"

record 'h irq_entry =
  irq :: u32
  isr :: 'h
  irq_flags :: u32
  irq_name :: string

definition shared :: "u32 \<Rightarrow> bool" where
  "shared flags \<longleftrightarrow> flags AND FLAG_SHARED \<noteq> 0"

definition intr_register ::
  "u32 \<Rightarrow> 'h \<Rightarrow> u32 \<Rightarrow> string \<Rightarrow> 'h irq_entry list \<Rightarrow> unit result \<times> 'h irq_entry list" where
  "intr_register i h flags name irqs =
     (if \<exists>e \<in> set irqs. irq e = i \<and> \<not> (shared (irq_flags e) \<and> shared flags)
      then (Err, irqs)
      else (Ok (), irqs @ [\<lparr>irq = i, isr = h, irq_flags = flags, irq_name = name\<rparr>]))"

text \<open>
  One iteration of the dispatcher of \<open>intr_main\<close> for a signal other than \<open>SIGHUP\<close>: the handlers
  it calls, in order. The loop stops after an entry that is not shared.
\<close>

fun isr_loop :: "'h irq_entry list \<Rightarrow> 'h list" where
  "isr_loop [] = []"
| "isr_loop (e # es) = isr e # (if shared (irq_flags e) then isr_loop es else [])"

definition intr_dispatch :: "u32 \<Rightarrow> 'h irq_entry list \<Rightarrow> 'h list" where
  "intr_dispatch sig irqs = isr_loop (filter (\<lambda>e. irq e = sig) irqs)"

text \<open>Entries that have their interrupt in common are all shared.\<close>

definition irqs_wf :: "'h irq_entry list \<Rightarrow> bool" where
  "irqs_wf irqs \<longleftrightarrow>
     (\<forall>i < length irqs. \<forall>j < length irqs.
        i \<noteq> j \<longrightarrow> irq (irqs ! i) = irq (irqs ! j) \<longrightarrow> shared (irq_flags (irqs ! i)))"

lemma irqs_wf_Nil [simp]: "irqs_wf []"
  by (simp add: irqs_wf_def)

lemma irqs_wf_snoc:
  "irqs_wf (irqs @ [e]) \<longleftrightarrow> irqs_wf irqs \<and>
     (\<forall>e' \<in> set irqs. irq e' = irq e \<longrightarrow> shared (irq_flags e') \<and> shared (irq_flags e))"
proof -
  have "irqs_wf (irqs @ [e]) \<longleftrightarrow> irqs_wf irqs \<and> (\<forall>i < length irqs. irq (irqs ! i) = irq e \<longrightarrow>
      shared (irq_flags (irqs ! i)) \<and> shared (irq_flags e))"
    by (auto simp: irqs_wf_def nth_append all_conj_distrib less_Suc_eq imp_conjR)
  then show ?thesis by (metis in_set_conv_nth)
qed

lemma intr_register_wf: "irqs_wf irqs \<Longrightarrow> irqs_wf (snd (intr_register i h flags name irqs))"
  by (auto simp: intr_register_def irqs_wf_snoc)

lemma isr_loop_all_shared: "\<forall>e \<in> set es. shared (irq_flags e) \<Longrightarrow> isr_loop es = map isr es"
  by (induction es) auto

lemma irqs_wf_filter_shared:
  assumes "irqs_wf irqs" and "e \<in> set es" and "filter (\<lambda>e. irq e = sig) irqs = es"
    and "length es \<noteq> 1"
  shows "shared (irq_flags e)"
  using assms
proof (induction irqs arbitrary: es rule: rev_induct)
  case (snoc x xs)
  let ?f = "filter (\<lambda>e. irq e = sig) xs"
  from snoc.prems(1) have wf: "irqs_wf xs"
    and x: "\<And>e'. e' \<in> set xs \<Longrightarrow> irq e' = irq x \<Longrightarrow> shared (irq_flags e') \<and> shared (irq_flags x)"
    by (auto simp: irqs_wf_snoc)
  show ?case
  proof (cases "irq x = sig")
    case True
    with snoc.prems have "?f \<noteq> []" by auto
    then have "last ?f \<in> set ?f" by (rule last_in_set)
    then have "last ?f \<in> set xs" "irq (last ?f) = sig" by auto
    with True x snoc.prems(2,3) show ?thesis by auto
  next
    case False
    with snoc.prems wf show ?thesis by (intro snoc.IH [of es]) auto
  qed
qed simp

lemma intr_dispatch_all:
  assumes "irqs_wf irqs"
  shows "intr_dispatch sig irqs = map isr (filter (\<lambda>e. irq e = sig) irqs)"
proof (cases "length (filter (\<lambda>e. irq e = sig) irqs) = 1")
  case True
  then show ?thesis by (auto simp: intr_dispatch_def length_Suc_conv)
next
  case False
  then show ?thesis
    unfolding intr_dispatch_def using irqs_wf_filter_shared [OF assms]
    by (intro isr_loop_all_shared) blast
qed

section \<open>Timers\<close>

record 'h timer_entry =
  tm_interval :: duration
  tm_last :: duration
  tm_handler :: 'h

definition timer_register ::
  "duration \<Rightarrow> 'h \<Rightarrow> 'h timer_entry list \<Rightarrow> os \<Rightarrow> unit result \<times> 'h timer_entry list \<times> os" where
  "timer_register interval h timers s =
     (let (t, s') = now s
      in (Ok (), timers @ [\<lparr>tm_interval = interval, tm_last = t, tm_handler = h\<rparr>], s'))"

text \<open>
  The loop of the timer interrupt: the expired handlers and the updated table.
  \<open>Duration::saturating_sub\<close> is subtraction on \<open>nat\<close>.
\<close>

fun timer_scan :: "duration \<Rightarrow> 'h timer_entry list \<Rightarrow> 'h list \<times> 'h timer_entry list" where
  "timer_scan t [] = ([], [])"
| "timer_scan t (e # es) =
     (let (hs, es') = timer_scan t es
      in if t - tm_last e \<ge> tm_interval e then (tm_handler e # hs, e\<lparr>tm_last := t\<rparr> # es')
         else (hs, e # es'))"

definition timer_isr :: "'h timer_entry list \<Rightarrow> os \<Rightarrow> 'h list \<times> 'h timer_entry list \<times> os" where
  "timer_isr timers s =
     (let (t, s') = now s; (hs, timers') = timer_scan t timers in (hs, timers', s'))"

lemma timer_scan_eq:
  "timer_scan t es =
     (map tm_handler (filter (\<lambda>e. tm_interval e \<le> t - tm_last e) es),
      map (\<lambda>e. if tm_interval e \<le> t - tm_last e then e\<lparr>tm_last := t\<rparr> else e) es)"
  by (induction es) (auto simp: Let_def)

end
