(* ===== verification/Text.thy ===== *)
theory Text
  imports Prelude
begin

text \<open>
  The text conversions of the Rust standard library that the address types are built from:
  decimal and two-digit hexadecimal formatting, \<open>str::split\<close> on a character,
  \<open>str::rsplit_once\<close> and integer parsing (\<open>from_str_radix\<close>, which accepts a leading plus
  sign and rejects anything out of range).
\<close>

section \<open>Formatting\<close>

definition digit_char :: "nat \<Rightarrow> char" where
  "digit_char d = char_of (if d < 10 then 48 + d else 87 + d)"

fun dec_string :: "nat \<Rightarrow> string" where
  "dec_string n = (if n < 10 then [digit_char n] else dec_string (n div 10) @ [digit_char (n mod 10)])"

declare dec_string.simps [simp del]

definition hex2 :: "u8 \<Rightarrow> string" where
  "hex2 b = [digit_char (unat b div 16), digit_char (unat b mod 16)]"

section \<open>Splitting\<close>

fun split_on :: "char \<Rightarrow> string \<Rightarrow> string list" where
  "split_on c [] = [[]]"
| "split_on c (x # xs) =
     (if x = c then [] # split_on c xs
      else case split_on c xs of [] \<Rightarrow> [[x]] | p # ps \<Rightarrow> (x # p) # ps)"

definition rsplit_once :: "char \<Rightarrow> string \<Rightarrow> (string \<times> string) option" where
  "rsplit_once c s =
     (if c \<in> set s
      then Some (rev (tl (dropWhile (\<lambda>x. x \<noteq> c) (rev s))), rev (takeWhile (\<lambda>x. x \<noteq> c) (rev s)))
      else None)"

section \<open>Parsing integers\<close>

definition to_digit :: "nat \<Rightarrow> char \<Rightarrow> nat option" where
  "to_digit radix c =
     (let n = of_char c;
          d = (if 48 \<le> n \<and> n \<le> 57 then Some (n - 48)
               else if 97 \<le> n \<and> n \<le> 122 then Some (n - 87)
               else if 65 \<le> n \<and> n \<le> 90 then Some (n - 55) else None)
      in case d of None \<Rightarrow> None | Some v \<Rightarrow> if v < radix then Some v else None)"

fun parse_digits :: "nat \<Rightarrow> nat \<Rightarrow> nat \<Rightarrow> string \<Rightarrow> nat option" where
  "parse_digits radix m acc [] = Some acc"
| "parse_digits radix m acc (c # cs) =
     (case to_digit radix c of
        None \<Rightarrow> None
      | Some d \<Rightarrow> if acc * radix + d > m then None else parse_digits radix m (acc * radix + d) cs)"

definition from_str_radix :: "nat \<Rightarrow> nat \<Rightarrow> string \<Rightarrow> nat option" where
  "from_str_radix radix m s =
     (if s = [] \<or> s = ''+'' then None
      else parse_digits radix m 0 (if hd s = CHR ''+'' then tl s else s))"

section \<open>Parsing what was printed\<close>

lemma of_char_digit_char: "d < 16 \<Longrightarrow> of_char (digit_char d) = (if d < 10 then 48 + d else 87 + d)"
  by (simp add: digit_char_def of_char_of)

lemma to_digit_digit_char: "d < 16 \<Longrightarrow> d < radix \<Longrightarrow> to_digit radix (digit_char d) = Some d"
  by (auto simp: to_digit_def of_char_digit_char Let_def)

text \<open>The separators and signs of the printed forms are not digits.\<close>

definition separator :: "char \<Rightarrow> bool" where
  "separator c \<longleftrightarrow> of_char c < (48 :: nat) \<or> of_char c = (58 :: nat)"

lemma separator_simps [simp]: "separator (CHR ''.'')" "separator (CHR '':'')" "separator (CHR ''+'')"
  by (simp_all add: separator_def)

lemma separator_neq_digit:
  assumes "separator c" "d < 16"
  shows "c \<noteq> digit_char d"
proof
  assume "c = digit_char d"
  then have "of_char c = (if d < 10 then 48 + d else 87 + d)"
    using of_char_digit_char [OF assms(2)] by simp
  with assms(1) show False by (auto simp: separator_def split: if_splits)
qed

lemma parse_digits_append:
  "parse_digits radix m acc (xs @ ys) =
     (case parse_digits radix m acc xs of None \<Rightarrow> None | Some a \<Rightarrow> parse_digits radix m a ys)"
  by (induction xs arbitrary: acc) (auto split: option.splits)

lemma dec_string_nonempty: "dec_string n \<noteq> []"
  by (subst dec_string.simps) simp

lemma separator_not_in_dec: "separator c \<Longrightarrow> c \<notin> set (dec_string n)"
proof (induction n rule: dec_string.induct)
  case (1 n)
  then show ?case
    by (simp add: dec_string.simps [of n] separator_neq_digit)
qed

lemma separator_not_in_hex2: "separator c \<Longrightarrow> c \<notin> set (hex2 b)"
proof -
  have "unat b div 16 < 16" using unat_u8_less [of b] by linarith
  then show "separator c \<Longrightarrow> c \<notin> set (hex2 b)"
    by (simp add: hex2_def separator_neq_digit)
qed

lemma parse_dec_string: "n \<le> m \<Longrightarrow> parse_digits 10 m 0 (dec_string n) = Some n"
proof (induction n rule: dec_string.induct)
  case (1 n)
  show ?case
  proof (cases "n < 10")
    case True
    with "1.prems" show ?thesis
      by (simp add: dec_string.simps [of n] to_digit_digit_char)
  next
    case False
    then have "parse_digits 10 m 0 (dec_string (n div 10)) = Some (n div 10)"
      using "1" by simp
    with False "1.prems" show ?thesis
      by (simp add: dec_string.simps [of n] parse_digits_append to_digit_digit_char)
  qed
qed

lemma from_str_radix_no_plus:
  assumes "s \<noteq> []" and "CHR ''+'' \<notin> set s"
  shows "from_str_radix radix m s = parse_digits radix m 0 s"
  using assms by (cases s) (auto simp: from_str_radix_def)

lemma from_str_dec_string: "n \<le> m \<Longrightarrow> from_str_radix 10 m (dec_string n) = Some n"
  by (simp add: from_str_radix_no_plus separator_not_in_dec dec_string_nonempty parse_dec_string)

lemma from_str_hex2: "from_str_radix 16 255 (hex2 b) = Some (unat b)"
proof -
  have hi: "unat b div 16 < 16" using unat_u8_less [of b] by linarith
  have "from_str_radix 16 255 (hex2 b) = parse_digits 16 255 0 (hex2 b)"
    by (intro from_str_radix_no_plus) (simp_all add: separator_not_in_hex2, simp add: hex2_def)
  moreover have "unat b \<le> 255" using unat_u8_less [of b] by linarith
  ultimately show ?thesis using hi
    by (simp add: hex2_def to_digit_digit_char)
qed

lemma split_on_append:
  "c \<notin> set p \<Longrightarrow> split_on c (p @ c # s) = p # split_on c s"
  by (induction p) auto

lemma split_on_none: "c \<notin> set p \<Longrightarrow> split_on c p = [p]"
  by (induction p) auto

lemma rsplit_once_append:
  assumes "c \<notin> set p"
  shows "rsplit_once c (s @ c # p) = Some (s, p)"
proof -
  have np: "\<And>x. x \<in> set (rev p) \<Longrightarrow> x \<noteq> c" using assms by auto
  have "takeWhile (\<lambda>x. x \<noteq> c) (rev p @ c # rev s) = rev p"
    "dropWhile (\<lambda>x. x \<noteq> c) (rev p @ c # rev s) = c # rev s"
    using takeWhile_append2 [of "rev p" "\<lambda>x. x \<noteq> c" "c # rev s", OF np]
      dropWhile_append2 [of "rev p" "\<lambda>x. x \<noteq> c" "c # rev s", OF np] by simp_all
  then show ?thesis by (simp add: rsplit_once_def)
qed

end
