(* ===== verification/Addr.thy ===== *)
theory Addr
  imports Text
begin

text \<open>
  Hardware and protocol addresses: \<open>EtherAddr\<close> and the Ethernet header reader of
  \<^verbatim>\<open>src/src/ether.rs\<close>, \<open>IpAddr\<close>, \<open>IpEndp\<close> and \<open>IpIface\<close> of \<^verbatim>\<open>src/src/ip.rs\<close>, with their
  \<open>Display\<close> and \<open>FromStr\<close> implementations. Fixed-size arrays are constructors with one
  argument per byte. Parsing inverts printing.
\<close>

section \<open>Parsing a fixed number of separated parts\<close>

text \<open>
  The loop both \<open>from_str\<close> functions share: one part per array element, an error when a part
  is missing or malformed, and an error when a part is left over.
\<close>

fun parse_parts :: "nat \<Rightarrow> (string \<Rightarrow> nat option) \<Rightarrow> string list \<Rightarrow> nat list option" where
  "parse_parts 0 f [] = Some []"
| "parse_parts 0 f (p # ps) = None"
| "parse_parts (Suc n) f [] = None"
| "parse_parts (Suc n) f (p # ps) =
     (case f p of
        None \<Rightarrow> None
      | Some v \<Rightarrow> (case parse_parts n f ps of None \<Rightarrow> None | Some vs \<Rightarrow> Some (v # vs)))"

lemma parse_parts_numeral [simp]:
  "parse_parts (numeral k) f [] = None"
  "parse_parts (numeral k) f (p # ps) =
     (case f p of
        None \<Rightarrow> None
      | Some v \<Rightarrow>
          (case parse_parts (pred_numeral k) f ps of None \<Rightarrow> None | Some vs \<Rightarrow> Some (v # vs)))"
  by (simp_all add: numeral_eq_Suc)

section \<open>Ethernet addresses and headers\<close>

datatype ether_addr = EtherAddr u8 u8 u8 u8 u8 u8

definition ETHER_ADDR_LEN :: nat where "ETHER_ADDR_LEN = 6"
definition ETHER_HDR_SIZE :: nat where "ETHER_HDR_SIZE = 14"
definition ETHER_FRAME_SIZE_MIN :: nat where "ETHER_FRAME_SIZE_MIN = 60"
definition ETHER_FRAME_SIZE_MAX :: nat where "ETHER_FRAME_SIZE_MAX = 1514"

definition ETHER_PAYLOAD_SIZE_MIN :: nat where
  "ETHER_PAYLOAD_SIZE_MIN = ETHER_FRAME_SIZE_MIN - ETHER_HDR_SIZE"

definition ETHER_PAYLOAD_SIZE_MAX :: nat where
  "ETHER_PAYLOAD_SIZE_MAX = ETHER_FRAME_SIZE_MAX - ETHER_HDR_SIZE"

lemmas ether_sizes = ETHER_ADDR_LEN_def ETHER_HDR_SIZE_def ETHER_FRAME_SIZE_MIN_def
  ETHER_FRAME_SIZE_MAX_def ETHER_PAYLOAD_SIZE_MIN_def ETHER_PAYLOAD_SIZE_MAX_def

definition ETHER_TYPE_IP :: u16 where "ETHER_TYPE_IP = 0x0800"
definition ETHER_TYPE_ARP :: u16 where "ETHER_TYPE_ARP = 0x0806"

definition ETHER_ADDR_ANY :: ether_addr where
  "ETHER_ADDR_ANY = EtherAddr 0 0 0 0 0 0"

definition ETHER_ADDR_BROADCAST :: ether_addr where
  "ETHER_ADDR_BROADCAST = EtherAddr 0xff 0xff 0xff 0xff 0xff 0xff"

fun ether_bytes :: "ether_addr \<Rightarrow> bytes" where
  "ether_bytes (EtherAddr a b c d e f) = [a, b, c, d, e, f]"

lemma length_ether_bytes [simp]: "length (ether_bytes a) = 6"
  by (cases a) simp

lemma ether_bytes_inject [simp]: "ether_bytes a = ether_bytes b \<longleftrightarrow> a = b"
  by (cases a; cases b) simp

fun ether_to_str :: "ether_addr \<Rightarrow> string" where
  "ether_to_str (EtherAddr a b c d e f) =
     hex2 a @ '':'' @ hex2 b @ '':'' @ hex2 c @ '':'' @ hex2 d @ '':'' @ hex2 e @ '':'' @ hex2 f"

definition ether_from_str :: "string \<Rightarrow> ether_addr result" where
  "ether_from_str s =
     (case parse_parts ETHER_ADDR_LEN (from_str_radix 16 255) (split_on (CHR '':'') s) of
        Some [a, b, c, d, e, f] \<Rightarrow>
          Ok (EtherAddr (of_nat a) (of_nat b) (of_nat c) (of_nat d) (of_nat e) (of_nat f))
      | _ \<Rightarrow> Err)"

text \<open>\<open>EtherHdr::new\<close> only checks the length; the readers then index the buffer.\<close>

definition ether_hdr_new :: "bytes \<Rightarrow> bytes option" where
  "ether_hdr_new data = (if length data < ETHER_HDR_SIZE then None else Some data)"

definition ether_hdr_dst :: "bytes \<Rightarrow> ether_addr" where
  "ether_hdr_dst h = EtherAddr (h ! 0) (h ! 1) (h ! 2) (h ! 3) (h ! 4) (h ! 5)"

definition ether_hdr_src :: "bytes \<Rightarrow> ether_addr" where
  "ether_hdr_src h = EtherAddr (h ! 6) (h ! 7) (h ! 8) (h ! 9) (h ! 10) (h ! 11)"

definition ether_hdr_ethertype :: "bytes \<Rightarrow> u16" where
  "ether_hdr_ethertype h = u16_from_be (h ! 12) (h ! 13)"

section \<open>IP addresses and endpoints\<close>

datatype ip_addr = IpAddr u8 u8 u8 u8

definition IP_ADDR_LEN :: nat where "IP_ADDR_LEN = 4"

definition ip_any :: ip_addr where "ip_any = IpAddr 0 0 0 0"
definition ip_broadcast :: ip_addr where "ip_broadcast = IpAddr 0xff 0xff 0xff 0xff"

fun ip_bytes :: "ip_addr \<Rightarrow> bytes" where
  "ip_bytes (IpAddr a b c d) = [a, b, c, d]"

lemma length_ip_bytes [simp]: "length (ip_bytes a) = 4"
  by (cases a) simp

lemma ip_bytes_inject [simp]: "ip_bytes a = ip_bytes b \<longleftrightarrow> a = b"
  by (cases a; cases b) simp

fun ip_to_str :: "ip_addr \<Rightarrow> string" where
  "ip_to_str (IpAddr a b c d) =
     dec_string (unat a) @ ''.'' @ dec_string (unat b) @ ''.'' @
     dec_string (unat c) @ ''.'' @ dec_string (unat d)"

definition ip_from_str :: "string \<Rightarrow> ip_addr result" where
  "ip_from_str s =
     (case parse_parts IP_ADDR_LEN (from_str_radix 10 255) (split_on (CHR ''.'') s) of
        Some [a, b, c, d] \<Rightarrow> Ok (IpAddr (of_nat a) (of_nat b) (of_nat c) (of_nat d))
      | _ \<Rightarrow> Err)"

record ip_endp =
  addr :: ip_addr
  port :: u16

definition ip_endp_new :: "ip_addr \<Rightarrow> u16 \<Rightarrow> ip_endp" where
  "ip_endp_new a p = \<lparr>addr = a, port = p\<rparr>"

definition endp_to_str :: "ip_endp \<Rightarrow> string" where
  "endp_to_str e = ip_to_str (addr e) @ '':'' @ dec_string (unat (port e))"

definition endp_from_str :: "string \<Rightarrow> ip_endp result" where
  "endp_from_str s =
     (case rsplit_once (CHR '':'') s of
        None \<Rightarrow> Err
      | Some (addr_str, port_str) \<Rightarrow>
          (case ip_from_str addr_str of
             Err \<Rightarrow> Err
           | Ok a \<Rightarrow>
               (case from_str_radix 10 65535 port_str of
                  None \<Rightarrow> Err
                | Some p \<Rightarrow> Ok \<lparr>addr = a, port = of_nat p\<rparr>)))"

text \<open>
  \<open>IpIface\<close>: the device is a shared \<open>Arc<Device>\<close>, modelled by its index in the device table.
\<close>

record ip_iface =
  if_dev :: nat
  if_unicast :: ip_addr
  if_netmask :: ip_addr
  if_broadcast :: ip_addr

fun ip_and :: "ip_addr \<Rightarrow> ip_addr \<Rightarrow> ip_addr" where
  "ip_and (IpAddr a b c d) (IpAddr e f g h) = IpAddr (a AND e) (b AND f) (c AND g) (d AND h)"

fun ip_or_not :: "ip_addr \<Rightarrow> ip_addr \<Rightarrow> ip_addr" where
  "ip_or_not (IpAddr a b c d) (IpAddr e f g h) =
     IpAddr (a OR NOT e) (b OR NOT f) (c OR NOT g) (d OR NOT h)"

text \<open>\<open>IpIface::contains\<close>: the octet loop compares the masked addresses.\<close>

definition iface_contains :: "ip_iface \<Rightarrow> ip_addr \<Rightarrow> bool" where
  "iface_contains iface a = (ip_and a (if_netmask iface) = ip_and (if_unicast iface) (if_netmask iface))"

section \<open>Parsing inverts printing\<close>

lemma u8_of_nat_unat [simp]: "of_nat (unat w) = (w :: u8)"
  by simp

lemma unat_u8_le255: "unat (w :: u8) \<le> 255"
  using unat_u8_less [of w] by linarith

lemmas print_parse_simps = split_on_append split_on_none separator_not_in_dec separator_not_in_hex2
  from_str_dec_string from_str_hex2 unat_u8_le255

lemma ip_from_to_str: "ip_from_str (ip_to_str a) = Ok a"
  by (cases a) (simp add: ip_from_str_def IP_ADDR_LEN_def print_parse_simps)

lemma ether_from_to_str: "ether_from_str (ether_to_str a) = Ok a"
  by (cases a) (simp add: ether_from_str_def ETHER_ADDR_LEN_def print_parse_simps)

lemma endp_from_to_str: "endp_from_str (endp_to_str e) = Ok e"
proof -
  have "unat (port e) \<le> 65535" using unat_u16_less [of "port e"] by linarith
  then show ?thesis
    by (simp add: endp_from_str_def endp_to_str_def rsplit_once_append print_parse_simps
        ip_from_to_str)
qed

end
