(* ===== verification/Link.thy ===== *)
theory Link
  imports Platform Addr
begin

text \<open>
  The link layer: devices (\<^verbatim>\<open>src/src/device.rs\<close>), the protocol table and input queue of
  \<^verbatim>\<open>src/src/net.rs\<close>, the loopback driver and the Ethernet TAP driver. One record holds their
  global variables, because a transmission on the loopback device re-enters \<open>net::input_handler\<close>.
  A device is referred to by its index in \<open>DEVICES\<close>, a driver (\<open>Box<dyn Ops>\<close>) is a constructor
  of \<open>dev_ops\<close>, a protocol handler (a function pointer) is a constructor of \<open>net_handler\<close>.
  \<open>timer_created\<close> says whether \<open>TIMER_ID\<close> of \<open>timer.rs\<close> holds a timer, \<open>dispatcher\<close> holds the
  signal mask of the dispatcher thread of \<open>intr.rs\<close> while the thread runs.
\<close>

section \<open>Devices\<close>

definition ADDR_LEN :: nat where "ADDR_LEN = 16"

definition TYPE_LOOPBACK :: u16 where "TYPE_LOOPBACK = 0x0001"
definition TYPE_ETHERNET :: u16 where "TYPE_ETHERNET = 0x0002"

definition FLAG_UP :: u16 where "FLAG_UP = 0x0001"
definition FLAG_LOOPBACK :: u16 where "FLAG_LOOPBACK = 0x0010"
definition FLAG_BROADCAST :: u16 where "FLAG_BROADCAST = 0x0020"
definition FLAG_NEED_ARP :: u16 where "FLAG_NEED_ARP = 0x0100"

definition PROTOCOL_TYPE_IP :: u16 where "PROTOCOL_TYPE_IP = 0x0800"

record ether_tap =
  tap_name :: string
  configured_addr :: "ether_addr option"
  tap_fd :: int
  tap_irq :: u32

datatype dev_ops = LoopbackOps | EtherTapOps ether_tap

record device =
  dev_index :: nat
  dev_name :: string
  dev_ty :: u16
  dev_mtu :: u16
  dev_hlen :: u16
  dev_alen :: u16
  dev_addr :: bytes
  dev_peer :: bytes
  dev_broadcast :: bytes
  dev_flags :: u16
  dev_ifaces :: "ip_iface list"
  dev_ops :: dev_ops

datatype net_handler = ArpInput | IpInput

datatype isr_id = SoftirqIsr | TimerIsr | TaskIsr | TapIsr nat

datatype timer_id = ArpTimer | TcpTimer

record input_entry =
  ie_ty :: u16
  ie_data :: bytes
  ie_dev :: nat

record link =
  lk_os :: os
  devices :: "device list"
  net_protocols :: "(u16 \<times> net_handler) list"
  input_queue :: "input_entry list"
  irqs :: "isr_id irq_entry list"
  timers :: "timer_id timer_entry list"
  timer_created :: bool
  dispatcher :: "u32 list option"

definition device_new :: "u16 \<Rightarrow> u16 \<Rightarrow> u16 \<Rightarrow> dev_ops \<Rightarrow> device" where
  "device_new ty mtu flags ops =
     \<lparr>dev_index = 0, dev_name = [], dev_ty = ty, dev_mtu = mtu, dev_hlen = 0, dev_alen = 0,
      dev_addr = replicate ADDR_LEN 0, dev_peer = replicate ADDR_LEN 0,
      dev_broadcast = replicate ADDR_LEN 0, dev_flags = flags, dev_ifaces = [], dev_ops = ops\<rparr>"

text \<open>Only \<open>IpIface\<close> implements \<open>NetIface\<close>: an interface of another family does not exist.\<close>

definition FAMILY_IP :: u16 where "FAMILY_IP = 1"

definition iface_family :: "ip_iface \<Rightarrow> u16" where
  "iface_family iface = FAMILY_IP"

definition dev_add_iface :: "ip_iface \<Rightarrow> device \<Rightarrow> unit result \<times> device" where
  "dev_add_iface iface dev =
     (if \<exists>e \<in> set (dev_ifaces dev). iface_family e = iface_family iface then (Err, dev)
      else (Ok (), dev\<lparr>dev_ifaces := dev_ifaces dev @ [iface]\<rparr>))"

definition dev_get_iface :: "u16 \<Rightarrow> device \<Rightarrow> ip_iface option" where
  "dev_get_iface family dev = find (\<lambda>e. iface_family e = family) (dev_ifaces dev)"

definition is_up :: "device \<Rightarrow> bool" where
  "is_up dev \<longleftrightarrow> dev_flags dev AND FLAG_UP \<noteq> 0"

definition device_register :: "device \<Rightarrow> link \<Rightarrow> nat \<times> link" where
  "device_register dev l =
     (let i = length (devices l);
          dev' = dev\<lparr>dev_index := i, dev_name := ''net'' @ dec_string i\<rparr>
      in (i, l\<lparr>devices := devices l @ [dev']\<rparr>))"

definition by_index :: "link \<Rightarrow> nat \<Rightarrow> device option" where
  "by_index l i = (if i < length (devices l) then Some (devices l ! i) else None)"

section \<open>Protocol table and input queue\<close>

definition net_register_protocol :: "u16 \<Rightarrow> net_handler \<Rightarrow> link \<Rightarrow> unit result \<times> link" where
  "net_register_protocol ty h l =
     (if \<exists>p \<in> set (net_protocols l). fst p = ty then (Err, l)
      else (Ok (), l\<lparr>net_protocols := net_protocols l @ [(ty, h)]\<rparr>))"

definition net_input_handler :: "u16 \<Rightarrow> bytes \<Rightarrow> device \<Rightarrow> link \<Rightarrow> unit result \<times> link" where
  "net_input_handler ty data dev l =
     (if \<not> (\<exists>p \<in> set (net_protocols l). fst p = ty) then (Ok (), l)
      else case by_index l (dev_index dev) of
        None \<Rightarrow> (Err, l)
      | Some _ \<Rightarrow>
          (Ok (), l\<lparr>input_queue := input_queue l @
                      [\<lparr>ie_ty = ty, ie_data = data, ie_dev = dev_index dev\<rparr>],
                    lk_os := softirq_raise (lk_os l)\<rparr>))"

text \<open>One iteration of \<open>softirq_handler\<close>: the entry and the handler it is given to.\<close>

definition softirq_pop :: "link \<Rightarrow> ((net_handler option \<times> input_entry) \<times> link) option" where
  "softirq_pop l =
     (case input_queue l of
        [] \<Rightarrow> None
      | e # es \<Rightarrow>
          Some ((map_option snd (find (\<lambda>p. fst p = ie_ty e) (net_protocols l)), e),
                l\<lparr>input_queue := es\<rparr>))"

section \<open>The TAP driver\<close>

text \<open>\<open>query_mac\<close>: a socket is opened for the \<open>ioctl\<close> and closed again on both outcomes.\<close>

definition query_mac :: "os \<Rightarrow> ether_addr result \<times> os" where
  "query_mac s =
     (let (soc, s1) = fd_open s
      in if soc = - 1 then (Err, s1)
         else let (ret, s2) = syscall s1; s3 = fd_close soc s2
              in if ret = - 1 then (Err, s3)
                 else (Ok (EtherAddr (hwaddr s3 ! 0) (hwaddr s3 ! 1) (hwaddr s3 ! 2)
                             (hwaddr s3 ! 3) (hwaddr s3 ! 4) (hwaddr s3 ! 5)), s3))"

text \<open>The four \<open>fcntl\<close> calls at the end of \<open>open\<close>: each failure closes the descriptor.\<close>

fun tap_fcntl :: "nat \<Rightarrow> int \<Rightarrow> os \<Rightarrow> unit result \<times> os" where
  "tap_fcntl 0 fd s = (Ok (), s)"
| "tap_fcntl (Suc n) fd s =
     (let (ret, s') = syscall s
      in if ret = - 1 then (Err, fd_close fd s') else tap_fcntl n fd s')"

definition tap_mac :: "ether_tap \<Rightarrow> os \<Rightarrow> ether_addr result \<times> os" where
  "tap_mac tap s = (case configured_addr tap of Some a \<Rightarrow> (Ok a, s) | None \<Rightarrow> query_mac s)"

definition tap_open :: "ether_tap \<Rightarrow> device \<Rightarrow> os \<Rightarrow> unit result \<times> device \<times> os" where
  "tap_open tap dev s =
     (let (fd, s1) = fd_open s
      in if fd = - 1 then (Err, dev, s1)
         else let (ret, s2) = syscall s1
              in if ret = - 1 then (Err, dev, fd_close fd s2)
                 else case tap_mac tap s2 of
                   (Err, s3) \<Rightarrow> (Err, dev, fd_close fd s3)
                 | (Ok mac, s3) \<Rightarrow>
                     let dev' = dev\<lparr>dev_addr := copy_at 0 (ether_bytes mac) (dev_addr dev)\<rparr>
                     in case tap_fcntl 4 fd s3 of
                          (Err, s4) \<Rightarrow> (Err, dev', s4)
                        | (Ok _, s4) \<Rightarrow>
                            (Ok (), dev'\<lparr>dev_ops := EtherTapOps (tap\<lparr>tap_fd := fd\<rparr>)\<rparr>, s4))"

definition tap_close :: "ether_tap \<Rightarrow> device \<Rightarrow> os \<Rightarrow> unit result \<times> device \<times> os" where
  "tap_close tap dev s =
     (if tap_fd tap \<noteq> - 1
      then (Ok (), dev\<lparr>dev_ops := EtherTapOps (tap\<lparr>tap_fd := - 1\<rparr>)\<rparr>, fd_close (tap_fd tap) s)
      else (Ok (), dev, s))"

text \<open>The frame that \<open>transmit\<close> builds in its 1514-byte buffer and writes.\<close>

definition tap_frame :: "device \<Rightarrow> u16 \<Rightarrow> bytes \<Rightarrow> bytes \<Rightarrow> bytes" where
  "tap_frame dev ty data dst =
     (let frame = replicate ETHER_FRAME_SIZE_MAX 0;
          frame = copy_at 0 (take ETHER_ADDR_LEN dst) frame;
          frame = copy_at ETHER_ADDR_LEN (take ETHER_ADDR_LEN (dev_addr dev)) frame;
          frame = copy_at (2 * ETHER_ADDR_LEN) (u16_to_be ty) frame;
          frame = copy_at ETHER_HDR_SIZE data frame
      in take (ETHER_HDR_SIZE + max (length data) ETHER_PAYLOAD_SIZE_MIN) frame)"

definition tap_transmit ::
  "ether_tap \<Rightarrow> device \<Rightarrow> u16 \<Rightarrow> bytes \<Rightarrow> bytes \<Rightarrow> os \<Rightarrow> unit result \<times> os" where
  "tap_transmit tap dev ty data dst s =
     (if length dst < ETHER_ADDR_LEN then (Err, s)
      else if length data > ETHER_PAYLOAD_SIZE_MAX then (Err, s)
      else if tap_fd tap = - 1 then (Err, s)
      else let (n, s') = syscall s
           in if n = - 1 then (Err, s')
              else (Ok (), s'\<lparr>wire := wire s' @ [(tap_fd tap, tap_frame dev ty data dst)]\<rparr>))"

definition tap_input :: "device \<Rightarrow> bytes \<Rightarrow> link \<Rightarrow> link" where
  "tap_input dev frame l =
     (if length frame < ETHER_HDR_SIZE then l
      else let dst = take ETHER_ADDR_LEN frame
           in if dst \<noteq> take ETHER_ADDR_LEN (dev_addr dev) \<and> dst \<noteq> ether_bytes ETHER_ADDR_BROADCAST
              then l
              else snd (net_input_handler (u16_from_be (frame ! 12) (frame ! 13))
                          (drop ETHER_HDR_SIZE frame) dev l))"

text \<open>
  The read loop of the interrupt handler, over the results the kernel returns for the successive
  \<open>read\<close> calls. The flag says whether the loop has ended.
\<close>

datatype read_result = ReadFrame bytes | ReadEof | ReadEintr | ReadAgain | ReadError

fun tap_isr_loop :: "device \<Rightarrow> read_result list \<Rightarrow> link \<Rightarrow> bool \<times> link" where
  "tap_isr_loop dev [] l = (False, l)"
| "tap_isr_loop dev (ReadEintr # rs) l = tap_isr_loop dev rs l"
| "tap_isr_loop dev (ReadAgain # rs) l = (True, l)"
| "tap_isr_loop dev (ReadError # rs) l = (True, l)"
| "tap_isr_loop dev (ReadEof # rs) l = (True, l)"
| "tap_isr_loop dev (ReadFrame frame # rs) l = tap_isr_loop dev rs (tap_input dev frame l)"

definition tap_isr :: "nat \<Rightarrow> read_result list \<Rightarrow> link \<Rightarrow> bool \<times> link" where
  "tap_isr i rs l =
     (case by_index l i of
        None \<Rightarrow> (True, l)
      | Some dev \<Rightarrow>
          (case dev_ops dev of
             LoopbackOps \<Rightarrow> (True, l)
           | EtherTapOps tap \<Rightarrow>
               if tap_fd tap = - 1 then (True, l) else tap_isr_loop dev rs l))"

section \<open>Device operations\<close>

definition loopback_transmit :: "device \<Rightarrow> u16 \<Rightarrow> bytes \<Rightarrow> bytes \<Rightarrow> link \<Rightarrow> unit result \<times> link" where
  "loopback_transmit dev ty data dst l = net_input_handler ty data dev l"

definition dev_transmit ::
  "device \<Rightarrow> u16 \<Rightarrow> bytes \<Rightarrow> bytes \<Rightarrow> link \<Rightarrow> unit result \<times> link" where
  "dev_transmit dev ty data dst l =
     (case dev_ops dev of
        LoopbackOps \<Rightarrow> loopback_transmit dev ty data dst l
      | EtherTapOps tap \<Rightarrow>
          (let (r, s) = tap_transmit tap dev ty data dst (lk_os l) in (r, l\<lparr>lk_os := s\<rparr>)))"

text \<open>The length check casts the length to \<open>u16\<close> before it compares.\<close>

definition device_output ::
  "nat \<Rightarrow> u16 \<Rightarrow> bytes \<Rightarrow> bytes \<Rightarrow> link \<Rightarrow> unit result \<times> link" where
  "device_output i ty data dst l =
     (case by_index l i of
        None \<Rightarrow> (Err, l)
      | Some dev \<Rightarrow>
          if \<not> is_up dev then (Err, l)
          else if (of_nat (length data) :: u16) > dev_mtu dev then (Err, l)
          else dev_transmit dev ty data dst l)"

definition ops_open :: "device \<Rightarrow> os \<Rightarrow> unit result \<times> device \<times> os" where
  "ops_open dev s =
     (case dev_ops dev of LoopbackOps \<Rightarrow> (Ok (), dev, s) | EtherTapOps tap \<Rightarrow> tap_open tap dev s)"

definition ops_close :: "device \<Rightarrow> os \<Rightarrow> unit result \<times> device \<times> os" where
  "ops_close dev s =
     (case dev_ops dev of LoopbackOps \<Rightarrow> (Ok (), dev, s) | EtherTapOps tap \<Rightarrow> tap_close tap dev s)"

definition device_open :: "device \<Rightarrow> os \<Rightarrow> unit result \<times> device \<times> os" where
  "device_open dev s =
     (if is_up dev then (Err, dev, s)
      else case ops_open dev s of
        (Err, dev', s') \<Rightarrow> (Err, dev', s')
      | (Ok _, dev', s') \<Rightarrow> (Ok (), dev'\<lparr>dev_flags := dev_flags dev' OR FLAG_UP\<rparr>, s'))"

definition device_close :: "device \<Rightarrow> os \<Rightarrow> unit result \<times> device \<times> os" where
  "device_close dev s =
     (if \<not> is_up dev then (Err, dev, s)
      else case ops_close dev s of
        (Err, dev', s') \<Rightarrow> (Err, dev', s')
      | (Ok _, dev', s') \<Rightarrow> (Ok (), dev'\<lparr>dev_flags := dev_flags dev' AND NOT FLAG_UP\<rparr>, s'))"

text \<open>\<open>try_foreach(|dev| dev.open())\<close> of \<open>net::run\<close> and the \<open>foreach\<close> of \<open>net::shutdown\<close>.\<close>

fun open_all :: "device list \<Rightarrow> os \<Rightarrow> unit result \<times> device list \<times> os" where
  "open_all [] s = (Ok (), [], s)"
| "open_all (d # ds) s =
     (case device_open d s of
        (Err, d', s') \<Rightarrow> (Err, d' # ds, s')
      | (Ok _, d', s') \<Rightarrow> (let (r, ds', s'') = open_all ds s' in (r, d' # ds', s'')))"

fun close_all :: "device list \<Rightarrow> os \<Rightarrow> device list \<times> os" where
  "close_all [] s = ([], s)"
| "close_all (d # ds) s =
     (let (r, d', s') = device_close d s; (ds', s'') = close_all ds s' in (d' # ds', s''))"

definition loopback_init :: "link \<Rightarrow> nat \<times> link" where
  "loopback_init l = device_register (device_new TYPE_LOOPBACK 0xffff FLAG_LOOPBACK LoopbackOps) l"

text \<open>
  \<open>ether_tap::init\<close>: the interrupt number \<open>SIGRTMIN() + 1\<close> is a value of the C library.
\<close>

definition ether_tap_init ::
  "u32 \<Rightarrow> string \<Rightarrow> ether_addr option \<Rightarrow> link \<Rightarrow> nat result \<times> link" where
  "ether_tap_init irq_no name a l =
     (let tap = \<lparr>tap_name = name, configured_addr = a, tap_fd = - 1, tap_irq = irq_no\<rparr>;
          dev = device_new TYPE_ETHERNET (of_nat ETHER_PAYLOAD_SIZE_MAX)
                  (FLAG_BROADCAST OR FLAG_NEED_ARP) (EtherTapOps tap);
          dev = dev\<lparr>dev_hlen := of_nat ETHER_HDR_SIZE, dev_alen := of_nat ETHER_ADDR_LEN,
                    dev_broadcast := copy_at 0 (ether_bytes ETHER_ADDR_BROADCAST) (dev_broadcast dev)\<rparr>;
          (i, l') = device_register dev l
      in case intr_register irq_no (TapIsr i) FLAG_SHARED ''ether_tap'' (irqs l') of
           (Err, q) \<Rightarrow> (Err, l'\<lparr>irqs := q\<rparr>)
         | (Ok _, q) \<Rightarrow> (Ok i, l'\<lparr>irqs := q\<rparr>))"

end
