(* ===== verification/Link_Props.thy ===== *)
theory Link_Props
  imports Link
begin

text \<open>
  Facts about the link layer: the shape of the frames the TAP driver writes and that the driver
  at the other end hands the same payload to the input queue, descriptor hygiene of \<open>open\<close>, the
  up and down states of devices, well-formedness of the device table, and the contract every
  sending operation of the stack keeps: it only appends (to the input queue and to the wire).
\<close>

section \<open>Frames\<close>

lemma tap_frame_layout:
  assumes "ETHER_ADDR_LEN \<le> length dst" and "ETHER_ADDR_LEN \<le> length (dev_addr dev)"
    and "length data \<le> ETHER_PAYLOAD_SIZE_MAX"
  shows "tap_frame dev ty data dst =
    take 6 dst @ take 6 (dev_addr dev) @ u16_to_be ty @ data @
    replicate (ETHER_PAYLOAD_SIZE_MIN - length data) 0"
proof -
  have "tap_frame dev ty data dst = take (14 + max (length data) 46)
      (take 6 dst @ take 6 (dev_addr dev) @ u16_to_be ty @ data @ replicate (1500 - length data) 0)"
    using assms by (simp add: tap_frame_def ether_sizes layout_simps Let_def)
  then show ?thesis using assms by (simp add: ether_sizes max_def)
qed

lemma tap_frame_length:
  assumes "ETHER_ADDR_LEN \<le> length dst" and "ETHER_ADDR_LEN \<le> length (dev_addr dev)"
    and "length data \<le> ETHER_PAYLOAD_SIZE_MAX"
  shows "length (tap_frame dev ty data dst) = 14 + max (length data) 46"
  using assms by (simp add: tap_frame_layout) (simp add: ether_sizes)

lemma tap_frame_received:
  assumes len: "ETHER_ADDR_LEN \<le> length dst" "ETHER_ADDR_LEN \<le> length (dev_addr dev)"
      "length data \<le> ETHER_PAYLOAD_SIZE_MAX"
  shows "tap_input dev' (tap_frame dev ty data dst) l =
    (if take 6 dst = take 6 (dev_addr dev') \<or> take 6 dst = ether_bytes ETHER_ADDR_BROADCAST
     then snd (net_input_handler ty
       (data @ replicate (ETHER_PAYLOAD_SIZE_MIN - length data) 0) dev' l)
     else l)"
proof -
  obtain a b c d e f where dst: "take 6 dst = [a, b, c, d, e, f]"
    using len(1) by (auto simp: ether_sizes numeral_eq_Suc Suc_le_length_iff)
  obtain p q r s t u where src: "take 6 (dev_addr dev) = [p, q, r, s, t, u]"
    using len(2) by (auto simp: ether_sizes numeral_eq_Suc Suc_le_length_iff)
  show ?thesis
    by (simp add: tap_input_def tap_frame_layout [OF len] dst src u16_to_be_def ether_sizes
        u16_be_roundtrip Let_def)
qed

section \<open>Opening and closing\<close>

lemma fd_close_open [simp]: "open_fds (fd_close fd s) = remove1 fd (open_fds s)"
  by (simp add: fd_close_def)

lemma syscall_frame [simp]: "open_fds (snd (syscall s)) = open_fds s"
  by (simp add: syscall_def)

lemma fd_open_fds: "fd_open s = (fd, s') \<Longrightarrow>
    open_fds s' = (if fd = - 1 then open_fds s else fd # open_fds s)"
  by (auto simp: fd_open_def syscall_def Let_def)

lemma query_mac_fds: "open_fds (snd (query_mac s)) = open_fds s"
  by (auto simp: query_mac_def Let_def fd_open_def syscall_def split: prod.splits if_splits)

lemma tap_mac_fds: "open_fds (snd (tap_mac tap s)) = open_fds s"
  by (simp add: tap_mac_def query_mac_fds split: option.splits)

lemma tap_fcntl_fds:
  "open_fds (snd (tap_fcntl n fd s)) =
     (if is_err (fst (tap_fcntl n fd s)) then remove1 fd (open_fds s) else open_fds s)"
proof (induction n arbitrary: s)
  case (Suc n)
  then show ?case by (simp add: case_prod_beta Let_def)
qed simp

lemma tap_open_fds:
  "open_fds (snd (snd (tap_open tap dev s))) =
     (if is_err (fst (tap_open tap dev s)) then open_fds s else fst (fd_open s) # open_fds s)"
proof -
  obtain fd s1 where open_eq: "fd_open s = (fd, s1)" by (cases "fd_open s")
  obtain ret s2 where ioctl: "syscall s1 = (ret, s2)" by (cases "syscall s1")
  obtain m s3 where mac: "tap_mac tap s2 = (m, s3)" by (cases "tap_mac tap s2")
  obtain r s4 where fcntl: "tap_fcntl 4 fd s3 = (r, s4)" by (cases "tap_fcntl 4 fd s3")
  have "open_fds s3 = open_fds s2" "open_fds s2 = open_fds s1"
    using tap_mac_fds [of tap s2] mac syscall_frame [of s1] ioctl by simp_all
  moreover have "open_fds s4 = (if is_err r then remove1 fd (open_fds s3) else open_fds s3)"
    using tap_fcntl_fds [of 4 fd s3] fcntl by simp
  ultimately show ?thesis
    using fd_open_fds [OF open_eq] open_eq ioctl mac fcntl
    by (auto simp: tap_open_def Let_def split: result.splits)
qed

lemma flag_up_nonzero [simp]: "FLAG_UP \<noteq> 0"
  by (simp add: FLAG_UP_def)

lemma and_not_flag_up [simp]: "(w AND NOT FLAG_UP) AND FLAG_UP = 0"
  by (rule bit_word_eqI) (simp add: bit_simps)

lemma device_open_up:
  "device_open dev s = (Ok u, dev', s') \<Longrightarrow> \<not> is_up dev \<and> is_up dev'"
  by (auto simp: device_open_def is_up_def split: if_splits prod.splits result.splits)

lemma device_close_down:
  "device_close dev s = (Ok u, dev', s') \<Longrightarrow> is_up dev \<and> \<not> is_up dev'"
  by (auto simp: device_close_def is_up_def split: if_splits prod.splits result.splits)

section \<open>Well-formed device tables\<close>

text \<open>
  The fixed-size arrays have their size, the address length fits an Ethernet address, and a device
  knows its own index.
\<close>

definition device_wf :: "device \<Rightarrow> bool" where
  "device_wf d \<longleftrightarrow> length (dev_addr d) = 16 \<and> length (dev_broadcast d) = 16 \<and> unat (dev_alen d) \<le> 6"

definition link_wf :: "link \<Rightarrow> bool" where
  "link_wf l \<longleftrightarrow> (\<forall>i < length (devices l). dev_index (devices l ! i) = i \<and> device_wf (devices l ! i))
     \<and> irqs_wf (irqs l)"

lemma device_register_wf: "link_wf l \<Longrightarrow> device_wf d \<Longrightarrow> link_wf (snd (device_register d l))"
  by (auto simp: link_wf_def device_register_def nth_append device_wf_def Let_def)

lemma loopback_init_wf: "link_wf l \<Longrightarrow> link_wf (snd (loopback_init l))"
  unfolding loopback_init_def
  by (intro device_register_wf) (simp_all add: device_wf_def device_new_def ADDR_LEN_def)

lemma ether_tap_init_wf:
  assumes "link_wf l"
  shows "link_wf (snd (ether_tap_init n name a l))"
proof -
  define d where "d = (device_new TYPE_ETHERNET (of_nat ETHER_PAYLOAD_SIZE_MAX)
      (FLAG_BROADCAST OR FLAG_NEED_ARP) (EtherTapOps
        \<lparr>tap_name = name, configured_addr = a, tap_fd = - 1, tap_irq = n\<rparr>))
      \<lparr>dev_hlen := of_nat ETHER_HDR_SIZE, dev_alen := of_nat ETHER_ADDR_LEN,
       dev_broadcast := copy_at 0 (ether_bytes ETHER_ADDR_BROADCAST) (replicate ADDR_LEN 0)\<rparr>"
  have "device_wf d"
    by (simp add: d_def device_wf_def device_new_def ADDR_LEN_def ether_sizes copy_at_length)
  with assms have "link_wf (snd (device_register d l))" by (rule device_register_wf)
  then show ?thesis
    using intr_register_wf [of "irqs (snd (device_register d l))" n "TapIsr (length (devices l))"
        FLAG_SHARED "''ether_tap''"]
    by (auto simp: ether_tap_init_def d_def device_new_def link_wf_def device_register_def Let_def
        split: prod.splits result.splits)
qed

section \<open>Sending only appends\<close>

text \<open>
  What an operation that sends packets may do to the link layer: consume clock readings, random
  numbers and system call results, append to the wire and to the input queue, and raise the
  software interrupt once for every packet it queues. Devices, protocols, interrupts and timers are
  as before.
\<close>

definition os_extends :: "os \<Rightarrow> os \<Rightarrow> bool" where
  "os_extends s s' \<longleftrightarrow> clock s' = clock s \<and> rand s' = rand s \<and> sys_ret s' = sys_ret s \<and>
     hwaddr s' = hwaddr s \<and> open_fds s' = open_fds s \<and> (\<exists>ws. wire s' = wire s @ ws) \<and>
     clock_reads s \<le> clock_reads s' \<and> rand_reads s \<le> rand_reads s' \<and>
     softirqs s' = softirqs s \<and> (panicked s \<longrightarrow> panicked s')"

definition link_extends :: "link \<Rightarrow> link \<Rightarrow> bool" where
  "link_extends l l' \<longleftrightarrow> devices l' = devices l \<and> net_protocols l' = net_protocols l \<and>
     irqs l' = irqs l \<and> timers l' = timers l \<and> timer_created l' = timer_created l \<and>
     dispatcher l' = dispatcher l \<and> (\<exists>es. input_queue l' = input_queue l @ es \<and>
       os_extends ((lk_os l)\<lparr>softirqs := softirqs (lk_os l) + length es\<rparr>) (lk_os l'))"

lemma os_extends_refl [simp]: "os_extends s s"
  by (simp add: os_extends_def)

lemma os_extends_trans: "os_extends s s' \<Longrightarrow> os_extends s' s'' \<Longrightarrow> os_extends s s''"
  by (auto simp: os_extends_def)

lemma link_extends_refl [simp]: "link_extends l l"
  by (simp add: link_extends_def)

lemma link_extends_trans: "link_extends l l' \<Longrightarrow> link_extends l' l'' \<Longrightarrow> link_extends l l''"
  by (auto simp: link_extends_def os_extends_def)

lemma link_extends_os [simp]: "link_extends l (l\<lparr>lk_os := s\<rparr>) \<longleftrightarrow> os_extends (lk_os l) s"
  by (simp add: link_extends_def)

lemma link_extends_wf: "link_extends l l' \<Longrightarrow> link_wf l \<Longrightarrow> link_wf l'"
  by (simp add: link_extends_def link_wf_def)

lemma os_step_extends [simp]:
  "os_extends s (snd (now s))" "os_extends s (snd (random32 s))" "os_extends s (snd (syscall s))"
  "os_extends s (panic s)"
  by (simp_all add: os_extends_def now_def random32_def syscall_def panic_def)

text \<open>
  The contract as an interface: an operation on some state that contains the link layer. Its
  clients get, once and for all, what a whole sequence of sends keeps.
\<close>

locale sender =
  fixes link_of :: "'s \<Rightarrow> link"
    and op :: "'a \<Rightarrow> 's \<Rightarrow> 'r \<times> 's"
  assumes op_extends: "link_extends (link_of s) (link_of (snd (op a s)))"
begin

lemma keeps_devices: "devices (link_of (snd (op a s))) = devices (link_of s)"
  using op_extends [of s a] by (simp add: link_extends_def)

lemma keeps_wf: "link_wf (link_of s) \<Longrightarrow> link_wf (link_of (snd (op a s)))"
  by (rule link_extends_wf [OF op_extends])

lemma keeps_queue: "\<exists>es. input_queue (link_of (snd (op a s))) = input_queue (link_of s) @ es"
  using op_extends [of s a] by (auto simp: link_extends_def)

lemma raises_per_packet:
  "softirqs (lk_os (link_of (snd (op a s)))) + length (input_queue (link_of s)) =
     softirqs (lk_os (link_of s)) + length (input_queue (link_of (snd (op a s))))"
  using op_extends [of s a] by (auto simp: link_extends_def os_extends_def)

lemma sends_extend: "link_extends (link_of s) (link_of (fold (\<lambda>a s. snd (op a s)) as s))"
proof (induction as arbitrary: s)
  case (Cons a as)
  show ?case using link_extends_trans [OF op_extends Cons.IH] by simp
qed simp

end

lemma net_input_handler_extends: "link_extends l (snd (net_input_handler ty data dev l))"
  by (auto simp: net_input_handler_def link_extends_def softirq_raise_def split: option.splits)

lemma tap_transmit_extends: "os_extends s (snd (tap_transmit tap dev ty data dst s))"
  by (auto simp: tap_transmit_def syscall_def os_extends_def Let_def)

lemma device_output_extends: "link_extends l (snd (device_output i ty data dst l))"
  by (auto simp: device_output_def dev_transmit_def loopback_transmit_def case_prod_beta
      net_input_handler_extends tap_transmit_extends split: option.splits dev_ops.splits)

interpretation dev_send: sender id "\<lambda>(i, ty, data, dst). device_output i ty data dst"
  by unfold_locales (auto simp: device_output_extends)

section \<open>The loopback device\<close>

lemma loopback_output:
  assumes "by_index l i = Some dev" and "dev_ops dev = LoopbackOps" and "is_up dev"
    and "dev_index dev = i" and "length data \<le> unat (dev_mtu dev)"
    and "\<exists>p \<in> set (net_protocols l). fst p = ty"
  shows "device_output i ty data dst l =
    (Ok (), l\<lparr>input_queue := input_queue l @ [\<lparr>ie_ty = ty, ie_data = data, ie_dev = i\<rparr>],
              lk_os := softirq_raise (lk_os l)\<rparr>)"
proof -
  have "length data < 65536" using assms(5) unat_u16_less [of "dev_mtu dev"] by linarith
  then have "\<not> (of_nat (length data) :: u16) > dev_mtu dev"
    using assms(5) by (simp add: word_less_nat_alt unat_of_nat_u16)
  then show ?thesis using assms
    by (simp add: device_output_def dev_transmit_def loopback_transmit_def net_input_handler_def)
qed

end
