(* ===== verification/Arp.thy ===== *)
theory Arp
  imports Link_Props
begin

text \<open>
  The ARP protocol of \<^verbatim>\<open>src/src/arp.rs\<close>: the cache with its eviction and expiry rules, address
  resolution, the request and reply packets and the input handler.
\<close>

section \<open>Cache\<close>

definition ARP_HRD_ETHER :: u16 where "ARP_HRD_ETHER = 0x0001"
definition ARP_PRO_IP :: u16 where "ARP_PRO_IP = ETHER_TYPE_IP"
definition ARP_OP_REQUEST :: u16 where "ARP_OP_REQUEST = 1"
definition ARP_OP_REPLY :: u16 where "ARP_OP_REPLY = 2"
definition ARP_HDR_SIZE :: nat where "ARP_HDR_SIZE = 8"

definition ARP_ETHER_IP_SIZE :: nat where
  "ARP_ETHER_IP_SIZE = ARP_HDR_SIZE + (ETHER_ADDR_LEN + IP_ADDR_LEN) * 2"

definition CACHE_SIZE :: nat where "CACHE_SIZE = 32"
definition CACHE_TIMEOUT :: duration where "CACHE_TIMEOUT = 30 * 10 ^ 9"

lemmas arp_consts = ARP_HRD_ETHER_def ARP_PRO_IP_def ARP_OP_REQUEST_def ARP_OP_REPLY_def
  ARP_HDR_SIZE_def ARP_ETHER_IP_SIZE_def ETHER_TYPE_IP_def IP_ADDR_LEN_def ETHER_ADDR_LEN_def

datatype cache_state = Incomplete | Resolved | Static

record cache_entry =
  ce_state :: cache_state
  ce_pa :: ip_addr
  ce_ha :: ether_addr
  ce_timestamp :: duration

record arp_state =
  arp_link :: link
  arp_cache :: "cache_entry list"

definition arp_now :: "arp_state \<Rightarrow> duration \<times> arp_state" where
  "arp_now s = (let (t, os') = now (lk_os (arp_link s))
     in (t, s\<lparr>arp_link := (arp_link s)\<lparr>lk_os := os'\<rparr>\<rparr>))"

fun cache_find :: "cache_entry list \<Rightarrow> ip_addr \<Rightarrow> (cache_state \<times> ether_addr) option" where
  "cache_find [] pa = None"
| "cache_find (e # es) pa = (if ce_pa e = pa then Some (ce_state e, ce_ha e) else cache_find es pa)"

definition cache_select :: "ip_addr \<Rightarrow> arp_state \<Rightarrow> (cache_state \<times> ether_addr) option" where
  "cache_select pa s = cache_find (arp_cache s) pa"

text \<open>The update loop stops at the first entry for the address.\<close>

fun cache_set :: "ip_addr \<Rightarrow> ether_addr \<Rightarrow> duration \<Rightarrow> cache_entry list \<Rightarrow> cache_entry list" where
  "cache_set pa ha t [] = []"
| "cache_set pa ha t (e # es) =
     (if ce_pa e = pa then e\<lparr>ce_ha := ha, ce_state := Resolved, ce_timestamp := t\<rparr> # es
      else e # cache_set pa ha t es)"

definition cache_update :: "ip_addr \<Rightarrow> ether_addr \<Rightarrow> arp_state \<Rightarrow> bool \<times> arp_state" where
  "cache_update pa ha s =
     (if \<exists>e \<in> set (arp_cache s). ce_pa e = pa
      then let (t, s') = arp_now s in (True, s'\<lparr>arp_cache := cache_set pa ha t (arp_cache s)\<rparr>)
      else (False, s))"

text \<open>The scan for the oldest entry that is not static; the earlier one wins a tie.\<close>

definition oldest_step :: "cache_entry list \<Rightarrow> nat option \<Rightarrow> nat \<times> cache_entry \<Rightarrow> nat option" where
  "oldest_step c oldest ie =
     (case ie of (i, e) \<Rightarrow>
        if ce_state e = Static then oldest
        else case oldest of
          Some j \<Rightarrow> if ce_timestamp (c ! j) \<le> ce_timestamp e then Some j else Some i
        | None \<Rightarrow> Some i)"

definition oldest :: "cache_entry list \<Rightarrow> nat option" where
  "oldest c = foldl (oldest_step c) None (enumerate 0 c)"

definition cache_put :: "cache_entry \<Rightarrow> cache_entry list \<Rightarrow> cache_entry list" where
  "cache_put e c =
     (if length c < CACHE_SIZE then c @ [e]
      else case oldest c of Some i \<Rightarrow> c[i := e] | None \<Rightarrow> c)"

definition cache_insert :: "ip_addr \<Rightarrow> ether_addr \<Rightarrow> cache_state \<Rightarrow> arp_state \<Rightarrow> arp_state" where
  "cache_insert pa ha st s =
     (let (t, s') = arp_now s
      in s'\<lparr>arp_cache := cache_put \<lparr>ce_state = st, ce_pa = pa, ce_ha = ha, ce_timestamp = t\<rparr> (arp_cache s)\<rparr>)"

text \<open>The expiry loop of \<open>on_timer\<close>.\<close>

definition expired :: "duration \<Rightarrow> cache_entry \<Rightarrow> bool" where
  "expired t e \<longleftrightarrow> ce_state e \<noteq> Static \<and> CACHE_TIMEOUT \<le> t - ce_timestamp e"

fun cache_expire :: "duration \<Rightarrow> cache_entry list \<Rightarrow> cache_entry list" where
  "cache_expire t [] = []"
| "cache_expire t (e # es) = (if expired t e then cache_expire t es else e # cache_expire t es)"

definition arp_on_timer :: "arp_state \<Rightarrow> arp_state" where
  "arp_on_timer s = (let (t, s') = arp_now s in s'\<lparr>arp_cache := cache_expire t (arp_cache s)\<rparr>)"

section \<open>Packets\<close>

definition arp_hdr_new :: "bytes \<Rightarrow> bytes option" where
  "arp_hdr_new data = (if length data < ARP_HDR_SIZE then None else Some data)"

definition arp_hrd :: "bytes \<Rightarrow> u16" where "arp_hrd d = u16_from_be (d ! 0) (d ! 1)"
definition arp_pro :: "bytes \<Rightarrow> u16" where "arp_pro d = u16_from_be (d ! 2) (d ! 3)"
definition arp_hln :: "bytes \<Rightarrow> u8" where "arp_hln d = d ! 4"
definition arp_pln :: "bytes \<Rightarrow> u8" where "arp_pln d = d ! 5"
definition arp_op :: "bytes \<Rightarrow> u16" where "arp_op d = u16_from_be (d ! 6) (d ! 7)"

definition arp_ether_ip_new :: "bytes \<Rightarrow> bytes option" where
  "arp_ether_ip_new data = (if length data < ARP_ETHER_IP_SIZE then None else Some data)"

definition arp_sha :: "bytes \<Rightarrow> ether_addr" where
  "arp_sha d = EtherAddr (d ! 8) (d ! 9) (d ! 10) (d ! 11) (d ! 12) (d ! 13)"

definition arp_spa :: "bytes \<Rightarrow> ip_addr" where
  "arp_spa d = IpAddr (d ! 14) (d ! 15) (d ! 16) (d ! 17)"

definition arp_tha :: "bytes \<Rightarrow> ether_addr" where
  "arp_tha d = EtherAddr (d ! 18) (d ! 19) (d ! 20) (d ! 21) (d ! 22) (d ! 23)"

definition arp_tpa :: "bytes \<Rightarrow> ip_addr" where
  "arp_tpa d = IpAddr (d ! 24) (d ! 25) (d ! 26) (d ! 27)"

text \<open>The part of the buffer both \<open>request\<close> and \<open>reply\<close> fill in the same way.\<close>

definition arp_buf :: "u16 \<Rightarrow> bytes \<Rightarrow> ip_addr \<Rightarrow> bytes" where
  "arp_buf op my_addr spa =
     (let buf = replicate ARP_ETHER_IP_SIZE 0;
          buf = copy_at 0 (u16_to_be ARP_HRD_ETHER) buf;
          buf = copy_at 2 (u16_to_be ARP_PRO_IP) buf;
          buf = copy_at 4 [of_nat ETHER_ADDR_LEN] buf;
          buf = copy_at 5 [of_nat IP_ADDR_LEN] buf;
          buf = copy_at 6 (u16_to_be op) buf;
          buf = copy_at 8 (take ETHER_ADDR_LEN my_addr) buf
      in copy_at 14 (ip_bytes spa) buf)"

definition arp_request_packet :: "bytes \<Rightarrow> ip_addr \<Rightarrow> ip_addr \<Rightarrow> bytes" where
  "arp_request_packet my_addr spa tpa =
     copy_at 24 (ip_bytes tpa) (arp_buf ARP_OP_REQUEST my_addr spa)"

definition arp_reply_packet :: "bytes \<Rightarrow> ip_addr \<Rightarrow> ether_addr \<Rightarrow> ip_addr \<Rightarrow> bytes" where
  "arp_reply_packet my_addr spa tha tpa =
     copy_at 24 (ip_bytes tpa) (copy_at 18 (ether_bytes tha) (arp_buf ARP_OP_REPLY my_addr spa))"

definition arp_output :: "nat \<Rightarrow> bytes \<Rightarrow> bytes \<Rightarrow> arp_state \<Rightarrow> unit result \<times> arp_state" where
  "arp_output i buf dst s =
     (let (r, l) = device_output i ETHER_TYPE_ARP buf dst (arp_link s) in (r, s\<lparr>arp_link := l\<rparr>))"

definition arp_request :: "ip_iface \<Rightarrow> ip_addr \<Rightarrow> arp_state \<Rightarrow> unit result \<times> arp_state" where
  "arp_request iface tpa s =
     (case by_index (arp_link s) (if_dev iface) of
        None \<Rightarrow> (Err, s)
      | Some dev \<Rightarrow>
          arp_output (if_dev iface) (arp_request_packet (dev_addr dev) (if_unicast iface) tpa)
            (take ETHER_ADDR_LEN (dev_broadcast dev)) s)"

definition arp_reply ::
  "device \<Rightarrow> ether_addr \<Rightarrow> ip_addr \<Rightarrow> ip_addr \<Rightarrow> arp_state \<Rightarrow> unit result \<times> arp_state" where
  "arp_reply dev tha tpa src s =
     arp_output (dev_index dev) (arp_reply_packet (dev_addr dev) src tha tpa) (ether_bytes tha) s"

section \<open>Resolution and input\<close>

definition arp_resolve :: "ip_iface \<Rightarrow> ip_addr \<Rightarrow> arp_state \<Rightarrow> ether_addr option result \<times> arp_state" where
  "arp_resolve iface pa s =
     (case cache_select pa s of
        Some (Incomplete, _) \<Rightarrow> (Ok None, s)
      | Some (_, ha) \<Rightarrow> (Ok (Some ha), s)
      | None \<Rightarrow>
          (case arp_request iface pa (cache_insert pa ETHER_ADDR_ANY Incomplete s) of
             (Err, s') \<Rightarrow> (Err, s')
           | (Ok _, s') \<Rightarrow> (Ok None, s')))"

definition arp_input :: "bytes \<Rightarrow> nat \<Rightarrow> arp_state \<Rightarrow> arp_state" where
  "arp_input data i s =
     (case by_index (arp_link s) i of
        None \<Rightarrow> s
      | Some dev \<Rightarrow>
          (case arp_hdr_new data of
             None \<Rightarrow> s
           | Some hdr \<Rightarrow>
               if arp_hrd hdr \<noteq> ARP_HRD_ETHER \<or> arp_hln hdr \<noteq> of_nat ETHER_ADDR_LEN then s
               else if arp_pro hdr \<noteq> ARP_PRO_IP \<or> arp_pln hdr \<noteq> of_nat IP_ADDR_LEN then s
               else case arp_ether_ip_new data of
                 None \<Rightarrow> s
               | Some arp \<Rightarrow>
                   let (merge, s1) = cache_update (arp_spa arp) (arp_sha arp) s
                   in case dev_get_iface FAMILY_IP dev of
                        None \<Rightarrow> s1
                      | Some iface \<Rightarrow>
                          if arp_tpa arp = if_unicast iface
                          then let s2 = (if merge then s1
                                         else cache_insert (arp_spa arp) (arp_sha arp) Resolved s1)
                               in if arp_op hdr = ARP_OP_REQUEST
                                  then snd (arp_reply dev (arp_sha arp) (arp_spa arp)
                                              (if_unicast iface) s2)
                                  else s2
                          else s1))"

end
