(* ===== verification/Arp_Props.thy ===== *)
theory Arp_Props
  imports Arp
begin

text \<open>
  Correctness of ARP: packets parse back to what they were built from, the cache never exceeds
  its size nor holds two entries for one address, eviction picks an oldest non-static entry,
  expiry removes exactly the old entries, learning an address makes resolution succeed, and a
  request for an address of the stack is answered with a reply to the sender.
\<close>

section \<open>Packets\<close>

lemma arp_packet_layout:
  assumes "length my_addr \<ge> 6"
  shows "arp_request_packet my_addr spa tpa =
      [0, 1, 8, 0, 6, 4, 0, 1] @ take 6 my_addr @ ip_bytes spa @ replicate 6 0 @ ip_bytes tpa"
    and "arp_reply_packet my_addr spa tha tpa =
      [0, 1, 8, 0, 6, 4, 0, 2] @ take 6 my_addr @ ip_bytes spa @ ether_bytes tha @ ip_bytes tpa"
  using assms
  by (simp_all add: arp_request_packet_def arp_reply_packet_def arp_buf_def arp_consts
      u16_to_be_def layout_simps Let_def)

lemma take6_ether:
  assumes "6 \<le> length my_addr"
  obtains a b c d e f where "take 6 my_addr = [a, b, c, d, e, f]"
    "take 6 my_addr = ether_bytes (EtherAddr a b c d e f)"
  using assms by (auto simp: numeral_eq_Suc Suc_le_length_iff)

lemma arp_packet_fields:
  assumes "6 \<le> length my_addr"
  shows "arp_sha (arp_reply_packet my_addr spa tha tpa) = ether_hdr_dst my_addr"
    and "arp_spa (arp_reply_packet my_addr spa tha tpa) = spa"
    and "arp_tha (arp_reply_packet my_addr spa tha tpa) = tha"
    and "arp_tpa (arp_reply_packet my_addr spa tha tpa) = tpa"
    and "arp_sha (arp_request_packet my_addr spa tpa) = ether_hdr_dst my_addr"
    and "arp_spa (arp_request_packet my_addr spa tpa) = spa"
    and "arp_tpa (arp_request_packet my_addr spa tpa) = tpa"
proof -
  obtain a b c d e f rest where my: "my_addr = a # b # c # d # e # f # rest"
    using assms by (auto simp: numeral_eq_Suc Suc_le_length_iff)
  obtain p q r u where "spa = IpAddr p q r u" by (cases spa)
  moreover obtain v w x y where "tpa = IpAddr v w x y" by (cases tpa)
  moreover obtain g h i j k m where "tha = EtherAddr g h i j k m" by (cases tha)
  ultimately show "arp_sha (arp_reply_packet my_addr spa tha tpa) = ether_hdr_dst my_addr"
    "arp_spa (arp_reply_packet my_addr spa tha tpa) = spa"
    "arp_tha (arp_reply_packet my_addr spa tha tpa) = tha"
    "arp_tpa (arp_reply_packet my_addr spa tha tpa) = tpa"
    "arp_sha (arp_request_packet my_addr spa tpa) = ether_hdr_dst my_addr"
    "arp_spa (arp_request_packet my_addr spa tpa) = spa"
    "arp_tpa (arp_request_packet my_addr spa tpa) = tpa"
    unfolding arp_packet_layout [OF assms]
    by (simp_all add: my arp_sha_def arp_spa_def arp_tha_def arp_tpa_def ether_hdr_dst_def
        nth_append)
qed

section \<open>Eviction\<close>

lemma oldest_step_simps:
  "oldest_step c None (i, e) = (if ce_state e = Static then None else Some i)"
  "oldest_step c (Some j) (i, e) =
     (if ce_state e = Static \<or> ce_timestamp (c ! j) \<le> ce_timestamp e then Some j else Some i)"
  by (simp_all add: oldest_step_def)

lemma oldest_prefix:
  assumes "c = p @ q"
  shows "case foldl (oldest_step c) None (enumerate 0 p) of
      None \<Rightarrow> \<forall>j < length p. ce_state (c ! j) = Static
    | Some i \<Rightarrow> i < length p \<and> ce_state (c ! i) \<noteq> Static \<and>
        (\<forall>j < length p. ce_state (c ! j) \<noteq> Static \<longrightarrow> ce_timestamp (c ! i) \<le> ce_timestamp (c ! j))"
  using assms
proof (induction p arbitrary: q rule: rev_induct)
  case (snoc e p)
  let ?r = "foldl (oldest_step c) None (enumerate 0 p)"
  have e: "c ! length p = e" using snoc.prems by simp
  have step: "foldl (oldest_step c) None (enumerate 0 (p @ [e])) = oldest_step c ?r (length p, e)"
    by (simp add: enumerate_append_eq)
  from snoc.IH [of "e # q"] snoc.prems have IH: "case ?r of
      None \<Rightarrow> \<forall>j < length p. ce_state (c ! j) = Static
    | Some i \<Rightarrow> i < length p \<and> ce_state (c ! i) \<noteq> Static \<and>
        (\<forall>j < length p. ce_state (c ! j) \<noteq> Static \<longrightarrow> ce_timestamp (c ! i) \<le> ce_timestamp (c ! j))"
    by simp
  show ?case
  proof (cases ?r)
    case None
    with IH e show ?thesis unfolding step by (auto simp: oldest_step_simps less_Suc_eq)
  next
    case (Some i)
    with IH e show ?thesis unfolding step by (fastforce simp: oldest_step_simps less_Suc_eq)
  qed
qed simp

lemma oldest_Some:
  assumes "oldest c = Some i"
  shows "i < length c" "ce_state (c ! i) \<noteq> Static"
    "\<And>j. j < length c \<Longrightarrow> ce_state (c ! j) \<noteq> Static \<Longrightarrow> ce_timestamp (c ! i) \<le> ce_timestamp (c ! j)"
  using oldest_prefix [of c c "[]"] assms by (simp_all add: oldest_def)

lemma oldest_None: "oldest c = None \<Longrightarrow> j < length c \<Longrightarrow> ce_state (c ! j) = Static"
  using oldest_prefix [of c c "[]"] by (simp add: oldest_def)

section \<open>The cache as a table of neighbours\<close>

text \<open>
  No entry is static: the code has the state but never creates such an entry. Sizes are bounded
  and no address has two entries.
\<close>

definition cache_wf :: "cache_entry list \<Rightarrow> bool" where
  "cache_wf c \<longleftrightarrow> length c \<le> CACHE_SIZE \<and> distinct (map ce_pa c) \<and>
     (\<forall>e \<in> set c. ce_state e \<noteq> Static)"

lemma cache_find_None: "cache_find c pa = None \<longleftrightarrow> pa \<notin> ce_pa ` set c"
  by (induction c) auto

lemma cache_find_entry:
  "distinct (map ce_pa c) \<Longrightarrow> e \<in> set c \<Longrightarrow> cache_find c (ce_pa e) = Some (ce_state e, ce_ha e)"
  by (induction c) auto

lemma cache_find_SomeD:
  "cache_find c pa = Some v \<Longrightarrow> \<exists>e \<in> set c. ce_pa e = pa \<and> v = (ce_state e, ce_ha e)"
  by (induction c) (auto split: if_splits)

lemma cache_set_pa: "map ce_pa (cache_set pa ha t c) = map ce_pa c"
  by (induction c) auto

lemma cache_set_length [simp]: "length (cache_set pa ha t c) = length c"
  by (induction c) auto

lemma cache_set_state: "e \<in> set (cache_set pa ha t c) \<Longrightarrow> e \<in> set c \<or> ce_state e = Resolved"
  by (induction c) (auto split: if_splits)

lemma cache_set_wf: "cache_wf c \<Longrightarrow> cache_wf (cache_set pa ha t c)"
  using cache_set_state by (fastforce simp: cache_wf_def cache_set_pa)

lemma cache_find_set:
  "cache_find (cache_set pa ha t c) q =
     (if q = pa \<and> pa \<in> ce_pa ` set c then Some (Resolved, ha) else cache_find c q)"
  by (induction c) auto

lemma cache_put_cases:
  assumes "cache_wf c"
  shows "(length c < CACHE_SIZE \<and> cache_put e c = c @ [e]) \<or>
    (\<exists>i. oldest c = Some i \<and> i < length c \<and> length c = CACHE_SIZE \<and> cache_put e c = c[i := e])"
proof (cases "length c < CACHE_SIZE")
  case False
  with assms have len: "length c = CACHE_SIZE" by (simp add: cache_wf_def)
  then have "0 < length c" by (simp add: CACHE_SIZE_def)
  then have "oldest c \<noteq> None"
    using oldest_None [of c 0] assms by (auto simp: cache_wf_def)
  then obtain i where i: "oldest c = Some i" by auto
  with oldest_Some(1) [OF i] len False show ?thesis by (auto simp: cache_put_def)
qed (simp add: cache_put_def)

lemma cache_put_wf:
  assumes wf: "cache_wf c" and new: "ce_pa e \<notin> ce_pa ` set c" and dyn: "ce_state e \<noteq> Static"
  shows "cache_wf (cache_put e c)"
  using cache_put_cases [OF wf, of e]
proof (elim disjE exE conjE)
  fix i
  assume i: "i < length c" "length c = CACHE_SIZE" and put: "cache_put e c = c[i := e]"
  have "distinct (map ce_pa (c[i := e]))"
    using wf new by (auto simp: cache_wf_def map_update intro!: distinct_list_update)
  moreover have "\<forall>x \<in> set (c[i := e]). ce_state x \<noteq> Static"
    using wf dyn set_update_subset_insert [of c i e] by (auto simp: cache_wf_def)
  ultimately show ?thesis using i put by (simp add: cache_wf_def)
qed (use wf new dyn in \<open>auto simp: cache_wf_def\<close>)

lemma cache_put_find:
  assumes wf: "cache_wf c" and new: "ce_pa e \<notin> ce_pa ` set c" and dyn: "ce_state e \<noteq> Static"
  shows "cache_find (cache_put e c) (ce_pa e) = Some (ce_state e, ce_ha e)"
    and "q \<noteq> ce_pa e \<Longrightarrow> cache_find (cache_put e c) q \<in> {cache_find c q, None}"
proof -
  have dist: "distinct (map ce_pa (cache_put e c))"
    using cache_put_wf [OF assms] by (simp add: cache_wf_def)
  have mem: "e \<in> set (cache_put e c)"
    using cache_put_cases [OF wf, of e] by (auto simp: set_update_memI)
  show "cache_find (cache_put e c) (ce_pa e) = Some (ce_state e, ce_ha e)"
    by (rule cache_find_entry [OF dist mem])
  have sub: "set (cache_put e c) \<subseteq> insert e (set c)"
    using cache_put_cases [OF wf, of e] by (metis set_update_subset_insert
        list.simps(15) rotate1.simps(2) set_rotate1 order_refl)
  assume q: "q \<noteq> ce_pa e"
  show "cache_find (cache_put e c) q \<in> {cache_find c q, None}"
  proof (cases "cache_find (cache_put e c) q")
    case (Some v)
    then obtain x where "x \<in> set (cache_put e c)" "ce_pa x = q" "v = (ce_state x, ce_ha x)"
      using cache_find_SomeD by blast
    with sub q have "cache_find c q = Some v"
      using cache_find_entry [of c x] wf by (auto simp: cache_wf_def)
    with Some show ?thesis by simp
  qed simp
qed

text \<open>
  The interface address resolution offers to the IP layer: looking an address up, and learning
  the hardware address of a neighbour. Learning can forget another neighbour but never change it.
\<close>

locale neighbours =
  fixes lookup :: "'t \<Rightarrow> ip_addr \<Rightarrow> (cache_state \<times> ether_addr) option"
    and learn :: "ip_addr \<Rightarrow> ether_addr \<Rightarrow> 't \<Rightarrow> 't"
    and invar :: "'t \<Rightarrow> bool"
  assumes invar_learn: "invar t \<Longrightarrow> invar (learn pa ha t)"
    and lookup_learn: "invar t \<Longrightarrow> lookup (learn pa ha t) pa = Some (Resolved, ha)"
    and lookup_other: "invar t \<Longrightarrow> q \<noteq> pa \<Longrightarrow> lookup (learn pa ha t) q \<in> {lookup t q, None}"
begin

definition learn_all :: "(ip_addr \<times> ether_addr) list \<Rightarrow> 't \<Rightarrow> 't" where
  "learn_all ps t = fold (\<lambda>p. learn (fst p) (snd p)) ps t"

lemma invar_learn_all: "invar t \<Longrightarrow> invar (learn_all ps t)"
  by (induction ps arbitrary: t) (simp_all add: learn_all_def invar_learn)

lemma lookup_learn_all:
  assumes "invar t"
  shows "lookup (learn_all ps t) q \<in>
    {lookup t q, None} \<union> {Some (Resolved, ha) | ha. (q, ha) \<in> set ps}"
  using assms
proof (induction ps arbitrary: t)
  case (Cons p ps)
  let ?t = "learn (fst p) (snd p) t"
  have "lookup (learn_all ps ?t) q \<in> {lookup ?t q, None} \<union> {Some (Resolved, ha) | ha. (q, ha) \<in> set ps}"
    using Cons by (intro Cons.IH) (simp add: invar_learn)
  moreover have "lookup ?t q \<in> {lookup t q, None} \<union> {Some (Resolved, ha) | ha. (q, ha) \<in> set (p # ps)}"
    using lookup_other [OF Cons.prems, of q "fst p" "snd p"]
      lookup_learn [OF Cons.prems, of "fst p" "snd p"] by (cases "q = fst p") auto
  ultimately show ?case by (auto simp: learn_all_def)
qed (simp add: learn_all_def)

lemma last_learned_wins: "invar t \<Longrightarrow> lookup (learn_all (ps @ [(pa, ha)]) t) pa = Some (Resolved, ha)"
  using lookup_learn [OF invar_learn_all] by (simp add: learn_all_def)

end

text \<open>What \<open>arp_input\<close> does with the sender of a packet that is addressed to the stack.\<close>

definition arp_learn :: "ip_addr \<Rightarrow> ether_addr \<Rightarrow> arp_state \<Rightarrow> arp_state" where
  "arp_learn pa ha s =
     (case cache_update pa ha s of (merge, s1) \<Rightarrow> if merge then s1 else cache_insert pa ha Resolved s1)"

lemma arp_now_cache [simp]: "arp_cache (snd (arp_now s)) = arp_cache s"
  by (simp add: arp_now_def case_prod_beta Let_def)

lemma arp_now_link: "arp_link (snd (arp_now s)) = (arp_link s)\<lparr>lk_os := snd (now (lk_os (arp_link s)))\<rparr>"
  by (simp add: arp_now_def case_prod_beta Let_def)

lemma arp_learn_cache:
  "arp_cache (arp_learn pa ha s) =
     (let t = fst (arp_now s)
      in if pa \<in> ce_pa ` set (arp_cache s) then cache_set pa ha t (arp_cache s)
         else cache_put \<lparr>ce_state = Resolved, ce_pa = pa, ce_ha = ha, ce_timestamp = t\<rparr> (arp_cache s))"
  by (auto simp: arp_learn_def cache_update_def cache_insert_def case_prod_beta Let_def image_iff)

lemma arp_learn_wf: "cache_wf (arp_cache s) \<Longrightarrow> cache_wf (arp_cache (arp_learn pa ha s))"
  by (simp add: arp_learn_cache Let_def cache_set_wf cache_put_wf)

lemma arp_learn_select: "cache_wf (arp_cache s) \<Longrightarrow> cache_select pa (arp_learn pa ha s) = Some (Resolved, ha)"
  using cache_put_find(1) [of "arp_cache s" "\<lparr>ce_state = Resolved, ce_pa = pa, ce_ha = ha,
      ce_timestamp = fst (arp_now s)\<rparr>"]
  by (simp add: cache_select_def arp_learn_cache Let_def cache_find_set)

lemma arp_learn_other:
  "cache_wf (arp_cache s) \<Longrightarrow> q \<noteq> pa \<Longrightarrow> cache_select q (arp_learn pa ha s) \<in> {cache_select q s, None}"
  using cache_put_find(2) [of "arp_cache s" "\<lparr>ce_state = Resolved, ce_pa = pa, ce_ha = ha,
      ce_timestamp = fst (arp_now s)\<rparr>" q]
  by (simp add: cache_select_def arp_learn_cache Let_def cache_find_set)

interpretation nb: neighbours "\<lambda>s pa. cache_select pa s" arp_learn "\<lambda>s. cache_wf (arp_cache s)"
  by unfold_locales (rule arp_learn_wf arp_learn_select arp_learn_other; assumption)+

section \<open>Sending\<close>

lemma cache_update_extends: "link_extends (arp_link s) (arp_link (snd (cache_update pa ha s)))"
  by (auto simp: cache_update_def case_prod_beta Let_def arp_now_link)

lemma cache_insert_extends: "link_extends (arp_link s) (arp_link (cache_insert pa ha st s))"
  by (auto simp: cache_insert_def case_prod_beta Let_def arp_now_link)

lemma arp_output_extends: "link_extends (arp_link s) (arp_link (snd (arp_output i buf dst s)))"
  by (simp add: arp_output_def case_prod_beta device_output_extends)

lemma arp_request_extends: "link_extends (arp_link s) (arp_link (snd (arp_request iface tpa s)))"
  by (simp add: arp_request_def arp_output_extends split: option.splits)

lemma arp_resolve_extends: "link_extends (arp_link s) (arp_link (snd (arp_resolve iface pa s)))"
proof -
  let ?s = "cache_insert pa ETHER_ADDR_ANY Incomplete s"
  have "link_extends (arp_link s) (arp_link (snd (arp_request iface pa ?s)))"
    by (rule link_extends_trans [OF cache_insert_extends arp_request_extends])
  then show ?thesis
    by (auto simp: arp_resolve_def split: option.splits prod.splits result.splits cache_state.splits)
qed

interpretation arp_send: sender arp_link "\<lambda>(iface, pa). arp_resolve iface pa"
  by unfold_locales (auto simp: arp_resolve_extends)

lemma arp_input_extends: "link_extends (arp_link s) (arp_link (arp_input data i s))"
  by (auto simp: arp_input_def arp_reply_def case_prod_beta Let_def
      intro: cache_update_extends link_extends_trans [OF cache_update_extends cache_insert_extends]
        link_extends_trans [OF cache_update_extends arp_output_extends]
        link_extends_trans [OF link_extends_trans [OF cache_update_extends cache_insert_extends]
          arp_output_extends] split: option.splits)

section \<open>The invariant of the cache\<close>

lemma cache_insert_wf:
  assumes "cache_wf (arp_cache s)" and "cache_select pa s = None" and "st \<noteq> Static"
  shows "cache_wf (arp_cache (cache_insert pa ha st s))"
  using assms by (simp add: cache_insert_def case_prod_beta Let_def cache_put_wf cache_select_def
      cache_find_None)

lemma arp_request_cache [simp]: "arp_cache (snd (arp_request iface pa s)) = arp_cache s"
  by (simp add: arp_request_def arp_output_def case_prod_beta split: option.splits)

lemma arp_reply_cache [simp]: "arp_cache (snd (arp_reply dev tha tpa src s)) = arp_cache s"
  by (simp add: arp_reply_def arp_output_def case_prod_beta)

lemma cache_update_wf: "cache_wf (arp_cache s) \<Longrightarrow> cache_wf (arp_cache (snd (cache_update pa ha s)))"
  by (auto simp: cache_update_def case_prod_beta Let_def cache_set_wf)

lemma arp_resolve_wf: "cache_wf (arp_cache s) \<Longrightarrow> cache_wf (arp_cache (snd (arp_resolve iface pa s)))"
proof -
  let ?s = "cache_insert pa ETHER_ADDR_ANY Incomplete s"
  obtain r s' where req: "arp_request iface pa ?s = (r, s')" by (cases "arp_request iface pa ?s")
  assume wf: "cache_wf (arp_cache s)"
  then have "cache_select pa s = None \<Longrightarrow> cache_wf (arp_cache s')"
    using arp_request_cache [of iface pa ?s] by (simp add: req cache_insert_wf)
  with wf show ?thesis
    by (auto simp: arp_resolve_def req split: option.splits prod.splits result.splits cache_state.splits)
qed

text \<open>
  The packets \<open>arp_input\<close> acts on, and what it does with them: it learns the sender and, when the
  packet asks for the address of the stack, replies.
\<close>

definition arp_valid :: "bytes \<Rightarrow> bool" where
  "arp_valid data \<longleftrightarrow> ARP_ETHER_IP_SIZE \<le> length data \<and> arp_hrd data = ARP_HRD_ETHER \<and>
     arp_hln data = 6 \<and> arp_pro data = ARP_PRO_IP \<and> arp_pln data = 4"

lemma arp_input_invalid: "\<not> arp_valid data \<Longrightarrow> arp_input data i s = s"
  by (auto simp: arp_input_def arp_valid_def arp_hdr_new_def arp_ether_ip_new_def arp_consts Let_def
      split: option.splits)

lemma arp_input_valid:
  assumes "arp_valid data" and "by_index (arp_link s) i = Some dev"
    and "dev_get_iface FAMILY_IP dev = Some iface"
  shows "arp_input data i s =
    (if arp_tpa data = if_unicast iface
     then let s2 = arp_learn (arp_spa data) (arp_sha data) s
          in if arp_op data = ARP_OP_REQUEST
             then snd (arp_reply dev (arp_sha data) (arp_spa data) (if_unicast iface) s2) else s2
     else snd (cache_update (arp_spa data) (arp_sha data) s))"
  using assms
  by (simp add: arp_input_def arp_valid_def arp_hdr_new_def arp_ether_ip_new_def arp_consts Let_def
      arp_learn_def case_prod_beta)

lemma arp_input_wf:
  assumes "cache_wf (arp_cache s)"
  shows "cache_wf (arp_cache (arp_input data i s))"
proof (cases "arp_valid data")
  case True
  show ?thesis
  proof (cases "by_index (arp_link s) i")
    case (Some dev)
    then show ?thesis
    proof (cases "dev_get_iface FAMILY_IP dev")
      case None
      with True Some assms show ?thesis
        by (simp add: arp_input_def arp_valid_def arp_hdr_new_def arp_ether_ip_new_def arp_consts
            Let_def case_prod_beta cache_update_wf)
    next
      case (Some iface)
      with True \<open>by_index (arp_link s) i = Some dev\<close> assms show ?thesis
        by (simp add: arp_input_valid Let_def arp_learn_wf cache_update_wf)
    qed
  qed (simp add: arp_input_def assms)
qed (simp add: arp_input_invalid assms)

lemma cache_expire_filter: "cache_expire t c = filter (\<lambda>e. \<not> expired t e) c"
  by (induction c) auto

lemma arp_on_timer_wf: "cache_wf (arp_cache s) \<Longrightarrow> cache_wf (arp_cache (arp_on_timer s))"
  by (auto simp: arp_on_timer_def case_prod_beta Let_def cache_expire_filter cache_wf_def
      distinct_map_filter intro: order_trans [OF length_filter_le])

lemma arp_packets_valid:
  assumes "6 \<le> length my_addr"
  shows "arp_valid (arp_request_packet my_addr spa tpa)"
    "arp_op (arp_request_packet my_addr spa tpa) = ARP_OP_REQUEST"
    "arp_valid (arp_reply_packet my_addr spa tha tpa)"
    "arp_op (arp_reply_packet my_addr spa tha tpa) = ARP_OP_REPLY"
  using assms unfolding arp_packet_layout [OF assms]
  by (simp_all add: arp_valid_def arp_hrd_def arp_hln_def arp_pro_def arp_pln_def arp_op_def
      arp_consts u16_from_be_def)

end
