(* ===== verification/Checksum.thy ===== *)
theory Checksum
  imports Prelude
begin

text \<open>
  The Internet checksum \<open>cksum16\<close> of \<^verbatim>\<open>src/src/util.rs\<close>: the summing loop over 16-bit words in
  host order (little endian), the carry folding loop and the final complement, with the ones'
  complement specification it implements. The second half shows what every protocol of the
  stack relies on: storing the checksum of a buffer in its (zeroed) checksum field makes the
  receiver's verification succeed.
\<close>

section \<open>The routine\<close>

text \<open>The loop of lines 10 to 16: two bytes at a time, then a trailing byte if there is one.\<close>

fun cksum_sum :: "bytes \<Rightarrow> u32 \<Rightarrow> u32" where
  "cksum_sum (a # b # ds) acc = cksum_sum ds (acc + ucast (u16_from_ne a b))"
| "cksum_sum [a] acc = acc + ucast a"
| "cksum_sum [] acc = acc"

lemma unat_low16: "unat (w AND 0xffff :: u32) = unat w mod 65536"
proof -
  have "w AND 0xffff = take_bit 16 w"
    by (simp add: take_bit_eq_mask mask_eq_exp_minus_1)
  then show ?thesis by (simp add: take_bit_eq_mod unat_mod)
qed

lemma unat_high16: "unat (drop_bit 16 w :: u32) = unat w div 65536"
  by (simp add: drop_bit_eq_div unat_div)

lemma unat_carry_step:
  "unat ((w AND 0xffff) + drop_bit 16 w :: u32) = unat w mod 65536 + unat w div 65536"
proof -
  have "unat w mod 65536 + unat w div 65536 < 4294967296"
    using unat_u32_less [of w] by linarith
  then show ?thesis
    by (simp add: unat_word_ariths unat_low16 unat_high16)
qed

lemma high16_zero_iff: "drop_bit 16 w = (0 :: u32) \<longleftrightarrow> unat w < 65536"
  by (simp add: unat_high16 div_eq_0_iff flip: unat_eq_zero)

text \<open>The carry loop of lines 17 to 19.\<close>

function cksum_fold :: "u32 \<Rightarrow> u32" where
  "cksum_fold acc =
     (if drop_bit 16 acc \<noteq> 0 then cksum_fold ((acc AND 0xffff) + drop_bit 16 acc) else acc)"
  by pat_completeness auto
termination
proof (relation "measure unat")
  fix acc :: u32
  assume "drop_bit 16 acc \<noteq> 0"
  then have "65536 \<le> unat acc" by (simp add: high16_zero_iff)
  moreover have "unat acc = 65536 * (unat acc div 65536) + unat acc mod 65536" by simp
  moreover have "65536 \<le> unat acc \<Longrightarrow> 1 \<le> unat acc div 65536" by linarith
  ultimately have "unat acc mod 65536 + unat acc div 65536 < unat acc" by linarith
  then show "((acc AND 0xffff) + drop_bit 16 acc, acc) \<in> measure unat"
    by (simp add: unat_carry_step)
qed simp

declare cksum_fold.simps [simp del]

definition cksum16 :: "bytes \<Rightarrow> u32 \<Rightarrow> u16" where
  "cksum16 data init = NOT (ucast (cksum_fold (cksum_sum data init)))"

section \<open>Ones' complement specification\<close>

text \<open>
  The sum of the 16-bit words of a buffer, padded with a zero byte, as a natural number; and
  ones' complement reduction, which keeps a non-zero sum non-zero.
\<close>

fun word_sum :: "bytes \<Rightarrow> nat" where
  "word_sum (a # b # ds) = unat a + 256 * unat b + word_sum ds"
| "word_sum [a] = unat a"
| "word_sum [] = 0"

definition oc_reduce :: "nat \<Rightarrow> nat" where
  "oc_reduce n = (if n = 0 then 0 else Suc ((n - 1) mod 65535))"

lemma oc_reduce_le: "oc_reduce n \<le> 65535"
proof -
  have "(n - 1) mod 65535 < 65535" by (rule mod_less_divisor) simp
  then have "Suc ((n - 1) mod 65535) \<le> 65535" by (rule Suc_leI)
  then show ?thesis by (simp only: oc_reduce_def split: if_split) simp
qed

lemma oc_reduce_id: "n < 65536 \<Longrightarrow> oc_reduce n = n"
  by (cases n) (simp_all add: oc_reduce_def)

lemma oc_reduce_mod: "oc_reduce n mod 65535 = n mod 65535"
  by (cases n) (simp_all add: oc_reduce_def mod_Suc_eq)

lemma oc_reduce_0_iff: "oc_reduce n = 0 \<longleftrightarrow> n = 0"
  by (simp add: oc_reduce_def)

lemma oc_reduce_full_iff: "oc_reduce n = 65535 \<longleftrightarrow> n mod 65535 = 0 \<and> n \<noteq> 0"
proof
  assume "oc_reduce n = 65535"
  then show "n mod 65535 = 0 \<and> n \<noteq> 0"
    using oc_reduce_mod [of n] oc_reduce_0_iff [of n] by simp
next
  assume n: "n mod 65535 = 0 \<and> n \<noteq> 0"
  then have "oc_reduce n mod 65535 = 0" "oc_reduce n \<noteq> 0"
    by (simp_all add: oc_reduce_mod oc_reduce_0_iff)
  then have "\<not> oc_reduce n < 65535" by (metis mod_less)
  with oc_reduce_le [of n] show "oc_reduce n = 65535" by linarith
qed

lemma oc_reduce_cong:
  assumes "m mod 65535 = n mod 65535" and "m = 0 \<longleftrightarrow> n = 0"
  shows "oc_reduce m = oc_reduce n"
proof (cases "oc_reduce n = 65535")
  case True
  then have "oc_reduce m = 65535" using assms by (simp add: oc_reduce_full_iff)
  with True show ?thesis by simp
next
  case False
  then have "oc_reduce m \<noteq> 65535" using assms by (simp add: oc_reduce_full_iff)
  with False have "oc_reduce m < 65535" "oc_reduce n < 65535"
    using oc_reduce_le [of m] oc_reduce_le [of n] by linarith+
  then show ?thesis
    using oc_reduce_mod [of m] oc_reduce_mod [of n] assms(1) by (metis mod_less)
qed

section \<open>The routine meets the specification\<close>

lemma word_sum_le: "word_sum ds \<le> 65535 * ((length ds + 1) div 2)"
proof (induction ds rule: word_sum.induct)
  case (1 a b ds)
  have "unat a + 256 * unat b \<le> 65535"
    using unat_u8_less [of a] unat_u8_less [of b] by linarith
  with "1" show ?case by simp
next
  case (2 a)
  have "unat a \<le> 65535" using unat_u8_less [of a] by linarith
  then show ?case by simp
qed simp

lemma unat_ucast_u16 [byte_simps]: "unat (ucast (w :: u16) :: u32) = unat w"
proof -
  have "unat w < 4294967296" using unat_u16_less [of w] by linarith
  then show ?thesis by (simp add: unsigned_ucast_eq take_bit_eq_mod)
qed

lemma unat_ucast_u8 [byte_simps]: "unat (ucast (w :: u8) :: u32) = unat w"
proof -
  have "unat w < 4294967296" using unat_u8_less [of w] by linarith
  then show ?thesis by (simp add: unsigned_ucast_eq take_bit_eq_mod)
qed

lemma unat_cksum_sum:
  "unat init + word_sum ds < 4294967296 \<Longrightarrow> unat (cksum_sum ds init) = unat init + word_sum ds"
proof (induction ds init rule: cksum_sum.induct)
  case (1 a b ds acc)
  then have "unat (acc + ucast (u16_from_ne a b)) = unat acc + (unat a + 256 * unat b)"
    by (simp add: unat_word_ariths byte_simps)
  with "1" show ?case by simp
next
  case (2 a acc)
  then show ?case by (simp add: unat_word_ariths byte_simps)
qed simp

lemma unat_cksum_fold: "unat (cksum_fold acc) = oc_reduce (unat acc)"
proof (induction acc rule: cksum_fold.induct)
  case (1 acc)
  show ?case
  proof (cases "drop_bit 16 acc = 0")
    case True
    then show ?thesis
      by (simp add: cksum_fold.simps [of acc] high16_zero_iff oc_reduce_id)
  next
    case False
    have split: "unat acc = 65535 * (unat acc div 65536) + (unat acc mod 65536 + unat acc div 65536)"
      by simp
    have "unat acc mod 65535 = (unat acc mod 65536 + unat acc div 65536) mod 65535"
      by (subst split) (simp only: mod_mult_self4)
    moreover have "(unat acc mod 65536 + unat acc div 65536 = 0) = (unat acc = 0)"
      using split by linarith
    ultimately have "oc_reduce (unat acc mod 65536 + unat acc div 65536) = oc_reduce (unat acc)"
      by (metis oc_reduce_cong)
    with False "1" show ?thesis
      by (simp add: cksum_fold.simps [of acc] unat_carry_step)
  qed
qed

lemma unat_not_u16: "unat (NOT w :: u16) = 65535 - unat w"
proof -
  have "NOT w = - 1 - w" by (simp add: not_eq_complement)
  moreover have "unat (- 1 :: u16) = 65535" by (simp add: unsigned_minus_1_eq_mask mask_eq_exp_minus_1)
  moreover have "w \<le> - 1" by simp
  ultimately show ?thesis by (metis unat_sub)
qed

text \<open>A buffer and start value whose 32-bit sum cannot overflow, as for every packet.\<close>

definition sum_fits :: "bytes \<Rightarrow> u32 \<Rightarrow> bool" where
  "sum_fits data init \<longleftrightarrow> unat init + word_sum data < 4294967296"

lemma unat_cksum16:
  assumes "sum_fits data init"
  shows "unat (cksum16 data init) = 65535 - oc_reduce (unat init + word_sum data)"
proof -
  let ?f = "cksum_fold (cksum_sum data init)"
  have f: "unat ?f = oc_reduce (unat init + word_sum data)"
    using assms by (simp add: unat_cksum_fold unat_cksum_sum sum_fits_def)
  then have "unat ?f < 65536"
    using oc_reduce_le [of "unat init + word_sum data"] by linarith
  then have "unat (ucast ?f :: u16) = unat ?f"
    by (simp add: unsigned_ucast_eq take_bit_eq_mod)
  then show ?thesis by (simp add: cksum16_def unat_not_u16 f)
qed

lemma cksum16_zero_iff:
  assumes "sum_fits data init"
  shows "cksum16 data init = 0 \<longleftrightarrow>
    (unat init + word_sum data) mod 65535 = 0 \<and> unat init + word_sum data \<noteq> 0"
proof -
  have "cksum16 data init = 0 \<longleftrightarrow> oc_reduce (unat init + word_sum data) = 65535"
    using unat_cksum16 [OF assms] oc_reduce_le [of "unat init + word_sum data"]
    by (simp add: unat_eq_zero [symmetric])
  then show ?thesis by (simp add: oc_reduce_full_iff)
qed

lemma sum_fits_packet: "length data \<le> 131000 \<Longrightarrow> unat init \<le> 65535 \<Longrightarrow> sum_fits data init"
proof -
  assume len: "length data \<le> 131000" and init: "unat init \<le> 65535"
  then have "(length data + 1) div 2 \<le> 65500" by linarith
  then have "65535 * ((length data + 1) div 2) \<le> 65535 * 65500" by (rule mult_le_mono2)
  with word_sum_le [of data] init show ?thesis unfolding sum_fits_def by linarith
qed

section \<open>Splitting a buffer, storing a checksum\<close>

lemma word_sum_append: "even (length a) \<Longrightarrow> word_sum (a @ b) = word_sum a + word_sum b"
  by (induction a rule: word_sum.induct) simp_all

lemma word_sum_to_ne: "word_sum (u16_to_ne c) = unat c"
proof -
  have "unat c div 256 < 256" using unat_u16_less [of c] by linarith
  then show ?thesis by (simp add: u16_to_ne_def unat_of_nat_u8)
qed

text \<open>The start value the transport protocols derive from their pseudo header.\<close>

definition cksum_init :: "bytes \<Rightarrow> u32" where
  "cksum_init pseudo = ucast (NOT (cksum16 pseudo 0))"

lemma unat_cksum_init:
  assumes "sum_fits pseudo 0"
  shows "unat (cksum_init pseudo) = oc_reduce (word_sum pseudo)"
  using unat_cksum16 [OF assms] oc_reduce_le [of "word_sum pseudo"]
  by (simp add: cksum_init_def unat_ucast_u16 unat_not_u16)

lemma cksum_init_le: "unat (cksum_init pseudo) \<le> 65535"
  using unat_u16_less [of "NOT (cksum16 pseudo 0)"]
  unfolding cksum_init_def unat_ucast_u16 by linarith

lemma cksum_chain:
  assumes even: "even (length a)" and fits: "sum_fits (a @ b) 0"
  shows "cksum16 b (cksum_init a) = cksum16 (a @ b) 0"
proof -
  have sum: "word_sum (a @ b) = word_sum a + word_sum b"
    using even by (rule word_sum_append)
  have le: "oc_reduce (word_sum a) \<le> word_sum a"
    by (cases "word_sum a") (simp_all add: oc_reduce_def)
  have fits_a: "sum_fits a 0" and fits_b: "sum_fits b (cksum_init a)"
    using fits sum le by (simp_all add: sum_fits_def unat_cksum_init)
  have "(oc_reduce (word_sum a) + word_sum b) mod 65535 = (word_sum a + word_sum b) mod 65535"
    by (metis mod_add_left_eq oc_reduce_mod)
  then have "oc_reduce (oc_reduce (word_sum a) + word_sum b) = oc_reduce (word_sum a + word_sum b)"
    by (rule oc_reduce_cong) (simp add: oc_reduce_0_iff)
  then have "unat (cksum16 b (cksum_init a)) = unat (cksum16 (a @ b) 0)"
    using fits fits_a fits_b sum by (simp add: unat_cksum16 unat_cksum_init)
  then show ?thesis by (simp add: word_unat_eq_iff)
qed

text \<open>
  Storing: a checksum field at an even offset. The value may be the checksum itself or, as UDP
  does when the checksum is zero, its other ones' complement representation \<open>0xffff\<close>.
\<close>

lemma cksum_stored:
  assumes even: "even (length pre)" and fits: "sum_fits (pre @ u16_to_ne c @ post) init"
    and c: "c = cksum16 (pre @ [0, 0] @ post) init \<or>
      (cksum16 (pre @ [0, 0] @ post) init = 0 \<and> c = 0xffff)"
  shows "cksum16 (pre @ u16_to_ne c @ post) init = 0"
proof -
  let ?z = "unat init + word_sum (pre @ [0, 0] @ post)"
  let ?s = "unat init + word_sum (pre @ u16_to_ne c @ post)"
  have "word_sum (u16_to_ne c @ post) = unat c + word_sum post"
    by (simp add: word_sum_append word_sum_to_ne)
  with even have sums: "?z = unat init + word_sum pre + word_sum post" "?s = ?z + unat c"
    by (simp_all add: word_sum_append)
  then have fits_z: "sum_fits (pre @ [0, 0] @ post) init"
    using fits by (simp add: sum_fits_def)
  have split: "oc_reduce ?z + unat c = 65535 \<or> oc_reduce ?z + unat c = 131070"
    using c unat_cksum16 [OF fits_z] oc_reduce_le [of ?z]
    by (auto simp: unat_eq_zero [symmetric])
  have "?s mod 65535 = (oc_reduce ?z + unat c) mod 65535"
    unfolding sums(2) by (metis mod_add_left_eq oc_reduce_mod)
  moreover have "(oc_reduce ?z + unat c) mod 65535 = 0" using split by auto
  moreover have "?s \<noteq> 0"
    using split sums(2) oc_reduce_0_iff [of ?z] by (cases "?z = 0") auto
  ultimately show ?thesis using fits by (simp add: cksum16_zero_iff)
qed

end
