(* ===== verification/Ip.thy ===== *)
theory Ip
  imports Arp_Props Checksum
begin

text \<open>
  The IP protocol of \<^verbatim>\<open>src/src/ip.rs\<close>: header readers, protocol table, interfaces, routes, packet
  construction, output and the checks of the input handler. The handler functions of the
  transport protocols are constructors of \<open>ip_handler\<close>; \<open>ip_verdict\<close> is what \<open>input\<close> decides to
  do with a packet, and the dispatch itself is in the theory that composes the protocols.
\<close>

section \<open>Constants and state\<close>

definition IP_VERSION_IPV4 :: u8 where "IP_VERSION_IPV4 = 4"
definition IP_HDR_SIZE_MIN :: nat where "IP_HDR_SIZE_MIN = 20"
definition IP_HDR_FLAG_MF :: u16 where "IP_HDR_FLAG_MF = 0x2000"
definition IP_HDR_OFFSET_MASK :: u16 where "IP_HDR_OFFSET_MASK = 0x1fff"
definition IP_PROTOCOL_ICMP :: u8 where "IP_PROTOCOL_ICMP = 1"
definition IP_PROTOCOL_TCP :: u8 where "IP_PROTOCOL_TCP = 6"
definition IP_PROTOCOL_UDP :: u8 where "IP_PROTOCOL_UDP = 17"

lemmas ip_consts = IP_VERSION_IPV4_def IP_HDR_SIZE_MIN_def IP_HDR_FLAG_MF_def
  IP_HDR_OFFSET_MASK_def IP_PROTOCOL_ICMP_def IP_PROTOCOL_TCP_def IP_PROTOCOL_UDP_def

datatype ip_handler = IcmpInput | UdpInput | TcpInput

record ip_route =
  rt_network :: ip_addr
  rt_netmask :: ip_addr
  rt_nexthop :: ip_addr
  rt_iface :: ip_iface

record ip_state =
  ip_arp :: arp_state
  ip_protocols :: "(u8 \<times> ip_handler) list"
  ip_ifaces :: "ip_iface list"
  ip_routes :: "ip_route list"

abbreviation ip_link :: "ip_state \<Rightarrow> link" where
  "ip_link s \<equiv> arp_link (ip_arp s)"

definition ip_with_os :: "os \<Rightarrow> ip_state \<Rightarrow> ip_state" where
  "ip_with_os os' s = s\<lparr>ip_arp := (ip_arp s)\<lparr>arp_link := (ip_link s)\<lparr>lk_os := os'\<rparr>\<rparr>\<rparr>"

definition ip_now :: "ip_state \<Rightarrow> duration \<times> ip_state" where
  "ip_now s = (let (t, os') = now (lk_os (ip_link s)) in (t, ip_with_os os' s))"

definition ip_random32 :: "ip_state \<Rightarrow> u32 \<times> ip_state" where
  "ip_random32 s = (let (r, os') = random32 (lk_os (ip_link s)) in (r, ip_with_os os' s))"

definition ip_panic :: "ip_state \<Rightarrow> ip_state" where
  "ip_panic s = ip_with_os (panic (lk_os (ip_link s))) s"

definition ip_register_protocol :: "u8 \<Rightarrow> ip_handler \<Rightarrow> ip_state \<Rightarrow> unit result \<times> ip_state" where
  "ip_register_protocol p h s =
     (if \<exists>e \<in> set (ip_protocols s). fst e = p then (Err, s)
      else (Ok (), s\<lparr>ip_protocols := ip_protocols s @ [(p, h)]\<rparr>))"

section \<open>Header\<close>

definition ip_hdr_new :: "bytes \<Rightarrow> bytes option" where
  "ip_hdr_new data = (if length data < IP_HDR_SIZE_MIN then None else Some data)"

definition ip_version :: "bytes \<Rightarrow> u8" where "ip_version h = drop_bit 4 (h ! 0)"
definition ip_ihl :: "bytes \<Rightarrow> u8" where "ip_ihl h = (h ! 0) AND 0x0f"
definition ip_hlen :: "bytes \<Rightarrow> nat" where "ip_hlen h = unat (ip_ihl h) * 4"
definition ip_total :: "bytes \<Rightarrow> u16" where "ip_total h = u16_from_be (h ! 2) (h ! 3)"
definition ip_id :: "bytes \<Rightarrow> u16" where "ip_id h = u16_from_be (h ! 4) (h ! 5)"
definition ip_offset :: "bytes \<Rightarrow> u16" where "ip_offset h = u16_from_be (h ! 6) (h ! 7)"
definition ip_ttl :: "bytes \<Rightarrow> u8" where "ip_ttl h = h ! 8"
definition ip_protocol :: "bytes \<Rightarrow> u8" where "ip_protocol h = h ! 9"

definition ip_src :: "bytes \<Rightarrow> ip_addr" where
  "ip_src h = IpAddr (h ! 12) (h ! 13) (h ! 14) (h ! 15)"

definition ip_dst :: "bytes \<Rightarrow> ip_addr" where
  "ip_dst h = IpAddr (h ! 16) (h ! 17) (h ! 18) (h ! 19)"

definition ip_as_bytes :: "bytes \<Rightarrow> bytes" where
  "ip_as_bytes h = take (min (ip_hlen h) (length h)) h"

section \<open>Routes and interfaces\<close>

definition ip_route_add ::
  "ip_addr \<Rightarrow> ip_addr \<Rightarrow> ip_addr \<Rightarrow> ip_iface \<Rightarrow> ip_state \<Rightarrow> unit result \<times> ip_state" where
  "ip_route_add network netmask nexthop iface s =
     (Ok (), s\<lparr>ip_routes := ip_routes s @
        [\<lparr>rt_network = network, rt_netmask = netmask, rt_nexthop = nexthop, rt_iface = iface\<rparr>]\<rparr>)"

definition route_matches :: "ip_addr \<Rightarrow> ip_route \<Rightarrow> bool" where
  "route_matches dst r \<longleftrightarrow> ip_and dst (rt_netmask r) = rt_network r"

definition count_ones :: "u8 \<Rightarrow> nat" where
  "count_ones b = length (filter (bit b) [0..<8])"

definition route_prefix :: "ip_route \<Rightarrow> int" where
  "route_prefix r = sum_list (map (\<lambda>b. int (count_ones b)) (ip_bytes (rt_netmask r)))"

fun route_loop :: "ip_addr \<Rightarrow> ip_route list \<Rightarrow> ip_route option \<Rightarrow> int \<Rightarrow> ip_route option" where
  "route_loop dst [] best best_prefix = best"
| "route_loop dst (r # rs) best best_prefix =
     (if route_matches dst r \<and> route_prefix r > best_prefix
      then route_loop dst rs (Some r) (route_prefix r)
      else route_loop dst rs best best_prefix)"

definition route_lookup :: "ip_addr \<Rightarrow> ip_state \<Rightarrow> ip_route option" where
  "route_lookup dst s = route_loop dst (ip_routes s) None (- 1)"

definition set_default_gateway :: "ip_iface \<Rightarrow> ip_addr \<Rightarrow> ip_state \<Rightarrow> unit result \<times> ip_state" where
  "set_default_gateway iface gw s = ip_route_add ip_any ip_any gw iface s"

definition iface_select :: "ip_addr \<Rightarrow> ip_state \<Rightarrow> ip_iface option" where
  "iface_select a s = find (\<lambda>i. if_unicast i = a) (ip_ifaces s)"

definition ip_iface_register :: "nat \<Rightarrow> string \<Rightarrow> string \<Rightarrow> ip_state \<Rightarrow> ip_iface result \<times> ip_state" where
  "ip_iface_register i unicast_str netmask_str s =
     (case ip_from_str unicast_str of
        Err \<Rightarrow> (Err, s)
      | Ok unicast \<Rightarrow>
          (case ip_from_str netmask_str of
             Err \<Rightarrow> (Err, s)
           | Ok netmask \<Rightarrow>
               (case by_index (ip_link s) i of
                  None \<Rightarrow> (Err, s)
                | Some dev \<Rightarrow>
                    let iface = \<lparr>if_dev = i, if_unicast = unicast, if_netmask = netmask,
                                 if_broadcast = ip_or_not unicast netmask\<rparr>
                    in case dev_add_iface iface dev of
                         (Err, _) \<Rightarrow> (Err, s)
                       | (Ok _, dev') \<Rightarrow>
                           let l = (ip_link s)\<lparr>devices := (devices (ip_link s))[i := dev']\<rparr>;
                               s1 = s\<lparr>ip_arp := (ip_arp s)\<lparr>arp_link := l\<rparr>\<rparr>;
                               s2 = s1\<lparr>ip_ifaces := ip_ifaces s1 @ [iface]\<rparr>
                           in (Ok iface,
                               snd (ip_route_add (ip_and unicast netmask) netmask ip_any iface s2)))))"

section \<open>Output\<close>

definition build_packet ::
  "u8 \<Rightarrow> bytes \<Rightarrow> ip_addr \<Rightarrow> ip_addr \<Rightarrow> u16 \<Rightarrow> bytes result" where
  "build_packet protocol data src dst ident =
     (let total = IP_HDR_SIZE_MIN + length data
      in if total > 65535 then Err
         else let buf = replicate total 0;
                  buf = copy_at 0 [push_bit 4 IP_VERSION_IPV4 OR of_nat (IP_HDR_SIZE_MIN div 4)] buf;
                  buf = copy_at 1 [0] buf;
                  buf = copy_at 2 (u16_to_be (of_nat total)) buf;
                  buf = copy_at 4 (u16_to_be ident) buf;
                  buf = copy_at 6 (u16_to_be 0) buf;
                  buf = copy_at 8 [255] buf;
                  buf = copy_at 9 [protocol] buf;
                  buf = copy_at 12 (ip_bytes src) buf;
                  buf = copy_at 16 (ip_bytes dst) buf;
                  checksum = cksum16 (take IP_HDR_SIZE_MIN buf) 0;
                  buf = copy_at 10 (u16_to_ne checksum) buf
              in Ok (copy_at IP_HDR_SIZE_MIN data buf))"

definition ip_device_output :: "nat \<Rightarrow> bytes \<Rightarrow> bytes \<Rightarrow> ip_state \<Rightarrow> unit result \<times> ip_state" where
  "ip_device_output i buf hw s =
     (let (r, l) = device_output i PROTOCOL_TYPE_IP buf hw (ip_link s)
      in (r, s\<lparr>ip_arp := (ip_arp s)\<lparr>arp_link := l\<rparr>\<rparr>))"

text \<open>
  \<open>output_device\<close>. Slicing an address beyond its array panics; \<open>device_wf\<close> rules it out.
\<close>

definition output_device :: "ip_iface \<Rightarrow> bytes \<Rightarrow> ip_addr \<Rightarrow> ip_state \<Rightarrow> unit result \<times> ip_state" where
  "output_device iface buf target s =
     (case by_index (ip_link s) (if_dev iface) of
        None \<Rightarrow> (Err, s)
      | Some dev \<Rightarrow>
          let hw = replicate ADDR_LEN 0; alen = unat (dev_alen dev)
          in if dev_flags dev AND FLAG_NEED_ARP \<noteq> 0
             then if target = if_broadcast iface \<or> target = ip_broadcast
                  then if alen > ADDR_LEN then (Err, ip_panic s)
                       else ip_device_output (if_dev iface) buf
                              (copy_at 0 (take alen (dev_broadcast dev)) hw) s
                  else case arp_resolve iface target (ip_arp s) of
                    (Err, a) \<Rightarrow> (Err, s\<lparr>ip_arp := a\<rparr>)
                  | (Ok None, a) \<Rightarrow> (Ok (), s\<lparr>ip_arp := a\<rparr>)
                  | (Ok (Some mac), a) \<Rightarrow>
                      if alen > ETHER_ADDR_LEN then (Err, ip_panic (s\<lparr>ip_arp := a\<rparr>))
                      else ip_device_output (if_dev iface) buf
                             (copy_at 0 (take alen (ether_bytes mac)) hw) (s\<lparr>ip_arp := a\<rparr>)
             else ip_device_output (if_dev iface) buf hw s)"

definition ip_output :: "u8 \<Rightarrow> bytes \<Rightarrow> ip_addr \<Rightarrow> ip_addr \<Rightarrow> ip_state \<Rightarrow> unit result \<times> ip_state" where
  "ip_output protocol data src dst s =
     (if src = ip_any \<and> dst = ip_broadcast then (Err, s)
      else case route_lookup dst s of
        None \<Rightarrow> (Err, s)
      | Some route \<Rightarrow>
          let iface = rt_iface route;
              nexthop = (if rt_nexthop route \<noteq> ip_any then rt_nexthop route else dst)
          in if src \<noteq> ip_any \<and> src \<noteq> if_unicast iface then (Err, s)
             else case by_index (ip_link s) (if_dev iface) of
               None \<Rightarrow> (Err, s)
             | Some dev \<Rightarrow>
                 if unat (dev_mtu dev) < IP_HDR_SIZE_MIN + length data then (Err, s)
                 else let (r, s1) = ip_random32 s
                      in case build_packet protocol data (if_unicast iface) dst (ucast r) of
                           Err \<Rightarrow> (Err, s1)
                         | Ok buf \<Rightarrow> output_device iface buf nexthop s1)"

section \<open>Input\<close>

datatype ip_verdict =
    IpDrop
  | IpPanic
  | IpDeliver ip_handler bytes ip_iface
  | IpUnreach bytes ip_iface

definition ip_input_verdict :: "bytes \<Rightarrow> device \<Rightarrow> (u8 \<times> ip_handler) list \<Rightarrow> ip_verdict" where
  "ip_input_verdict data dev protocols =
     (case ip_hdr_new data of
        None \<Rightarrow> IpDrop
      | Some hdr \<Rightarrow>
          if ip_version hdr \<noteq> IP_VERSION_IPV4 then IpDrop
          else let hlen = ip_hlen hdr
               in if length data < hlen then IpDrop
                  else let total = unat (ip_total hdr)
                       in if length data < total then IpDrop
                          else if cksum16 (take hlen data) 0 \<noteq> 0 then IpDrop
                          else if ip_offset hdr AND IP_HDR_FLAG_MF \<noteq> 0 \<or>
                                  ip_offset hdr AND IP_HDR_OFFSET_MASK \<noteq> 0 then IpDrop
                          else case dev_get_iface FAMILY_IP dev of
                            None \<Rightarrow> IpDrop
                          | Some iface \<Rightarrow>
                              if ip_dst hdr \<noteq> if_unicast iface \<and> ip_dst hdr \<noteq> if_broadcast iface \<and>
                                 ip_dst hdr \<noteq> ip_broadcast then IpDrop
                              else if total < hlen then IpPanic
                              else case find (\<lambda>p. fst p = ip_protocol hdr) protocols of
                                Some (_, h) \<Rightarrow> IpDeliver h (slice hlen total data) iface
                              | None \<Rightarrow>
                                  IpUnreach (take (hlen + min 8 (total - hlen)) data) iface)"

end
