(* ===== verification/Icmp.thy ===== *)
theory Icmp
  imports Ip_Props
begin

text \<open>
  The ICMP protocol of \<^verbatim>\<open>src/src/icmp.rs\<close>: header readers, message construction, and the input
  handler, which answers echo requests. The proofs show that the message an echo request
  provokes is the echo reply with the same identifier, sequence number and payload, and that its
  checksum is the one a receiver accepts.
\<close>

section \<open>Messages\<close>

definition ICMP_HDR_SIZE :: nat where "ICMP_HDR_SIZE = 8"
definition ICMP_TYPE_ECHO_REPLY :: u8 where "ICMP_TYPE_ECHO_REPLY = 0"
definition ICMP_TYPE_DEST_UNREACH :: u8 where "ICMP_TYPE_DEST_UNREACH = 3"
definition ICMP_TYPE_ECHO :: u8 where "ICMP_TYPE_ECHO = 8"
definition ICMP_CODE_PROTO_UNREACH :: u8 where "ICMP_CODE_PROTO_UNREACH = 2"
definition ICMP_CODE_PORT_UNREACH :: u8 where "ICMP_CODE_PORT_UNREACH = 3"

lemmas icmp_consts = ICMP_HDR_SIZE_def ICMP_TYPE_ECHO_REPLY_def ICMP_TYPE_DEST_UNREACH_def
  ICMP_TYPE_ECHO_def ICMP_CODE_PROTO_UNREACH_def ICMP_CODE_PORT_UNREACH_def

definition icmp_new :: "bytes \<Rightarrow> bytes option" where
  "icmp_new data = (if length data < ICMP_HDR_SIZE then None else Some data)"

definition icmp_ty :: "bytes \<Rightarrow> u8" where "icmp_ty d = d ! 0"
definition icmp_code :: "bytes \<Rightarrow> u8" where "icmp_code d = d ! 1"
definition icmp_sum :: "bytes \<Rightarrow> u16" where "icmp_sum d = u16_from_be (d ! 2) (d ! 3)"
definition icmp_dep :: "bytes \<Rightarrow> u32" where "icmp_dep d = u32_from_be (d ! 4) (d ! 5) (d ! 6) (d ! 7)"
definition icmp_echo_id :: "bytes \<Rightarrow> u16" where "icmp_echo_id d = u16_from_be (d ! 4) (d ! 5)"
definition icmp_echo_seq :: "bytes \<Rightarrow> u16" where "icmp_echo_seq d = u16_from_be (d ! 6) (d ! 7)"

lemmas icmp_readers = icmp_ty_def icmp_code_def icmp_sum_def icmp_dep_def icmp_echo_id_def
  icmp_echo_seq_def

text \<open>The buffer \<open>output\<close> builds, and \<open>output\<close>.\<close>

definition icmp_message :: "u8 \<Rightarrow> u8 \<Rightarrow> u32 \<Rightarrow> bytes \<Rightarrow> bytes" where
  "icmp_message ty code values data =
     (let buf = replicate (ICMP_HDR_SIZE + length data) 0;
          buf = copy_at 0 [ty] buf;
          buf = copy_at 1 [code] buf;
          buf = copy_at 4 (u32_to_be values) buf;
          buf = copy_at ICMP_HDR_SIZE data buf
      in copy_at 2 (u16_to_ne (cksum16 buf 0)) buf)"

definition icmp_output ::
  "u8 \<Rightarrow> u8 \<Rightarrow> u32 \<Rightarrow> bytes \<Rightarrow> ip_addr \<Rightarrow> ip_addr \<Rightarrow> ip_state \<Rightarrow> unit result \<times> ip_state" where
  "icmp_output ty code values data src dst s =
     ip_output IP_PROTOCOL_ICMP (icmp_message ty code values data) src dst s"

definition icmp_input :: "bytes \<Rightarrow> bytes \<Rightarrow> ip_iface \<Rightarrow> ip_state \<Rightarrow> ip_state" where
  "icmp_input hdr data iface s =
     (if length data < ICMP_HDR_SIZE then s
      else if cksum16 data 0 \<noteq> 0 then s
      else if icmp_ty data = ICMP_TYPE_ECHO
      then snd (icmp_output ICMP_TYPE_ECHO_REPLY 0 (icmp_dep data) (drop ICMP_HDR_SIZE data)
                  (if_unicast iface) (ip_src hdr) s)
      else s)"

definition icmp_init :: "ip_state \<Rightarrow> unit result \<times> ip_state" where
  "icmp_init s = ip_register_protocol IP_PROTOCOL_ICMP IcmpInput s"

section \<open>Properties\<close>

lemma icmp_message_layout:
  "icmp_message ty code values data =
     [ty, code] @ u16_to_ne (cksum16 ([ty, code] @ [0, 0] @ u32_to_be values @ data) 0) @
     u32_to_be values @ data"
proof -
  have r: "replicate 3 (0 :: u8) = [0, 0, 0]" "replicate 2 (0 :: u8) = [0, 0]"
    by (simp_all add: numeral_3_eq_3 numeral_2_eq_2)
  have c: "copy_at 0 data (replicate (length data) 0) = data" by (simp add: copy_at_def)
  show ?thesis
    by (simp add: icmp_message_def icmp_consts layout_simps Let_def r c)
qed

lemma icmp_message_length: "length (icmp_message ty code values data) = 8 + length data"
  by (simp add: icmp_message_layout)

lemma icmp_message_fields:
  shows "icmp_ty (icmp_message ty code values data) = ty"
    and "icmp_code (icmp_message ty code values data) = code"
    and "icmp_dep (icmp_message ty code values data) = values"
    and "drop ICMP_HDR_SIZE (icmp_message ty code values data) = data"
  by (simp_all add: icmp_message_layout icmp_readers u16_to_ne_def u32_to_be_def icmp_consts
      byte_simps)

lemmas icmp_message_drop = icmp_message_fields(4) [unfolded ICMP_HDR_SIZE_def]

lemma icmp_message_sum:
  "length data \<le> 65535 \<Longrightarrow> cksum16 (icmp_message ty code values data) 0 = 0"
  unfolding icmp_message_layout by (intro cksum_stored sum_fits_packet) auto

lemma icmp_output_ip: "ip_extends s (snd (icmp_output ty c v d src dst s))"
  by (simp add: icmp_output_def ip_output_ip)

lemma icmp_input_ip: "ip_extends s (icmp_input hdr data iface s)"
  by (simp add: icmp_input_def icmp_output_ip)

lemma icmp_input_echo:
  assumes "length data \<le> 65535"
  shows "icmp_input hdr (icmp_message ICMP_TYPE_ECHO code values data) iface s =
    snd (icmp_output ICMP_TYPE_ECHO_REPLY 0 values data (if_unicast iface) (ip_src hdr) s)"
  using assms by (simp add: icmp_input_def icmp_message_fields icmp_message_sum icmp_message_length
      ICMP_HDR_SIZE_def icmp_message_drop)

lemma icmp_input_other:
  "length data < 8 \<or> cksum16 data 0 \<noteq> 0 \<or> icmp_ty data \<noteq> ICMP_TYPE_ECHO \<Longrightarrow>
     icmp_input hdr data iface s = s"
  by (auto simp: icmp_input_def icmp_consts)

end
