(* ===== verification/Task.thy ===== *)
theory Task
  imports Prelude
begin

text \<open>
  The blocking primitive of \<^verbatim>\<open>src/src/platform/linux/task.rs\<close>. A task is a generation counter, a
  sticky interrupt flag and a waiter count under one mutex. \<open>wait_after\<close> is split where the
  mutex is released: \<open>task_wait_enter\<close> is the part up to the condition variable, \<open>task_wait_poll\<close>
  is one evaluation of the \<open>wait_while\<close> predicate and, when it fails, the part after it.
  Tasks are shared (\<open>Arc<Task>\<close>): the stack keeps them in an arena and refers to them by index,
  so that a thread can still wait on the task of a released connection.
\<close>

section \<open>Operations\<close>

record task =
  generation :: u64
  interrupted :: bool
  wc :: u32

datatype wait_result = Notified | Interrupted

definition task_init :: task where
  "task_init = \<lparr>generation = 0, interrupted = False, wc = 0\<rparr>"

definition snapshot :: "task \<Rightarrow> u64" where
  "snapshot t = generation t"

definition notify :: "task \<Rightarrow> task" where
  "notify t = t\<lparr>generation := generation t + 1\<rparr>"

definition interrupt :: "task \<Rightarrow> task" where
  "interrupt t = (if \<not> interrupted t then t\<lparr>interrupted := True\<rparr> else t)"

definition task_clear :: "task \<Rightarrow> task" where
  "task_clear t = (if wc t = 0 then t\<lparr>interrupted := False\<rparr> else t)"

definition task_wait_enter :: "task \<Rightarrow> wait_result option \<times> task" where
  "task_wait_enter t =
     (if interrupted t then (Some Interrupted, task_clear t)
      else (None, t\<lparr>wc := wc t + 1\<rparr>))"

definition task_wait_poll :: "u64 \<Rightarrow> task \<Rightarrow> wait_result option \<times> task" where
  "task_wait_poll snap t =
     (if generation t = snap \<and> \<not> interrupted t then (None, t)
      else let t' = t\<lparr>wc := wc t - 1\<rparr>
           in if interrupted t' then (Some Interrupted, task_clear t') else (Some Notified, t'))"

text \<open>
  The arena. \<open>new_task\<close> appends; the \<open>TASKS\<close> registry holds weak references to the tasks that
  are alive, and interrupting a task nobody holds has no effect, so \<open>task_isr\<close> interrupts all.
\<close>

type_synonym tasks = "task list"

definition new_task :: "tasks \<Rightarrow> nat \<times> tasks" where
  "new_task ts = (length ts, ts @ [task_init])"

definition task_notify :: "nat \<Rightarrow> tasks \<Rightarrow> tasks" where
  "task_notify i ts = (if i < length ts then ts[i := notify (ts ! i)] else ts)"

definition task_isr :: "tasks \<Rightarrow> tasks" where
  "task_isr ts = map interrupt ts"

definition task_snapshot :: "nat \<Rightarrow> tasks \<Rightarrow> u64" where
  "task_snapshot i ts = (if i < length ts then snapshot (ts ! i) else 0)"

lemma length_task_notify [simp]: "length (task_notify t ts) = length ts"
  by (simp add: task_notify_def)

section \<open>Threads waiting on one task\<close>

text \<open>
  A task together with the snapshots of the threads that are inside \<open>wait_while\<close>. The number
  of threads of the process stays below the range of the 32-bit waiter count.
\<close>

type_synonym waiting = "task \<times> u64 list"

inductive task_step :: "waiting \<Rightarrow> waiting \<Rightarrow> bool" where
  enter_sleep: "task_wait_enter t = (None, t') \<Longrightarrow> Suc (length ws) < 2 ^ 32 \<Longrightarrow>
     task_step (t, ws) (t', snap # ws)"
| enter_return: "task_wait_enter t = (Some r, t') \<Longrightarrow> task_step (t, ws) (t', ws)"
| poll_sleep: "task_wait_poll snap t = (None, t') \<Longrightarrow> snap \<in> set ws \<Longrightarrow>
     task_step (t, ws) (t', ws)"
| poll_return: "task_wait_poll snap t = (Some r, t') \<Longrightarrow> snap \<in> set ws \<Longrightarrow>
     task_step (t, ws) (t', remove1 snap ws)"
| step_notify: "task_step (t, ws) (notify t, ws)"
| step_interrupt: "task_step (t, ws) (interrupt t, ws)"

inductive task_reach :: "waiting \<Rightarrow> bool" where
  task_start: "task_reach (task_init, [])"
| task_next: "task_reach w \<Longrightarrow> task_step w w' \<Longrightarrow> task_reach w'"

lemmas task_defs = task_wait_enter_def task_wait_poll_def task_clear_def notify_def interrupt_def
  snapshot_def

lemma wc_dec: "0 < unat (w :: u32) \<Longrightarrow> unat (w - 1) = unat w - 1"
  by (metis One_nat_def unat_gt_0 unat_minus_one)

lemma wc_inc: "Suc (unat (w :: u32)) < 2 ^ 32 \<Longrightarrow> unat (w + 1) = Suc (unat w)"
  by (simp add: unat_word_ariths)

definition waiters_counted :: "waiting \<Rightarrow> bool" where
  "waiters_counted w \<longleftrightarrow> unat (wc (fst w)) = length (snd w)"

lemma task_step_counted: "task_step w w' \<Longrightarrow> waiters_counted w \<Longrightarrow> waiters_counted w'"
proof (induction rule: task_step.induct)
  case (enter_sleep t t' ws snap)
  then show ?case
    by (auto simp: task_defs waiters_counted_def wc_inc split: if_splits)
next
  case (poll_return snap t r t' ws)
  then have "0 < length ws" by (cases ws) auto
  with poll_return show ?case
    by (auto simp: task_defs waiters_counted_def wc_dec length_remove1 Let_def split: if_splits)
qed (auto simp: task_defs waiters_counted_def Let_def split: if_splits)

lemma task_reach_counted: "task_reach w \<Longrightarrow> waiters_counted w"
proof (induction rule: task_reach.induct)
  case task_start
  show ?case by (simp add: waiters_counted_def task_init_def)
next
  case (task_next w w')
  then show ?case by (blast intro: task_step_counted)
qed

section \<open>Wake-ups are not lost\<close>

datatype task_event = TEnter | TPoll u64 | TNotify | TInterrupt

fun task_apply :: "task_event \<Rightarrow> task \<Rightarrow> task" where
  "task_apply TEnter t = snd (task_wait_enter t)"
| "task_apply (TPoll snap) t = snd (task_wait_poll snap t)"
| "task_apply TNotify t = notify t"
| "task_apply TInterrupt t = interrupt t"

lemma generation_apply:
  "generation (task_apply e t) = generation t + (if e = TNotify then 1 else 0)"
  by (cases e) (simp_all add: task_defs Let_def)

lemma generation_run:
  "generation (fold task_apply es t) = generation t + of_nat (count_list es TNotify)"
  by (induction es arbitrary: t) (simp_all add: generation_apply)

lemma no_lost_wakeup:
  assumes "0 < count_list es TNotify" and "count_list es TNotify < 2 ^ 64"
  shows "fst (task_wait_poll (snapshot t) (fold task_apply es t)) \<noteq> None"
proof -
  have "(of_nat (count_list es TNotify) :: u64) \<noteq> 0"
    using assms nat_dvd_not_less [of "count_list es TNotify" "2 ^ 64"]
    by (simp add: word_of_nat_eq_0_iff)
  then have "generation (fold task_apply es t) \<noteq> snapshot t"
    by (simp add: generation_run snapshot_def)
  then show ?thesis by (simp add: task_wait_poll_def Let_def)
qed

section \<open>An interrupt reaches every waiter\<close>

fun poll_all :: "u64 list \<Rightarrow> task \<Rightarrow> wait_result option list \<times> task" where
  "poll_all [] t = ([], t)"
| "poll_all (s # ss) t =
     (let (r, t') = task_wait_poll s t; (rs, t'') = poll_all ss t' in (r # rs, t''))"

lemma poll_all_interrupted:
  assumes "interrupted t" and "unat (wc t) = length ss" and "ss \<noteq> []"
  shows "fst (poll_all ss t) = replicate (length ss) (Some Interrupted) \<and>
    \<not> interrupted (snd (poll_all ss t)) \<and> wc (snd (poll_all ss t)) = 0"
  using assms
proof (induction ss arbitrary: t)
  case (Cons s ss)
  let ?t = "snd (task_wait_poll s t)"
  have wc': "unat (wc ?t) = length ss"
    using Cons.prems by (auto simp: task_defs Let_def wc_dec)
  have poll: "fst (task_wait_poll s t) = Some Interrupted"
    using Cons.prems(1) by (simp add: task_defs Let_def)
  show ?case
  proof (cases "ss = []")
    case True
    with wc' have "wc ?t = 0" by (simp add: unat_eq_zero)
    moreover from this have "\<not> interrupted ?t"
      using Cons.prems(1) by (auto simp: task_defs Let_def split: if_splits)
    ultimately show ?thesis using True poll by (simp add: case_prod_beta)
  next
    case False
    with wc' have "wc ?t \<noteq> 0" by auto
    then have "interrupted ?t"
      using Cons.prems(1) by (auto simp: task_defs Let_def split: if_splits)
    with Cons.IH [of ?t] wc' False poll show ?thesis by (simp add: case_prod_beta Let_def)
  qed
qed simp

end
