(* ===== verification/Transport.thy ===== *)
theory Transport
  imports Icmp Task
begin

text \<open>
  What the transport protocols and the socket layer share: the state below them (the IP layer and
  the arena of tasks), the outcome of one pass through a blocking loop, tables of optional slots
  with their allocation contract, the search for a dynamic port and the pseudo header of the
  checksums.
\<close>

section \<open>State below the transport protocols\<close>

record host =
  host_ip :: ip_state
  host_tasks :: tasks

abbreviation host_link :: "host \<Rightarrow> link" where
  "host_link h \<equiv> ip_link (host_ip h)"

definition host_ip_output ::
  "u8 \<Rightarrow> bytes \<Rightarrow> ip_addr \<Rightarrow> ip_addr \<Rightarrow> host \<Rightarrow> unit result \<times> host" where
  "host_ip_output protocol data src dst h =
     (let (r, i) = ip_output protocol data src dst (host_ip h) in (r, h\<lparr>host_ip := i\<rparr>))"

definition host_new_task :: "host \<Rightarrow> nat \<times> host" where
  "host_new_task h = (let (i, ts) = new_task (host_tasks h) in (i, h\<lparr>host_tasks := ts\<rparr>))"

definition host_notify :: "nat \<Rightarrow> host \<Rightarrow> host" where
  "host_notify t h = h\<lparr>host_tasks := task_notify t (host_tasks h)\<rparr>"

definition host_panic :: "host \<Rightarrow> host" where
  "host_panic h = h\<lparr>host_ip := ip_panic (host_ip h)\<rparr>"

lemma host_ip_output_tasks [simp]:
  "host_tasks (snd (host_ip_output protocol data src dst h)) = host_tasks h"
  by (simp add: host_ip_output_def case_prod_beta)

lemma host_notify_ip [simp]: "host_ip (host_notify t h) = host_ip h"
  by (simp add: host_notify_def)

lemma host_panic_tasks [simp]: "host_tasks (host_panic h) = host_tasks h"
  by (simp add: host_panic_def)

lemma host_new_task_simps [simp]:
  "fst (host_new_task h) = length (host_tasks h)"
  "host_ip (snd (host_new_task h)) = host_ip h"
  "host_tasks (snd (host_new_task h)) = host_tasks h @ [task_init]"
  by (simp_all add: host_new_task_def new_task_def)

section \<open>Blocking operations\<close>

text \<open>
  A blocking call is a loop: one pass under the lock either returns or hands out a task with a
  snapshot of its generation, and the caller waits on it with \<open>wait_after\<close>. While it waits, other
  threads change the state. \<open>blocking\<close> runs the loop on a list of wake-ups, each with the result
  of the wait and the state the next pass finds; \<open>on_intr\<close> is the code after an interrupted wait.
  The value \<open>None\<close> means that the call still waits after the last wake-up.
\<close>

datatype 'r pass = Return 'r | WaitOn nat u64

fun blocking ::
  "('s \<Rightarrow> 'r pass \<times> 's) \<Rightarrow> ('s \<Rightarrow> 'r \<times> 's) \<Rightarrow> (wait_result \<times> 's) list \<Rightarrow> 's \<Rightarrow> ('r \<times> 's) option" where
  "blocking body on_intr wakes s =
     (case body s of
        (Return r, s') \<Rightarrow> Some (r, s')
      | (WaitOn t snap, s') \<Rightarrow>
          (case wakes of
             [] \<Rightarrow> None
           | (Interrupted, s'') # ws \<Rightarrow> Some (on_intr s'')
           | (Notified, s'') # ws \<Rightarrow> blocking body on_intr ws s''))"

declare blocking.simps [simp del]

lemma blocking_returns:
  "body s = (Return r, s') \<Longrightarrow> blocking body on_intr wakes s = Some (r, s')"
  by (simp add: blocking.simps)

lemma blocking_wait:
  "body s = (WaitOn t snap, s') \<Longrightarrow>
     blocking body on_intr ((w, s'') # ws) s =
       (if w = Notified then blocking body on_intr ws s'' else Some (on_intr s''))"
  by (cases w) (simp_all add: blocking.simps [of _ _ _ s])

section \<open>Slot tables\<close>

text \<open>
  The interface of the allocation functions of the UDP, TCP and socket tables: the lowest free
  slot, else a new slot while the table is below its capacity, else failure.
\<close>

locale slot_alloc =
  fixes slots :: "'s \<Rightarrow> 'a option list"
    and fresh :: "'s \<Rightarrow> 'a"
    and alloc :: "'s \<Rightarrow> nat option \<times> 's"
    and room :: "'s \<Rightarrow> bool"
  assumes alloc_reuse: "first_free (slots s) = Some i \<Longrightarrow>
      fst (alloc s) = Some i \<and> slots (snd (alloc s)) = (slots s)[i := Some (fresh s)]"
    and alloc_grow: "first_free (slots s) = None \<Longrightarrow> room s \<Longrightarrow>
      fst (alloc s) = Some (length (slots s)) \<and> slots (snd (alloc s)) = slots s @ [Some (fresh s)]"
    and alloc_full: "first_free (slots s) = None \<Longrightarrow> \<not> room s \<Longrightarrow> alloc s = (None, s)"
begin

lemma alloc_cases:
  obtains (reuse) i where "first_free (slots s) = Some i" "fst (alloc s) = Some i"
      "slots (snd (alloc s)) = (slots s)[i := Some (fresh s)]"
  | (grow) "first_free (slots s) = None" "room s"
      "fst (alloc s) = Some (length (slots s))" "slots (snd (alloc s)) = slots s @ [Some (fresh s)]"
  | (full) "first_free (slots s) = None" "\<not> room s" "alloc s = (None, s)"
  using alloc_reuse alloc_grow alloc_full by (meson option.exhaust)

lemma alloc_slot:
  assumes "fst (alloc s) = Some d"
  shows "slot_get (slots s) d = None"
    and "slot_get (slots (snd (alloc s))) e = (if e = d then Some (fresh s) else slot_get (slots s) e)"
  using assms
  by (cases s rule: alloc_cases;
      auto simp: slot_get_append slot_get_def nth_append dest: first_free_Some)+

lemma alloc_in_range: "fst (alloc s) = Some d \<Longrightarrow> d < length (slots (snd (alloc s)))"
  using alloc_slot(2) [of s d d] by (simp add: slot_get_def split: if_splits)

lemma alloc_lowest:
  assumes "fst (alloc s) = Some d" and "e < d"
  shows "slot_get (slots s) e \<noteq> None"
proof (cases s rule: alloc_cases)
  case (reuse i)
  with assms first_free_Some [OF reuse(1)] show ?thesis by (auto simp: slot_get_def)
next
  case grow
  with assms show ?thesis by (auto simp: slot_get_def first_free_None)
next
  case full
  with assms show ?thesis by simp
qed

end

text \<open>A table with a capacity.\<close>

locale slot_table = slot_alloc slots fresh alloc "\<lambda>s. length (slots s) < cap"
  for slots :: "'s \<Rightarrow> 'a option list" and fresh alloc and cap :: nat
begin

lemma alloc_bounded: "length (slots s) \<le> cap \<Longrightarrow> length (slots (snd (alloc s))) \<le> cap"
  by (cases s rule: alloc_cases) auto

lemma alloc_fails_iff:
  assumes "length (slots s) \<le> cap"
  shows "fst (alloc s) = None \<longleftrightarrow> (\<forall>i < cap. slot_get (slots s) i \<noteq> None)"
proof (cases s rule: alloc_cases)
  case (reuse i)
  with first_free_Some [OF reuse(1)] assms show ?thesis by (auto simp: slot_get_def)
next
  case grow
  then show ?thesis by (auto simp: slot_get_def)
next
  case full
  then show ?thesis using assms by (auto simp: slot_get_def first_free_None)
qed

end

text \<open>\<open>iter().enumerate().find_map\<close> over a table: the first slot whose entry satisfies a test.\<close>

fun slot_find :: "('a \<Rightarrow> bool) \<Rightarrow> 'a option list \<Rightarrow> nat option" where
  "slot_find P [] = None"
| "slot_find P (None # t) = map_option Suc (slot_find P t)"
| "slot_find P (Some x # t) = (if P x then Some 0 else map_option Suc (slot_find P t))"

lemma slot_find_Some:
  "slot_find P t = Some i \<Longrightarrow>
     (\<exists>x. slot_get t i = Some x \<and> P x) \<and> (\<forall>j < i. \<forall>x. slot_get t j = Some x \<longrightarrow> \<not> P x)"
proof (induction P t arbitrary: i rule: slot_find.induct)
  case (2 P t)
  then show ?case by (auto simp: less_Suc_eq_0_disj)
next
  case (3 P x t)
  then show ?case by (auto simp: less_Suc_eq_0_disj split: if_splits)
qed simp

lemma slot_find_None: "slot_find P t = None \<longleftrightarrow> (\<forall>i x. slot_get t i = Some x \<longrightarrow> \<not> P x)"
  by (induction P t rule: slot_find.induct) (simp_all add: slot_get_Cons_all)

section \<open>Dynamic ports\<close>

definition DYNAMIC_PORT_MIN :: nat where "DYNAMIC_PORT_MIN = 49152"
definition DYNAMIC_PORT_MAX :: nat where "DYNAMIC_PORT_MAX = 65535"

text \<open>\<open>for port in p..=DYNAMIC_PORT_MAX\<close>: the first port that is not in use.\<close>

function port_scan :: "(u16 \<Rightarrow> bool) \<Rightarrow> nat \<Rightarrow> u16 option" where
  "port_scan used p =
     (if p > DYNAMIC_PORT_MAX then None
      else if \<not> used (of_nat p) then Some (of_nat p)
      else port_scan used (Suc p))"
  by pat_completeness auto
termination by (relation "measure (\<lambda>(_, p). Suc DYNAMIC_PORT_MAX - p)") auto

declare port_scan.simps [simp del]

lemma port_scan_free: "port_scan used p = Some q \<Longrightarrow> \<not> used q \<and> p \<le> unat q"
proof (induction used p rule: port_scan.induct)
  case (1 used p)
  show ?case
  proof (cases "used (of_nat p)")
    case True
    with "1" show ?thesis by (auto simp: port_scan.simps [of used p] split: if_splits)
  next
    case False
    with "1.prems" show ?thesis
      by (auto simp: port_scan.simps [of used p] DYNAMIC_PORT_MAX_def unat_of_nat_u16 split: if_splits)
  qed
qed

lemma port_scan_None:
  "port_scan used p = None \<Longrightarrow> p \<le> q \<Longrightarrow> q \<le> DYNAMIC_PORT_MAX \<Longrightarrow> used (of_nat q)"
proof (induction used p rule: port_scan.induct)
  case (1 used p)
  then show ?case
    by (cases "p = q") (subst (asm) port_scan.simps [of used p], auto split: if_splits)+
qed

text \<open>Fewer ports in use than there are dynamic ports: the search succeeds.\<close>

lemma port_scan_succeeds:
  assumes "finite {q. used q}" and "card {q. used q} < 16384"
  shows "\<exists>q. port_scan used DYNAMIC_PORT_MIN = Some q"
proof (rule ccontr)
  assume "\<not> ?thesis"
  then have "port_scan used DYNAMIC_PORT_MIN = None" by (cases "port_scan used DYNAMIC_PORT_MIN") auto
  then have used: "of_nat ` {49152..65535} \<subseteq> {q. used q}"
    using port_scan_None [of used DYNAMIC_PORT_MIN]
    by (auto simp: DYNAMIC_PORT_MIN_def DYNAMIC_PORT_MAX_def)
  have "inj_on (of_nat :: nat \<Rightarrow> u16) {49152..65535}"
    by (rule inj_on_inverseI [where g = unat]) (simp add: unat_of_nat_u16)
  then have "card ((of_nat :: nat \<Rightarrow> u16) ` {49152..65535}) = 16384" by (simp add: card_image)
  with card_mono [OF assms(1) used] assms(2) show False by simp
qed

section \<open>Pseudo header\<close>

text \<open>\<open>build_pseudo_header\<close>, which the UDP and TCP modules define alike up to the protocol.\<close>

definition build_pseudo_header :: "u8 \<Rightarrow> ip_addr \<Rightarrow> ip_addr \<Rightarrow> u16 \<Rightarrow> bytes" where
  "build_pseudo_header protocol src dst len =
     (let buf = replicate 12 0;
          buf = copy_at 0 (ip_bytes src) buf;
          buf = copy_at 4 (ip_bytes dst) buf;
          buf = copy_at 9 [protocol] buf
      in copy_at 10 (u16_to_be len) buf)"

lemma build_pseudo_header_layout:
  "build_pseudo_header protocol src dst len =
     ip_bytes src @ ip_bytes dst @ [0, protocol] @ u16_to_be len"
  by (simp add: build_pseudo_header_def layout_simps Let_def)

end
