(* ===== verification/Udp.thy ===== *)
theory Udp
  imports Transport
begin

text \<open>
  The UDP protocol of \<^verbatim>\<open>src/src/udp.rs\<close>: the table of protocol control blocks, datagram
  construction, the input handler and the calls of the socket layer. \<open>recvfrom_pass\<close> is one pass
  of the loop of \<open>recvfrom\<close> under the lock.
\<close>

section \<open>State\<close>

definition UDP_HDR_SIZE :: nat where "UDP_HDR_SIZE = 8"
definition UDP_PCB_SIZE_MAX :: nat where "UDP_PCB_SIZE_MAX = 16"

datatype recv_error = NotBound | RecvInterrupted

record udp_queue_entry =
  uq_remote :: ip_endp
  uq_data :: bytes

record udp_pcb =
  u_local :: ip_endp
  u_queue :: "udp_queue_entry list"
  u_task :: nat

record udp_state =
  udp_host :: host
  udp_pcbs :: "udp_pcb option list"

text \<open>\<open>UdpPcb::empty\<close> with the task it creates.\<close>

definition udp_pcb_empty :: "nat \<Rightarrow> udp_pcb" where
  "udp_pcb_empty t = \<lparr>u_local = ip_endp_new ip_any 0, u_queue = [], u_task = t\<rparr>"

definition udp_pcb_alloc :: "udp_state \<Rightarrow> nat option \<times> udp_state" where
  "udp_pcb_alloc s =
     (case first_free (udp_pcbs s) of
        Some i \<Rightarrow>
          let (t, h) = host_new_task (udp_host s)
          in (Some i, s\<lparr>udp_host := h, udp_pcbs := (udp_pcbs s)[i := Some (udp_pcb_empty t)]\<rparr>)
      | None \<Rightarrow>
          if length (udp_pcbs s) \<ge> UDP_PCB_SIZE_MAX then (None, s)
          else let (t, h) = host_new_task (udp_host s)
               in (Some (length (udp_pcbs s)),
                   s\<lparr>udp_host := h, udp_pcbs := udp_pcbs s @ [Some (udp_pcb_empty t)]\<rparr>))"

definition udp_pcb_get :: "nat \<Rightarrow> udp_state \<Rightarrow> udp_pcb option" where
  "udp_pcb_get desc s = slot_get (udp_pcbs s) desc"

definition udp_pcb_put :: "nat \<Rightarrow> udp_pcb \<Rightarrow> udp_state \<Rightarrow> udp_state" where
  "udp_pcb_put desc p s = s\<lparr>udp_pcbs := (udp_pcbs s)[desc := Some p]\<rparr>"

definition udp_pcb_release :: "nat \<Rightarrow> udp_state \<Rightarrow> unit result \<times> udp_state" where
  "udp_pcb_release desc s =
     (case udp_pcb_get desc s of
        None \<Rightarrow> (Err, s)
      | Some p \<Rightarrow>
          (Ok (), s\<lparr>udp_pcbs := (udp_pcbs s)[desc := None],
                    udp_host := host_notify (u_task p) (udp_host s)\<rparr>))"

definition udp_match :: "ip_endp \<Rightarrow> udp_pcb \<Rightarrow> bool" where
  "udp_match key p \<longleftrightarrow> port (u_local p) = port key \<and>
     (addr (u_local p) = addr key \<or> addr (u_local p) = ip_any \<or> addr key = ip_any)"

definition udp_pcb_select :: "ip_endp \<Rightarrow> udp_state \<Rightarrow> nat option" where
  "udp_pcb_select key s = slot_find (udp_match key) (udp_pcbs s)"

section \<open>Calls\<close>

definition udp_open :: "udp_state \<Rightarrow> nat option \<times> udp_state" where
  "udp_open s = udp_pcb_alloc s"

definition udp_close :: "nat \<Rightarrow> udp_state \<Rightarrow> unit result \<times> udp_state" where
  "udp_close desc s = udp_pcb_release desc s"

definition udp_bind :: "nat \<Rightarrow> ip_endp \<Rightarrow> udp_state \<Rightarrow> unit result \<times> udp_state" where
  "udp_bind desc loc s =
     (case udp_pcb_get desc s of
        None \<Rightarrow> (Err, s)
      | Some p \<Rightarrow>
          if udp_pcb_select loc s \<noteq> None then (Err, s)
          else (Ok (), udp_pcb_put desc (p\<lparr>u_local := loc\<rparr>) s))"

definition recvfrom_pass ::
  "nat \<Rightarrow> nat \<Rightarrow> udp_state \<Rightarrow> (recv_error + ip_endp \<times> bytes) pass \<times> udp_state" where
  "recvfrom_pass desc buf_len s =
     (case udp_pcb_get desc s of
        None \<Rightarrow> (Return (Inl NotBound), s)
      | Some p \<Rightarrow>
          (case u_queue p of
             entry # q \<Rightarrow>
               (Return (Inr (uq_remote entry, take (min buf_len (length (uq_data entry))) (uq_data entry))),
                udp_pcb_put desc (p\<lparr>u_queue := q\<rparr>) s)
           | [] \<Rightarrow> (WaitOn (u_task p) (task_snapshot (u_task p) (host_tasks (udp_host s))), s)))"

definition recvfrom ::
  "nat \<Rightarrow> nat \<Rightarrow> (wait_result \<times> udp_state) list \<Rightarrow> udp_state \<Rightarrow>
     ((recv_error + ip_endp \<times> bytes) \<times> udp_state) option" where
  "recvfrom desc buf_len = blocking (recvfrom_pass desc buf_len) (\<lambda>s. (Inl RecvInterrupted, s))"

definition udp_assign_dynamic_port :: "nat \<Rightarrow> ip_addr \<Rightarrow> udp_state \<Rightarrow> u16 result \<times> udp_state" where
  "udp_assign_dynamic_port desc local_addr s =
     (case port_scan (\<lambda>q. udp_pcb_select (ip_endp_new local_addr q) s \<noteq> None) DYNAMIC_PORT_MIN of
        None \<Rightarrow> (Err, s)
      | Some q \<Rightarrow>
          (case udp_pcb_get desc s of
             None \<Rightarrow> (Err, s\<lparr>udp_host := host_panic (udp_host s)\<rparr>)
           | Some p \<Rightarrow> (Ok q, udp_pcb_put desc (p\<lparr>u_local := (u_local p)\<lparr>port := q\<rparr>\<rparr>) s)))"

text \<open>The datagram \<open>output\<close> builds, and \<open>output\<close>.\<close>

definition udp_datagram :: "ip_endp \<Rightarrow> ip_endp \<Rightarrow> bytes \<Rightarrow> bytes" where
  "udp_datagram src dst data =
     (let tot = UDP_HDR_SIZE + length data;
          buf = replicate tot 0;
          buf = copy_at 0 (u16_to_be (port src)) buf;
          buf = copy_at 2 (u16_to_be (port dst)) buf;
          buf = copy_at 4 (u16_to_be (of_nat tot)) buf;
          buf = copy_at UDP_HDR_SIZE data buf;
          pseudo = build_pseudo_header IP_PROTOCOL_UDP (addr src) (addr dst) (of_nat tot);
          ck = cksum16 buf (cksum_init pseudo);
          ck = (if ck = 0 then 0xffff else ck)
      in copy_at 6 (u16_to_ne ck) buf)"

definition udp_output :: "ip_endp \<Rightarrow> ip_endp \<Rightarrow> bytes \<Rightarrow> host \<Rightarrow> nat result \<times> host" where
  "udp_output src dst data h =
     (if UDP_HDR_SIZE + length data > 65535 then (Err, h)
      else case host_ip_output IP_PROTOCOL_UDP (udp_datagram src dst data) (addr src) (addr dst) h of
        (Err, h') \<Rightarrow> (Err, h')
      | (Ok _, h') \<Rightarrow> (Ok (length data), h'))"

text \<open>The address \<open>sendto\<close> sends from: the bound one, else that of the outgoing interface.\<close>

definition udp_src_addr :: "ip_addr \<Rightarrow> ip_addr \<Rightarrow> udp_state \<Rightarrow> ip_addr option" where
  "udp_src_addr local_addr remote_addr s =
     (if local_addr = ip_any
      then map_option (\<lambda>r. if_unicast (rt_iface r)) (route_lookup remote_addr (host_ip (udp_host s)))
      else Some local_addr)"

definition udp_sendto :: "nat \<Rightarrow> bytes \<Rightarrow> ip_endp \<Rightarrow> udp_state \<Rightarrow> nat result \<times> udp_state" where
  "udp_sendto desc data remote s =
     (case udp_pcb_get desc s of
        None \<Rightarrow> (Err, s)
      | Some p \<Rightarrow>
          let local_addr = addr (u_local p); local_port = port (u_local p);
              (r, s1) = (if local_port = 0 then udp_assign_dynamic_port desc local_addr s
                         else (Ok local_port, s))
          in case r of
               Err \<Rightarrow> (Err, s1)
             | Ok q \<Rightarrow>
                 (case udp_src_addr local_addr (addr remote) s1 of
                    None \<Rightarrow> (Err, s1)
                  | Some src_addr \<Rightarrow>
                      let (r', h) = udp_output (ip_endp_new src_addr q) remote data (udp_host s1)
                      in (r', s1\<lparr>udp_host := h\<rparr>)))"

section \<open>Input\<close>

definition udp_src :: "bytes \<Rightarrow> u16" where "udp_src d = u16_from_be (d ! 0) (d ! 1)"
definition udp_dst :: "bytes \<Rightarrow> u16" where "udp_dst d = u16_from_be (d ! 2) (d ! 3)"
definition udp_len :: "bytes \<Rightarrow> u16" where "udp_len d = u16_from_be (d ! 4) (d ! 5)"
definition udp_sum :: "bytes \<Rightarrow> u16" where "udp_sum d = u16_from_be (d ! 6) (d ! 7)"

lemmas udp_readers = udp_src_def udp_dst_def udp_len_def udp_sum_def

text \<open>The checks of lines 185 to 205.\<close>

definition udp_valid :: "bytes \<Rightarrow> bytes \<Rightarrow> bool" where
  "udp_valid hdr data \<longleftrightarrow>
     UDP_HDR_SIZE \<le> length data \<and> unat (udp_len data) = length data \<and>
     (udp_sum data \<noteq> 0 \<longrightarrow>
        cksum16 data (cksum_init (build_pseudo_header IP_PROTOCOL_UDP (ip_src hdr) (ip_dst hdr)
                                    (of_nat (length data)))) = 0)"

definition udp_port_unreach :: "bytes \<Rightarrow> bytes \<Rightarrow> ip_iface \<Rightarrow> host \<Rightarrow> host" where
  "udp_port_unreach hdr data iface h =
     (if ip_dst hdr = if_unicast iface
      then h\<lparr>host_ip := snd (icmp_output ICMP_TYPE_DEST_UNREACH ICMP_CODE_PORT_UNREACH 0
                (ip_as_bytes hdr @ take (min (length data) 8) data)
                (if_unicast iface) (ip_src hdr) (host_ip h))\<rparr>
      else h)"

definition udp_input :: "bytes \<Rightarrow> bytes \<Rightarrow> ip_iface \<Rightarrow> udp_state \<Rightarrow> udp_state" where
  "udp_input hdr data iface s =
     (if \<not> udp_valid hdr data then s
      else let src = ip_endp_new (ip_src hdr) (udp_src data);
               dst = ip_endp_new (ip_dst hdr) (udp_dst data)
           in case udp_pcb_select dst s of
                None \<Rightarrow> s\<lparr>udp_host := udp_port_unreach hdr data iface (udp_host s)\<rparr>
              | Some desc \<Rightarrow>
                  (case udp_pcb_get desc s of
                     None \<Rightarrow> s
                   | Some p \<Rightarrow>
                       let entry = \<lparr>uq_remote = src, uq_data = drop UDP_HDR_SIZE data\<rparr>;
                           s1 = udp_pcb_put desc (p\<lparr>u_queue := u_queue p @ [entry]\<rparr>) s
                       in s1\<lparr>udp_host := host_notify (u_task p) (udp_host s1)\<rparr>))"

definition udp_init :: "ip_state \<Rightarrow> unit result \<times> ip_state" where
  "udp_init s = ip_register_protocol IP_PROTOCOL_UDP UdpInput s"

end
