(* ===== verification/Udp_Props.thy ===== *)
theory Udp_Props
  imports Udp
begin

text \<open>
  Correctness of UDP: the contract of the table, what a datagram carries from sender to receiver,
  the invariant that no two control blocks claim the same endpoint, the behaviour of the calls as
  operations on queues of datagrams, and that a waiting receiver is woken.
\<close>

section \<open>The table\<close>

interpretation udp_tab: slot_table udp_pcbs
  "\<lambda>s. udp_pcb_empty (length (host_tasks (udp_host s)))" udp_pcb_alloc UDP_PCB_SIZE_MAX
  by unfold_locales (simp_all add: udp_pcb_alloc_def case_prod_beta Let_def)

lemma udp_alloc_tasks:
  "host_tasks (udp_host (snd (udp_pcb_alloc s))) =
     host_tasks (udp_host s) @ (if fst (udp_pcb_alloc s) = None then [] else [task_init])"
  by (auto simp: udp_pcb_alloc_def case_prod_beta Let_def split: option.splits)

lemma udp_put_get [simp]:
  "udp_pcb_get e (udp_pcb_put d p s) = (if e = d \<and> d < length (udp_pcbs s) then Some p else udp_pcb_get e s)"
  by (auto simp: udp_pcb_get_def udp_pcb_put_def)

lemma udp_put_length [simp]: "length (udp_pcbs (udp_pcb_put d p s)) = length (udp_pcbs s)"
  by (simp add: udp_pcb_put_def)

lemma udp_put_host [simp]: "udp_host (udp_pcb_put d p s) = udp_host s"
  by (simp add: udp_pcb_put_def)

lemma udp_host_get [simp]: "udp_pcb_get e (s\<lparr>udp_host := h\<rparr>) = udp_pcb_get e s"
  by (simp add: udp_pcb_get_def)

lemma udp_get_range: "udp_pcb_get d s = Some p \<Longrightarrow> d < length (udp_pcbs s)"
  by (auto simp: udp_pcb_get_def dest: slot_get_SomeD)

lemma udp_select_None:
  "udp_pcb_select key s = None \<longleftrightarrow> (\<forall>d p. udp_pcb_get d s = Some p \<longrightarrow> \<not> udp_match key p)"
  by (simp add: udp_pcb_select_def slot_find_None udp_pcb_get_def)

lemma udp_select_Some:
  "udp_pcb_select key s = Some d \<Longrightarrow> \<exists>p. udp_pcb_get d s = Some p \<and> udp_match key p"
  unfolding udp_pcb_select_def udp_pcb_get_def by (blast dest: slot_find_Some)

lemma udp_match_sym: "udp_match (u_local p) q \<longleftrightarrow> udp_match (u_local q) p"
  by (auto simp: udp_match_def)

section \<open>Datagrams\<close>

lemma udp_datagram_layout:
  "udp_datagram src dst data =
     (let pre = u16_to_be (port src) @ u16_to_be (port dst) @ u16_to_be (of_nat (8 + length data));
          ck = cksum16 (pre @ [0, 0] @ data)
                 (cksum_init (build_pseudo_header IP_PROTOCOL_UDP (addr src) (addr dst)
                                (of_nat (8 + length data))))
      in pre @ u16_to_ne (if ck = 0 then 0xffff else ck) @ data)"
proof -
  have r: "replicate 2 (0 :: u8) = [0, 0]" by (simp add: numeral_2_eq_2)
  have c: "copy_at 0 data (replicate (length data) 0) = data" by (simp add: copy_at_def)
  show ?thesis
    by (simp add: udp_datagram_def UDP_HDR_SIZE_def layout_simps Let_def r c)
qed

lemma udp_datagram_fields:
  assumes "8 + length data \<le> 65535"
  shows "udp_src (udp_datagram src dst data) = port src"
    and "udp_dst (udp_datagram src dst data) = port dst"
    and "unat (udp_len (udp_datagram src dst data)) = length (udp_datagram src dst data)"
    and "drop UDP_HDR_SIZE (udp_datagram src dst data) = data"
    and "length (udp_datagram src dst data) = 8 + length data"
proof -
  show len: "length (udp_datagram src dst data) = 8 + length data"
    by (simp add: udp_datagram_layout Let_def)
  have "udp_len (udp_datagram src dst data) = of_nat (8 + length data)"
    by (simp add: udp_datagram_layout Let_def udp_readers u16_to_be_def u16_be_roundtrip
        del: unsigned_of_nat)
  then show "unat (udp_len (udp_datagram src dst data)) = length (udp_datagram src dst data)"
    using assms len by (simp only: unat_of_nat_u16)
qed (simp_all add: udp_datagram_layout Let_def udp_readers u16_to_be_def u16_to_ne_def
      UDP_HDR_SIZE_def byte_simps)

lemma udp_datagram_valid:
  assumes "8 + length data \<le> 65535" and "ip_src hdr = addr src" and "ip_dst hdr = addr dst"
  shows "udp_valid hdr (udp_datagram src dst data)"
proof -
  have "cksum16 (udp_datagram src dst data) (cksum_init (build_pseudo_header IP_PROTOCOL_UDP
      (addr src) (addr dst) (of_nat (8 + length data)))) = 0"
    unfolding udp_datagram_layout Let_def using assms(1)
    by (intro cksum_stored sum_fits_packet) (auto simp: cksum_init_le)
  with assms udp_datagram_fields [OF assms(1)] show ?thesis
    by (simp add: udp_valid_def UDP_HDR_SIZE_def)
qed

section \<open>Invariant\<close>

text \<open>
  At most sixteen slots, every control block has a task of its own in the arena, and no other
  control block matches the endpoint of a bound one.
\<close>

definition udp_wf :: "udp_state \<Rightarrow> bool" where
  "udp_wf s \<longleftrightarrow> length (udp_pcbs s) \<le> UDP_PCB_SIZE_MAX \<and>
     (\<forall>d p. udp_pcb_get d s = Some p \<longrightarrow> u_task p < length (host_tasks (udp_host s))) \<and>
     (\<forall>d e p q. udp_pcb_get d s = Some p \<longrightarrow> udp_pcb_get e s = Some q \<longrightarrow> d \<noteq> e \<longrightarrow>
        u_task p \<noteq> u_task q \<and> (port (u_local p) \<noteq> 0 \<longrightarrow> \<not> udp_match (u_local p) q))"

lemma udp_wfI:
  assumes "length (udp_pcbs s) \<le> UDP_PCB_SIZE_MAX"
    and "\<And>d p. udp_pcb_get d s = Some p \<Longrightarrow> u_task p < length (host_tasks (udp_host s))"
    and "\<And>d e p q. udp_pcb_get d s = Some p \<Longrightarrow> udp_pcb_get e s = Some q \<Longrightarrow> d \<noteq> e \<Longrightarrow>
        u_task p \<noteq> u_task q \<and> (port (u_local p) \<noteq> 0 \<longrightarrow> \<not> udp_match (u_local p) q)"
  shows "udp_wf s"
  using assms unfolding udp_wf_def by blast

lemma udp_wfD:
  assumes "udp_wf s"
  shows "length (udp_pcbs s) \<le> UDP_PCB_SIZE_MAX"
    and "udp_pcb_get d s = Some p \<Longrightarrow> u_task p < length (host_tasks (udp_host s))"
    and "udp_pcb_get d s = Some p \<Longrightarrow> udp_pcb_get e s = Some q \<Longrightarrow> d \<noteq> e \<Longrightarrow> u_task p \<noteq> u_task q"
    and "udp_pcb_get d s = Some p \<Longrightarrow> udp_pcb_get e s = Some q \<Longrightarrow> d \<noteq> e \<Longrightarrow>
      port (u_local p) \<noteq> 0 \<Longrightarrow> \<not> udp_match (u_local p) q"
  using assms unfolding udp_wf_def by blast+

lemma udp_alloc_get:
  "fst (udp_pcb_alloc s) = Some d \<Longrightarrow> udp_pcb_get e (snd (udp_pcb_alloc s)) =
     (if e = d then Some (udp_pcb_empty (length (host_tasks (udp_host s)))) else udp_pcb_get e s)"
  unfolding udp_pcb_get_def by (rule udp_tab.alloc_slot(2))

lemma udp_alloc_None: "fst (udp_pcb_alloc s) = None \<Longrightarrow> snd (udp_pcb_alloc s) = s"
  by (auto simp: udp_pcb_alloc_def case_prod_beta Let_def split: option.splits if_splits)

lemma udp_alloc_wf:
  assumes "udp_wf s"
  shows "udp_wf (snd (udp_pcb_alloc s))"
proof (cases "fst (udp_pcb_alloc s)")
  case None
  with assms show ?thesis by (simp add: udp_alloc_None)
next
  case (Some d)
  note get = udp_alloc_get [OF Some]
  note wf = udp_wfD [OF assms]
  have fresh: "u_task q < length (host_tasks (udp_host s))" if "udp_pcb_get e s = Some q" for e q
    using wf(2) that .
  show ?thesis
  proof (rule udp_wfI)
    show "length (udp_pcbs (snd (udp_pcb_alloc s))) \<le> UDP_PCB_SIZE_MAX"
      using wf(1) by (rule udp_tab.alloc_bounded)
    show "u_task q < length (host_tasks (udp_host (snd (udp_pcb_alloc s))))"
      if "udp_pcb_get e (snd (udp_pcb_alloc s)) = Some q" for e q
      using that fresh
      by (fastforce simp: get udp_alloc_tasks Some udp_pcb_empty_def split: if_splits)
    show "u_task p \<noteq> u_task q \<and> (port (u_local p) \<noteq> 0 \<longrightarrow> \<not> udp_match (u_local p) q)"
      if "udp_pcb_get e (snd (udp_pcb_alloc s)) = Some p"
        and "udp_pcb_get f (snd (udp_pcb_alloc s)) = Some q" and "e \<noteq> f" for e f p q
      using that fresh [of e p] fresh [of f q] wf(3, 4) [of e p f q]
      by (auto simp: get udp_pcb_empty_def udp_match_def ip_endp_new_def split: if_splits)
  qed
qed

lemma udp_release_wf: "udp_wf s \<Longrightarrow> udp_wf (snd (udp_pcb_release d s))"
  by (fastforce simp: udp_wf_def udp_pcb_release_def udp_pcb_get_def host_notify_def task_notify_def
      split: option.splits if_splits)

text \<open>
  A change of one control block that keeps its task keeps the invariant if its endpoint stays, or
  if no control block matched the new one.
\<close>

lemma udp_put_wf:
  assumes "udp_wf s" and "udp_pcb_get d s = Some p" and "u_task p' = u_task p"
    and "u_local p' = u_local p \<or> udp_pcb_select (u_local p') s = None"
  shows "udp_wf (udp_pcb_put d p' s)"
proof (rule udp_wfI)
  note wf = udp_wfD [OF assms(1)]
  have range: "d < length (udp_pcbs s)" using assms(2) by (rule udp_get_range)
  show "length (udp_pcbs (udp_pcb_put d p' s)) \<le> UDP_PCB_SIZE_MAX" using wf(1) by simp
  show "u_task q < length (host_tasks (udp_host (udp_pcb_put d p' s)))"
    if "udp_pcb_get e (udp_pcb_put d p' s) = Some q" for e q
    using that wf(2) [of e q] wf(2) [OF assms(2)] assms(3) range by (auto split: if_splits)
  have free: "\<not> udp_match (u_local p') q" if "udp_pcb_get e s = Some q" "e \<noteq> d" "port (u_local p') \<noteq> 0" for e q
    using assms(4) wf(4) [OF assms(2) that(1)] that by (auto simp: udp_select_None)
  show "u_task q \<noteq> u_task r \<and> (port (u_local q) \<noteq> 0 \<longrightarrow> \<not> udp_match (u_local q) r)"
    if "udp_pcb_get e (udp_pcb_put d p' s) = Some q" "udp_pcb_get f (udp_pcb_put d p' s) = Some r" "e \<noteq> f"
    for e f q r
  proof -
    consider "e = d" | "f = d" "e \<noteq> d" | "e \<noteq> d" "f \<noteq> d" by blast
    then show ?thesis
    proof cases
      case 1
      with that range have "q = p'" "udp_pcb_get f s = Some r" "f \<noteq> d" by auto
      with free [of f r] wf(3) [OF assms(2), of f r] assms(3) show ?thesis by auto
    next
      case 2
      with that range have "r = p'" "udp_pcb_get e s = Some q" by auto
      with 2 free [of e q] wf(3) [OF assms(2), of e q] assms(3) udp_match_sym [of q p']
      show ?thesis by (auto simp: udp_match_def)
    next
      case 3
      with that show ?thesis using wf(3, 4) [of e q f r] by auto
    qed
  qed
qed

lemma udp_host_wf:
  "udp_wf s \<Longrightarrow> length (host_tasks h) = length (host_tasks (udp_host s)) \<Longrightarrow> udp_wf (s\<lparr>udp_host := h\<rparr>)"
  by (simp add: udp_wf_def)

lemma udp_bind_wf:
  assumes "udp_wf s"
  shows "udp_wf (snd (udp_bind d loc s))"
proof (cases "udp_pcb_get d s")
  case (Some p)
  then have "udp_pcb_select loc s = None \<Longrightarrow> udp_wf (udp_pcb_put d (p\<lparr>u_local := loc\<rparr>) s)"
    using assms by (intro udp_put_wf [of _ _ p]) auto
  with Some assms show ?thesis by (simp add: udp_bind_def)
qed (simp add: udp_bind_def assms)

lemma recvfrom_wf:
  assumes "udp_wf s"
  shows "udp_wf (snd (recvfrom_pass d n s))"
proof (cases "udp_pcb_get d s")
  case (Some p)
  then have "udp_wf (udp_pcb_put d (p\<lparr>u_queue := q\<rparr>) s)" for q
    using assms by (intro udp_put_wf [of _ _ p]) auto
  with Some assms show ?thesis by (auto simp: recvfrom_pass_def split: list.splits)
qed (simp add: recvfrom_pass_def assms)

lemma udp_port_unreach_tasks [simp]:
  "host_tasks (udp_port_unreach hdr data iface h) = host_tasks h"
  by (simp add: udp_port_unreach_def)

lemma udp_input_wf:
  assumes "udp_wf s"
  shows "udp_wf (udp_input hdr data iface s)"
proof -
  have put: "udp_wf (udp_pcb_put d (p\<lparr>u_queue := q\<rparr>) s)" if "udp_pcb_get d s = Some p" for d p q
    using assms that by (intro udp_put_wf [of _ _ p]) auto
  then show ?thesis using assms
    by (auto simp: udp_input_def Let_def host_notify_def split: option.splits
        intro!: udp_host_wf)
qed

lemma udp_assign_wf:
  assumes "udp_wf s" and "udp_pcb_get d s = Some p"
  shows "udp_wf (snd (udp_assign_dynamic_port d (addr (u_local p)) s))"
proof -
  have "udp_wf (udp_pcb_put d (p\<lparr>u_local := (u_local p)\<lparr>port := q\<rparr>\<rparr>) s)"
    if "port_scan (\<lambda>q. udp_pcb_select (ip_endp_new (addr (u_local p)) q) s \<noteq> None) DYNAMIC_PORT_MIN = Some q"
    for q
  proof -
    have "(u_local p)\<lparr>port := q\<rparr> = ip_endp_new (addr (u_local p)) q"
      by (simp add: ip_endp_new_def)
    then show ?thesis using assms port_scan_free [OF that] by (intro udp_put_wf [of _ _ p]) auto
  qed
  then show ?thesis using assms
    by (auto simp: udp_assign_dynamic_port_def split: option.splits)
qed

lemma udp_output_tasks [simp]: "host_tasks (snd (udp_output src dst data h)) = host_tasks h"
proof -
  obtain r h' where send: "host_ip_output IP_PROTOCOL_UDP (udp_datagram src dst data) (addr src)
      (addr dst) h = (r, h')" by fastforce
  then have "host_tasks h' = host_tasks h" by (metis host_ip_output_tasks snd_conv)
  with send show ?thesis by (cases r) (simp_all add: udp_output_def)
qed

lemma udp_sendto_wf:
  assumes "udp_wf s"
  shows "udp_wf (snd (udp_sendto d data remote s))"
proof (cases "udp_pcb_get d s")
  case (Some p)
  define step where "step = (if port (u_local p) = 0 then udp_assign_dynamic_port d (addr (u_local p)) s
      else (Ok (port (u_local p)), s))"
  obtain r s1 where s1: "step = (r, s1)" by (cases step)
  have "udp_wf s1"
    using udp_assign_wf [OF assms Some] assms s1 by (auto simp: step_def split: if_splits)
  then show ?thesis using Some s1 [unfolded step_def]
    by (auto simp: udp_sendto_def case_prod_beta Let_def split: result.splits option.splits
        intro!: udp_host_wf)
qed (simp add: udp_sendto_def assms)

text \<open>Every sequence of calls and arriving datagrams keeps the invariant.\<close>

datatype udp_event =
    UOpen
  | UClose nat
  | UBind nat ip_endp
  | USendto nat bytes ip_endp
  | URecv nat nat
  | UInput bytes bytes ip_iface

fun udp_apply :: "udp_event \<Rightarrow> udp_state \<Rightarrow> udp_state" where
  "udp_apply UOpen s = snd (udp_open s)"
| "udp_apply (UClose d) s = snd (udp_close d s)"
| "udp_apply (UBind d loc) s = snd (udp_bind d loc s)"
| "udp_apply (USendto d data remote) s = snd (udp_sendto d data remote s)"
| "udp_apply (URecv d n) s = snd (recvfrom_pass d n s)"
| "udp_apply (UInput hdr data iface) s = udp_input hdr data iface s"

lemma udp_event_wf: "udp_wf s \<Longrightarrow> udp_wf (udp_apply e s)"
  by (cases e) (simp_all add: udp_open_def udp_close_def udp_alloc_wf udp_release_wf udp_bind_wf
      udp_sendto_wf recvfrom_wf udp_input_wf)

lemma udp_events_wf: "udp_wf s \<Longrightarrow> udp_wf (fold udp_apply es s)"
  by (induction es arbitrary: s) (simp_all add: udp_event_wf)

lemma udp_empty_wf: "udp_wf \<lparr>udp_host = h, udp_pcbs = []\<rparr>"
  by (simp add: udp_wf_def udp_pcb_get_def)

section \<open>Dynamic ports never run out\<close>

lemma udp_assign_succeeds:
  assumes "length (udp_pcbs s) \<le> UDP_PCB_SIZE_MAX" and "udp_pcb_get d s = Some p"
  shows "\<exists>q s'. udp_assign_dynamic_port d a s = (Ok q, s') \<and>
    (\<forall>e r. udp_pcb_get e s = Some r \<longrightarrow> \<not> udp_match (ip_endp_new a q) r)"
proof -
  let ?used = "\<lambda>q. udp_pcb_select (ip_endp_new a q) s \<noteq> None"
  let ?ports = "(\<lambda>i. port (u_local (the (udp_pcbs s ! i)))) ` {..<length (udp_pcbs s)}"
  have sub: "{q. ?used q} \<subseteq> ?ports"
  proof
    fix q assume "q \<in> {q. ?used q}"
    then obtain e where "udp_pcb_select (ip_endp_new a q) s = Some e" by auto
    then obtain r where "udp_pcb_get e s = Some r" "udp_match (ip_endp_new a q) r"
      by (blast dest: udp_select_Some)
    then show "q \<in> ?ports"
      by (intro image_eqI [of _ _ e])
        (auto simp: udp_match_def ip_endp_new_def udp_pcb_get_def dest: slot_get_SomeD)
  qed
  have "card ?ports \<le> 16"
    using assms(1) card_image_le [of "{..<length (udp_pcbs s)}" "\<lambda>i. port (u_local (the (udp_pcbs s ! i)))"]
    by (simp add: UDP_PCB_SIZE_MAX_def)
  then have "card {q. ?used q} < 16384" using card_mono [OF _ sub] by simp
  then obtain q where q: "port_scan ?used DYNAMIC_PORT_MIN = Some q"
    using port_scan_succeeds [of ?used] by auto
  then have "\<not> ?used q" by (blast dest: port_scan_free)
  then show ?thesis using q assms(2)
    by (auto simp: udp_assign_dynamic_port_def udp_select_None)
qed

section \<open>Delivery\<close>

text \<open>The datagrams waiting at a control block, and what the operations do to them.\<close>

definition udp_pending :: "udp_state \<Rightarrow> nat \<Rightarrow> (ip_endp \<times> bytes) list" where
  "udp_pending s d = (case udp_pcb_get d s of
     None \<Rightarrow> [] | Some p \<Rightarrow> map (\<lambda>e. (uq_remote e, uq_data e)) (u_queue p))"

lemma udp_select_bound:
  assumes "udp_wf s" and "udp_pcb_get d s = Some p" and "port (u_local p) \<noteq> 0"
    and "addr (u_local p) = addr key \<or> addr (u_local p) = ip_any" and "port key = port (u_local p)"
    and "addr key \<noteq> ip_any"
  shows "udp_pcb_select key s = Some d"
proof -
  have match: "udp_match key p" using assms by (simp add: udp_match_def)
  then obtain e where e: "udp_pcb_select key s = Some e"
    using assms(2) udp_select_None [of key s] by (cases "udp_pcb_select key s") auto
  then obtain q where q: "udp_pcb_get e s = Some q" "udp_match key q"
    by (blast dest: udp_select_Some)
  have "udp_match (u_local p) q"
    using match q(2) assms(6) by (auto simp: udp_match_def)
  with udp_wfD(4) [OF assms(1, 2) q(1)] assms(3) have "d = e" by blast
  with e show ?thesis by simp
qed

lemma udp_input_delivers:
  assumes "udp_wf s" and "udp_pcb_get d s = Some p" and "port (u_local p) \<noteq> 0"
    and "addr (u_local p) = ip_dst hdr \<or> addr (u_local p) = ip_any"
    and "udp_valid hdr data" and "udp_dst data = port (u_local p)" and "ip_dst hdr \<noteq> ip_any"
  shows "udp_pending (udp_input hdr data iface s) e =
      udp_pending s e @ (if e = d then [(ip_endp_new (ip_src hdr) (udp_src data), drop UDP_HDR_SIZE data)] else [])"
    and "host_tasks (udp_host (udp_input hdr data iface s)) = task_notify (u_task p) (host_tasks (udp_host s))"
proof -
  have "udp_pcb_select (ip_endp_new (ip_dst hdr) (udp_dst data)) s = Some d"
    using assms by (intro udp_select_bound) (auto simp: ip_endp_new_def)
  with assms(2, 5) udp_get_range [OF assms(2)]
  show "udp_pending (udp_input hdr data iface s) e =
      udp_pending s e @ (if e = d then [(ip_endp_new (ip_src hdr) (udp_src data), drop UDP_HDR_SIZE data)] else [])"
    and "host_tasks (udp_host (udp_input hdr data iface s)) = task_notify (u_task p) (host_tasks (udp_host s))"
    by (auto simp: udp_input_def udp_pending_def Let_def host_notify_def)
qed

lemma recvfrom_pending:
  assumes "udp_pending s d = (remote, data) # rest"
  shows "fst (recvfrom_pass d n s) = Return (Inr (remote, take n data))"
    and "udp_pending (snd (recvfrom_pass d n s)) e = (if e = d then rest else udp_pending s e)"
proof -
  obtain p q es where p: "udp_pcb_get d s = Some p" "u_queue p = q # es"
    "remote = uq_remote q" "data = uq_data q" "rest = map (\<lambda>e. (uq_remote e, uq_data e)) es"
    using assms by (auto simp: udp_pending_def split: option.splits)
  then show "fst (recvfrom_pass d n s) = Return (Inr (remote, take n data))"
    by (simp add: recvfrom_pass_def min_def)
  show "udp_pending (snd (recvfrom_pass d n s)) e = (if e = d then rest else udp_pending s e)"
    using p udp_get_range [OF p(1)] by (auto simp: recvfrom_pass_def udp_pending_def)
qed

text \<open>A receiver that decided to wait is woken by the datagram that arrives, and then gets it.\<close>

lemma recvfrom_woken:
  assumes "udp_wf s" and "recvfrom_pass d n s = (WaitOn t snap, s1)"
    and "udp_pcb_get d s = Some p" and "port (u_local p) \<noteq> 0"
    and "addr (u_local p) = ip_dst hdr \<or> addr (u_local p) = ip_any"
    and "udp_valid hdr data" and "udp_dst data = port (u_local p)" and "ip_dst hdr \<noteq> ip_any"
  shows "fst (task_wait_poll snap (host_tasks (udp_host (udp_input hdr data iface s1)) ! t)) \<noteq> None"
    and "recvfrom d n [(Notified, udp_input hdr data iface s1)] s =
      Some (Inr (ip_endp_new (ip_src hdr) (udp_src data), take n (drop UDP_HDR_SIZE data)),
            snd (recvfrom_pass d n (udp_input hdr data iface s1)))"
proof -
  have wait: "u_queue p = []" "t = u_task p" "s1 = s"
    "snap = task_snapshot t (host_tasks (udp_host s))"
    using assms(2, 3) by (auto simp: recvfrom_pass_def split: list.splits)
  have range: "t < length (host_tasks (udp_host s))"
    using udp_wfD(2) [OF assms(1, 3)] wait by simp
  note arrive = udp_input_delivers [OF assms(1, 3-8), of iface]
  have "snap = snapshot (host_tasks (udp_host s) ! t)" using wait range by (simp add: task_snapshot_def)
  moreover have "host_tasks (udp_host (udp_input hdr data iface s1)) ! t = notify (host_tasks (udp_host s) ! t)"
    using arrive(2) wait range by (simp add: task_notify_def)
  ultimately show "fst (task_wait_poll snap (host_tasks (udp_host (udp_input hdr data iface s1)) ! t)) \<noteq> None"
    by (simp add: task_wait_poll_def notify_def snapshot_def Let_def)
  have "udp_pending s d = []" using assms(3) wait by (simp add: udp_pending_def)
  then have "udp_pending (udp_input hdr data iface s1) d =
      (ip_endp_new (ip_src hdr) (udp_src data), drop UDP_HDR_SIZE data) # []"
    using arrive(1) [of d] wait by simp
  note get = recvfrom_pending(1) [OF this]
  show "recvfrom d n [(Notified, udp_input hdr data iface s1)] s =
      Some (Inr (ip_endp_new (ip_src hdr) (udp_src data), take n (drop UDP_HDR_SIZE data)),
            snd (recvfrom_pass d n (udp_input hdr data iface s1)))"
    using blocking_wait [of "recvfrom_pass d n" s t snap s1] assms(2) get
      blocking_returns [of "recvfrom_pass d n" "udp_input hdr data iface s1"]
    by (simp add: recvfrom_def prod_eq_iff)
qed

end
