(* ===== verification/Tcp_Segment.thy ===== *)
theory Tcp_Segment
  imports Transport
begin

text \<open>
  Segments of \<^verbatim>\<open>src/src/tcp.rs\<close>: flags, header readers, the dump \<open>print\<close> with its loop over the
  options, and \<open>output_segment\<close>. The proofs show that a segment that was built is read back field
  by field, has the checksum a receiver accepts and makes \<open>print\<close> succeed, and that the loop over
  the options of a received segment ends and stays inside the header.
\<close>

section \<open>Flags and header\<close>

definition TCP_HDR_SIZE :: nat where "TCP_HDR_SIZE = 20"
definition TCP_FLG_FIN :: u8 where "TCP_FLG_FIN = 0x01"
definition TCP_FLG_SYN :: u8 where "TCP_FLG_SYN = 0x02"
definition TCP_FLG_RST :: u8 where "TCP_FLG_RST = 0x04"
definition TCP_FLG_PSH :: u8 where "TCP_FLG_PSH = 0x08"
definition TCP_FLG_ACK :: u8 where "TCP_FLG_ACK = 0x10"
definition TCP_FLG_URG :: u8 where "TCP_FLG_URG = 0x20"

lemmas tcp_flags = TCP_FLG_FIN_def TCP_FLG_SYN_def TCP_FLG_RST_def TCP_FLG_PSH_def TCP_FLG_ACK_def
  TCP_FLG_URG_def

definition flag_isset :: "u8 \<Rightarrow> u8 \<Rightarrow> bool" where
  "flag_isset flg msk \<longleftrightarrow> (flg AND 0x3f) AND msk \<noteq> 0"

definition flag_char :: "u8 \<Rightarrow> u8 \<Rightarrow> char \<Rightarrow> char" where
  "flag_char flg msk c = (if flag_isset flg msk then c else CHR ''-'')"

definition flag_str :: "u8 \<Rightarrow> string" where
  "flag_str flg = ''--'' @
     [flag_char flg TCP_FLG_URG CHR ''U'', flag_char flg TCP_FLG_ACK CHR ''A'',
      flag_char flg TCP_FLG_PSH CHR ''P'', flag_char flg TCP_FLG_RST CHR ''R'',
      flag_char flg TCP_FLG_SYN CHR ''S'', flag_char flg TCP_FLG_FIN CHR ''F'']"

definition tcp_hdr_new :: "bytes \<Rightarrow> bytes option" where
  "tcp_hdr_new data = (if length data < TCP_HDR_SIZE then None else Some data)"

definition tcp_src :: "bytes \<Rightarrow> u16" where "tcp_src d = u16_from_be (d ! 0) (d ! 1)"
definition tcp_dst :: "bytes \<Rightarrow> u16" where "tcp_dst d = u16_from_be (d ! 2) (d ! 3)"
definition tcp_seq :: "bytes \<Rightarrow> u32" where "tcp_seq d = u32_from_be (d ! 4) (d ! 5) (d ! 6) (d ! 7)"
definition tcp_ack :: "bytes \<Rightarrow> u32" where "tcp_ack d = u32_from_be (d ! 8) (d ! 9) (d ! 10) (d ! 11)"
definition tcp_off :: "bytes \<Rightarrow> u8" where "tcp_off d = d ! 12"
definition tcp_hlen :: "bytes \<Rightarrow> nat" where "tcp_hlen d = unat (drop_bit 4 (tcp_off d)) * 4"
definition tcp_flg :: "bytes \<Rightarrow> u8" where "tcp_flg d = d ! 13"
definition tcp_wnd :: "bytes \<Rightarrow> u16" where "tcp_wnd d = u16_from_be (d ! 14) (d ! 15)"
definition tcp_sum :: "bytes \<Rightarrow> u16" where "tcp_sum d = u16_from_be (d ! 16) (d ! 17)"
definition tcp_up :: "bytes \<Rightarrow> u16" where "tcp_up d = u16_from_be (d ! 18) (d ! 19)"

lemmas tcp_readers = tcp_src_def tcp_dst_def tcp_seq_def tcp_ack_def tcp_off_def tcp_hlen_def
  tcp_flg_def tcp_wnd_def tcp_sum_def tcp_up_def

section \<open>The segment dump\<close>

text \<open>
  The loop of \<open>print\<close> over the options: the kinds and lengths it prints, or \<open>Err\<close> when an index
  is out of range and the code panics.
\<close>

function option_loop :: "bytes \<Rightarrow> nat \<Rightarrow> nat \<Rightarrow> (u8 \<times> nat option) list result" where
  "option_loop data hlen pos =
     (if pos < hlen
      then if pos \<ge> length data then Err
           else let kind = data ! pos
                in if kind = 0 then Ok [(kind, None)]
                   else if kind = 1
                   then (case option_loop data hlen (pos + 1) of
                           Err \<Rightarrow> Err | Ok os \<Rightarrow> Ok ((kind, None) # os))
                   else if pos + 1 \<ge> hlen then Ok []
                   else if pos + 1 \<ge> length data then Err
                   else let olen = unat (data ! (pos + 1))
                        in if olen = 0 then Ok [(kind, Some olen)]
                           else (case option_loop data hlen (pos + olen) of
                                   Err \<Rightarrow> Err | Ok os \<Rightarrow> Ok ((kind, Some olen) # os))
      else Ok [])"
  by pat_completeness auto
termination by (relation "measure (\<lambda>(_, hlen, pos). hlen - pos)") auto

declare option_loop.simps [simp del]

text \<open>
  \<open>print\<close>: the two subtractions of the line with the header length panic when they underflow.
\<close>

definition tcp_print :: "bytes \<Rightarrow> (u8 \<times> nat option) list result" where
  "tcp_print data =
     (case tcp_hdr_new data of
        None \<Rightarrow> Ok []
      | Some hdr \<Rightarrow>
          let hlen = tcp_hlen hdr
          in if hlen < TCP_HDR_SIZE then Err
             else if length data < hlen then Err
             else option_loop data hlen TCP_HDR_SIZE)"

lemma option_loop_ok: "hlen \<le> length data \<Longrightarrow> \<not> is_err (option_loop data hlen pos)"
proof (induction "hlen - pos" arbitrary: pos rule: less_induct)
  case less
  have skip: "option_loop data hlen (pos + n) \<noteq> Err" if "pos < hlen" "0 < n" for n
    using less that by (simp add: is_err_iff)
  show ?case using less.prems skip [of 1] skip [of "unat (data ! (pos + 1))"]
    by (subst option_loop.simps) (auto simp: is_err_iff Let_def split: result.splits)
qed

lemma tcp_print_err_iff:
  "is_err (tcp_print data) \<longleftrightarrow>
     20 \<le> length data \<and> (tcp_hlen data < 20 \<or> length data < tcp_hlen data)"
  using option_loop_ok [of "tcp_hlen data" data 20]
  by (auto simp: tcp_print_def tcp_hdr_new_def TCP_HDR_SIZE_def Let_def)

section \<open>Building and sending a segment\<close>

definition tcp_segment ::
  "u32 \<Rightarrow> u32 \<Rightarrow> u8 \<Rightarrow> u16 \<Rightarrow> bytes \<Rightarrow> ip_endp \<Rightarrow> ip_endp \<Rightarrow> bytes" where
  "tcp_segment seq ack flg wnd data loc rem =
     (let hlen = TCP_HDR_SIZE; tot = hlen + length data;
          buf = replicate tot 0;
          buf = copy_at 0 (u16_to_be (port loc)) buf;
          buf = copy_at 2 (u16_to_be (port rem)) buf;
          buf = copy_at 4 (u32_to_be seq) buf;
          buf = copy_at 8 (u32_to_be ack) buf;
          buf = copy_at 12 [push_bit 4 (of_nat (hlen div 4))] buf;
          buf = copy_at 13 [flg] buf;
          buf = copy_at 14 (u16_to_be wnd) buf;
          buf = copy_at hlen data buf;
          pseudo = build_pseudo_header IP_PROTOCOL_TCP (addr loc) (addr rem) (of_nat tot);
          ck = cksum16 buf (cksum_init pseudo)
      in copy_at 16 (u16_to_ne ck) buf)"

definition output_segment ::
  "u32 \<Rightarrow> u32 \<Rightarrow> u8 \<Rightarrow> u16 \<Rightarrow> bytes \<Rightarrow> ip_endp \<Rightarrow> ip_endp \<Rightarrow> host \<Rightarrow> nat result \<times> host" where
  "output_segment seq ack flg wnd data loc rem h =
     (let buf = tcp_segment seq ack flg wnd data loc rem
      in if is_err (tcp_print buf) then (Err, host_panic h)
         else case host_ip_output IP_PROTOCOL_TCP buf (addr loc) (addr rem) h of
           (Err, h') \<Rightarrow> (Err, h')
         | (Ok _, h') \<Rightarrow> (Ok (length data), h'))"

lemma tcp_segment_layout:
  "tcp_segment seq ack flg wnd data loc rem =
     (let pre = u16_to_be (port loc) @ u16_to_be (port rem) @ u32_to_be seq @ u32_to_be ack @
                [0x50, flg] @ u16_to_be wnd;
          ck = cksum16 (pre @ [0, 0] @ [0, 0] @ data)
                 (cksum_init (build_pseudo_header IP_PROTOCOL_TCP (addr loc) (addr rem)
                                (of_nat (20 + length data))))
      in pre @ u16_to_ne ck @ [0, 0] @ data)"
proof -
  have r: "replicate 2 (0 :: u8) = [0, 0]" "replicate 4 (0 :: u8) = [0, 0, 0, 0]"
    by (simp_all add: numeral_eq_Suc)
  have c: "copy_at 0 data (replicate (length data) 0) = data" by (simp add: copy_at_def)
  have o: "push_bit 4 (of_nat 5) = (0x50 :: u8)" by (simp add: push_bit_eq_mult)
  show ?thesis
    by (simp add: tcp_segment_def TCP_HDR_SIZE_def layout_simps Let_def r c o)
qed

lemma tcp_segment_fields:
  shows "tcp_src (tcp_segment seq ack flg wnd data loc rem) = port loc"
    and "tcp_dst (tcp_segment seq ack flg wnd data loc rem) = port rem"
    and "tcp_seq (tcp_segment seq ack flg wnd data loc rem) = seq"
    and "tcp_ack (tcp_segment seq ack flg wnd data loc rem) = ack"
    and "tcp_hlen (tcp_segment seq ack flg wnd data loc rem) = 20"
    and "tcp_flg (tcp_segment seq ack flg wnd data loc rem) = flg"
    and "tcp_wnd (tcp_segment seq ack flg wnd data loc rem) = wnd"
    and "drop 20 (tcp_segment seq ack flg wnd data loc rem) = data"
    and "length (tcp_segment seq ack flg wnd data loc rem) = 20 + length data"
  by (simp_all add: tcp_segment_layout Let_def tcp_readers u16_to_be_def u32_to_be_def u16_to_ne_def
      byte_simps)

lemma tcp_segment_sum:
  assumes "20 + length data \<le> 65535"
  shows "cksum16 (tcp_segment seq ack flg wnd data loc rem)
    (cksum_init (build_pseudo_header IP_PROTOCOL_TCP (addr loc) (addr rem)
       (of_nat (length (tcp_segment seq ack flg wnd data loc rem))))) = 0"
  unfolding tcp_segment_fields(9) tcp_segment_layout Let_def using assms
  by (intro cksum_stored sum_fits_packet) (auto simp: cksum_init_le)

lemma tcp_segment_print [simp]: "\<not> is_err (tcp_print (tcp_segment seq ack flg wnd data loc rem))"
  by (simp add: tcp_print_err_iff tcp_segment_fields)

lemma output_segment_tasks [simp]:
  "host_tasks (snd (output_segment seq ack flg wnd data loc rem h)) = host_tasks h"
proof -
  obtain r h' where send: "host_ip_output IP_PROTOCOL_TCP (tcp_segment seq ack flg wnd data loc rem)
      (addr loc) (addr rem) h = (r, h')" by fastforce
  then have "host_tasks h' = host_tasks h" by (metis host_ip_output_tasks snd_conv)
  with send show ?thesis by (cases r) (simp_all add: output_segment_def)
qed

end
