(* ===== verification/Tcp.thy ===== *)
theory Tcp
  imports Tcp_Segment
begin

text \<open>
  Connections of \<^verbatim>\<open>src/src/tcp.rs\<close>: the protocol control block, the table, sending with the
  retransmission queue, and the timer. The fields of \<open>SndVars\<close> and \<open>RcvVars\<close> are fields of the
  control block here, with the prefixes \<open>snd_\<close> and \<open>rcv_\<close>. A function of the code that gets the
  table and a descriptor, or a reference into the table, is a function of the descriptor and the
  whole state; \<open>unwrap\<close> of an empty slot panics.
\<close>

section \<open>State\<close>

definition TCP_PCB_SIZE_MAX :: nat where "TCP_PCB_SIZE_MAX = 16"
definition RECV_BUF_SIZE :: nat where "RECV_BUF_SIZE = 65535"
definition TCP_DEFAULT_RTO :: duration where "TCP_DEFAULT_RTO = 200000000"
definition TCP_RETRANS_DEADLINE :: duration where "TCP_RETRANS_DEADLINE = 12000000000"
definition TCP_TIMEWAIT_SEC :: duration where "TCP_TIMEWAIT_SEC = 30000000000"
definition TCP_TIMER_INTERVAL :: duration where "TCP_TIMER_INTERVAL = 100000000"

datatype tcp_st = Closed | Listen | SynSent | SynReceived | Established | FinWait1 | FinWait2
  | CloseWait | Closing | LastAck | TimeWait

datatype tcp_mode = Rfc | Socket

fun tcp_st_name :: "tcp_st \<Rightarrow> string" where
  "tcp_st_name Closed = ''CLOSED''"
| "tcp_st_name Listen = ''LISTEN''"
| "tcp_st_name SynSent = ''SYN_SENT''"
| "tcp_st_name SynReceived = ''SYN_RECEIVED''"
| "tcp_st_name Established = ''ESTABLISHED''"
| "tcp_st_name FinWait1 = ''FIN_WAIT1''"
| "tcp_st_name FinWait2 = ''FIN_WAIT2''"
| "tcp_st_name CloseWait = ''CLOSE_WAIT''"
| "tcp_st_name Closing = ''CLOSING''"
| "tcp_st_name LastAck = ''LAST_ACK''"
| "tcp_st_name TimeWait = ''TIME_WAIT''"

record seg_info =
  seg_seq :: u32
  seg_ack :: u32
  seg_len :: u32
  seg_wnd :: u16
  seg_up :: u16

record tcp_queue_entry =
  q_first :: duration
  q_last :: duration
  q_rto :: duration
  q_seq :: u32
  q_flg :: u8
  q_data :: bytes

record tcp_pcb =
  t_state :: tcp_st
  t_mode :: tcp_mode
  t_local :: ip_endp
  t_remote :: ip_endp
  snd_nxt :: u32
  snd_una :: u32
  snd_wnd :: u16
  snd_up :: u16
  snd_wl1 :: u32
  snd_wl2 :: u32
  t_iss :: u32
  rcv_nxt :: u32
  rcv_wnd :: u16
  rcv_up :: u16
  t_irs :: u32
  t_mss :: u16
  t_buf :: bytes
  t_queue :: "tcp_queue_entry list"
  tw_timer :: duration
  parent_desc :: "nat option"
  t_backlog :: "nat list"
  backlog_max :: nat
  t_task :: nat

record tcp_state =
  tcp_host :: host
  tcp_pcbs :: "tcp_pcb option list"

definition tcp_pcb_empty :: "nat \<Rightarrow> tcp_pcb" where
  "tcp_pcb_empty t =
     \<lparr>t_state = Closed, t_mode = Rfc, t_local = ip_endp_new ip_any 0, t_remote = ip_endp_new ip_any 0,
      snd_nxt = 0, snd_una = 0, snd_wnd = 0, snd_up = 0, snd_wl1 = 0, snd_wl2 = 0, t_iss = 0,
      rcv_nxt = 0, rcv_wnd = 0, rcv_up = 0, t_irs = 0, t_mss = 0, t_buf = [], t_queue = [], tw_timer = 0,
      parent_desc = None, t_backlog = [], backlog_max = 0, t_task = t\<rparr>"

definition tcp_pcb_alloc :: "tcp_state \<Rightarrow> nat option \<times> tcp_state" where
  "tcp_pcb_alloc s =
     (case first_free (tcp_pcbs s) of
        Some i \<Rightarrow>
          let (t, h) = host_new_task (tcp_host s)
          in (Some i, s\<lparr>tcp_host := h, tcp_pcbs := (tcp_pcbs s)[i := Some (tcp_pcb_empty t)]\<rparr>)
      | None \<Rightarrow>
          if length (tcp_pcbs s) \<ge> TCP_PCB_SIZE_MAX then (None, s)
          else let (t, h) = host_new_task (tcp_host s)
               in (Some (length (tcp_pcbs s)),
                   s\<lparr>tcp_host := h, tcp_pcbs := tcp_pcbs s @ [Some (tcp_pcb_empty t)]\<rparr>))"

definition tcp_get :: "nat \<Rightarrow> tcp_state \<Rightarrow> tcp_pcb option" where
  "tcp_get desc s = slot_get (tcp_pcbs s) desc"

text \<open>Writing through \<open>pcb_get_mut\<close>, and freeing a slot.\<close>

definition tcp_mod :: "nat \<Rightarrow> (tcp_pcb \<Rightarrow> tcp_pcb) \<Rightarrow> tcp_state \<Rightarrow> tcp_state" where
  "tcp_mod desc f s =
     (case tcp_get desc s of
        None \<Rightarrow> s
      | Some p \<Rightarrow> s\<lparr>tcp_pcbs := (tcp_pcbs s)[desc := Some (f p)]\<rparr>)"

definition tcp_free :: "nat \<Rightarrow> tcp_state \<Rightarrow> tcp_state" where
  "tcp_free desc s = s\<lparr>tcp_pcbs := (tcp_pcbs s)[desc := None]\<rparr>"

definition tcp_panic :: "tcp_state \<Rightarrow> tcp_state" where
  "tcp_panic s = s\<lparr>tcp_host := host_panic (tcp_host s)\<rparr>"

definition tcp_notify :: "nat \<Rightarrow> tcp_state \<Rightarrow> tcp_state" where
  "tcp_notify desc s =
     (case tcp_get desc s of
        None \<Rightarrow> s | Some p \<Rightarrow> s\<lparr>tcp_host := host_notify (t_task p) (tcp_host s)\<rparr>)"

definition tcp_now :: "tcp_state \<Rightarrow> duration \<times> tcp_state" where
  "tcp_now s = (let (t, i) = ip_now (host_ip (tcp_host s))
     in (t, s\<lparr>tcp_host := (tcp_host s)\<lparr>host_ip := i\<rparr>\<rparr>))"

definition tcp_random32 :: "tcp_state \<Rightarrow> u32 \<times> tcp_state" where
  "tcp_random32 s = (let (r, i) = ip_random32 (host_ip (tcp_host s))
     in (r, s\<lparr>tcp_host := (tcp_host s)\<lparr>host_ip := i\<rparr>\<rparr>))"

definition transition :: "nat \<Rightarrow> tcp_st \<Rightarrow> tcp_state \<Rightarrow> tcp_state" where
  "transition desc new_state s = tcp_mod desc (\<lambda>p. p\<lparr>t_state := new_state\<rparr>) s"

section \<open>Sending\<close>

definition tcp_output_segment ::
  "u32 \<Rightarrow> u32 \<Rightarrow> u8 \<Rightarrow> u16 \<Rightarrow> bytes \<Rightarrow> ip_endp \<Rightarrow> ip_endp \<Rightarrow> tcp_state \<Rightarrow> nat result \<times> tcp_state" where
  "tcp_output_segment seq ack flg wnd data loc rem s =
     (let (r, h) = output_segment seq ack flg wnd data loc rem (tcp_host s)
      in (r, s\<lparr>tcp_host := h\<rparr>))"

definition retrans_queue_add :: "nat \<Rightarrow> u32 \<Rightarrow> u8 \<Rightarrow> bytes \<Rightarrow> tcp_state \<Rightarrow> tcp_state" where
  "retrans_queue_add desc seq flg data s =
     (let (t, s1) = tcp_now s
      in tcp_mod desc (\<lambda>p. p\<lparr>t_queue := t_queue p @
           [\<lparr>q_first = t, q_last = t, q_rto = TCP_DEFAULT_RTO, q_seq = seq, q_flg = flg,
             q_data = data\<rparr>]\<rparr>) s1)"

definition tcp_output :: "nat \<Rightarrow> u8 \<Rightarrow> bytes \<Rightarrow> tcp_state \<Rightarrow> nat result \<times> tcp_state" where
  "tcp_output desc flg data s =
     (case tcp_get desc s of
        None \<Rightarrow> (Err, tcp_panic s)
      | Some p \<Rightarrow>
          let seq = (if flag_isset flg TCP_FLG_SYN then t_iss p else snd_nxt p);
              s1 = (if flag_isset flg (TCP_FLG_SYN OR TCP_FLG_FIN) \<or> data \<noteq> []
                    then retrans_queue_add desc seq flg data s else s)
          in tcp_output_segment seq (rcv_nxt p) flg (rcv_wnd p) data (t_local p) (t_remote p) s1)"

section \<open>Retransmission\<close>

definition q_consume :: "tcp_queue_entry \<Rightarrow> u32" where
  "q_consume e = of_nat (length (q_data e)) +
     (if flag_isset (q_flg e) (TCP_FLG_SYN OR TCP_FLG_FIN) then 1 else 0)"

fun drop_acked :: "u32 \<Rightarrow> tcp_queue_entry list \<Rightarrow> tcp_queue_entry list" where
  "drop_acked una [] = []"
| "drop_acked una (e # q) = (if una < q_seq e + q_consume e then e # q else drop_acked una q)"

definition retrans_queue_cleanup :: "nat \<Rightarrow> tcp_state \<Rightarrow> tcp_state" where
  "retrans_queue_cleanup desc s =
     tcp_mod desc (\<lambda>p. p\<lparr>t_queue := drop_acked (snd_una p) (t_queue p)\<rparr>) s"

text \<open>The loop over the queue: every entry that is due is sent again and its timeout doubled.\<close>

fun emit_due ::
  "duration \<Rightarrow> tcp_pcb \<Rightarrow> tcp_queue_entry list \<Rightarrow> tcp_state \<Rightarrow> tcp_queue_entry list \<times> tcp_state" where
  "emit_due t p [] s = ([], s)"
| "emit_due t p (e # q) s =
     (if t \<ge> q_last e + q_rto e
      then let s1 = snd (tcp_output_segment (q_seq e) (rcv_nxt p) (q_flg e) (rcv_wnd p) (q_data e)
                           (t_local p) (t_remote p) s);
               (q', s2) = emit_due t p q s1
           in (e\<lparr>q_last := t, q_rto := q_rto e * 2\<rparr> # q', s2)
      else let (q', s1) = emit_due t p q s in (e # q', s1))"

definition retrans_emit :: "nat \<Rightarrow> tcp_state \<Rightarrow> tcp_state" where
  "retrans_emit desc s =
     (let (t, s1) = tcp_now s
      in case tcp_get desc s1 of
           None \<Rightarrow> s1
         | Some p \<Rightarrow>
             if \<exists>e \<in> set (t_queue p). t \<ge> q_first e + TCP_RETRANS_DEADLINE
             then tcp_notify desc (transition desc Closed s1)
             else let (q, s2) = emit_due t p (t_queue p) s1
                  in tcp_mod desc (\<lambda>p. p\<lparr>t_queue := q\<rparr>) s2)"

definition set_timewait_timer :: "nat \<Rightarrow> tcp_state \<Rightarrow> tcp_state" where
  "set_timewait_timer desc s =
     (let (t, s1) = tcp_now s in tcp_mod desc (\<lambda>p. p\<lparr>tw_timer := t + TCP_TIMEWAIT_SEC\<rparr>) s1)"

section \<open>Releasing a control block\<close>

text \<open>
  \<open>pcb_release\<close> tears down the queued connections of a listener first, and those may have a
  backlog of their own. Every nested call works on a table whose backlogs hold fewer entries
  altogether; \<open>pcb_release\<close> runs with that number as its fuel.
\<close>

definition total_backlog :: "tcp_state \<Rightarrow> nat" where
  "total_backlog s =
     sum_list (map (\<lambda>x. case x of None \<Rightarrow> 0 | Some p \<Rightarrow> length (t_backlog p)) (tcp_pcbs s))"

definition release_entry ::
  "(nat \<Rightarrow> tcp_state \<Rightarrow> unit result \<times> tcp_state) \<Rightarrow> nat \<Rightarrow> tcp_state \<Rightarrow> tcp_state" where
  "release_entry rel b s =
     (case tcp_get b s of
        None \<Rightarrow> s
      | Some q \<Rightarrow>
          let s1 = (if t_state q \<noteq> Closed
                    then transition b Closed (snd (tcp_output b TCP_FLG_RST [] s)) else s)
          in snd (rel b s1))"

definition release_body ::
  "(nat \<Rightarrow> tcp_state \<Rightarrow> unit result \<times> tcp_state) \<Rightarrow> nat \<Rightarrow> tcp_state \<Rightarrow> unit result \<times> tcp_state" where
  "release_body rel desc s =
     (case tcp_get desc s of
        None \<Rightarrow> (Err, s)
      | Some p \<Rightarrow>
          let s1 = tcp_mod desc (\<lambda>p. p\<lparr>t_backlog := []\<rparr>) s;
              s2 = fold (release_entry rel) (t_backlog p) s1
          in case tcp_get desc s2 of
               None \<Rightarrow> (Err, s2)
             | Some p' \<Rightarrow>
                 let s3 = tcp_free desc s2
                 in (Ok (), s3\<lparr>tcp_host := host_notify (t_task p') (tcp_host s3)\<rparr>))"

primrec release_fuel :: "nat \<Rightarrow> nat \<Rightarrow> tcp_state \<Rightarrow> unit result \<times> tcp_state" where
  "release_fuel 0 = (\<lambda>desc s. (Err, s))"
| "release_fuel (Suc n) = release_body (release_fuel n)"

definition tcp_pcb_release :: "nat \<Rightarrow> tcp_state \<Rightarrow> unit result \<times> tcp_state" where
  "tcp_pcb_release desc s = release_fuel (Suc (total_backlog s)) desc s"

section \<open>Timer\<close>

definition on_timer_desc :: "duration \<Rightarrow> nat \<Rightarrow> tcp_state \<Rightarrow> tcp_state" where
  "on_timer_desc t desc s =
     (case tcp_get desc s of
        None \<Rightarrow> s
      | Some p \<Rightarrow>
          if t_state p = TimeWait \<and> t > tw_timer p
          then snd (tcp_pcb_release desc (transition desc Closed s))
          else retrans_emit desc s)"

definition tcp_on_timer :: "tcp_state \<Rightarrow> tcp_state" where
  "tcp_on_timer s =
     (let (t, s1) = tcp_now s in fold (on_timer_desc t) [0..<length (tcp_pcbs s1)] s1)"

section \<open>Selecting a control block\<close>

definition endp_none :: "ip_endp \<Rightarrow> bool" where
  "endp_none e \<longleftrightarrow> addr e = ip_any \<and> port e = 0"

definition tcp_match :: "ip_endp \<Rightarrow> ip_endp \<Rightarrow> tcp_pcb \<Rightarrow> bool" where
  "tcp_match loc rem p \<longleftrightarrow> port (t_local p) = port loc \<and>
     (addr (t_local p) = addr loc \<or> addr (t_local p) = ip_any \<or> addr loc \<noteq> ip_any) \<and>
     ((addr (t_remote p) = addr rem \<and> port (t_remote p) = port rem) \<or> endp_none (t_remote p) \<or>
      endp_none rem)"

fun tcp_select_loop ::
  "ip_endp \<Rightarrow> ip_endp \<Rightarrow> nat \<Rightarrow> tcp_pcb option list \<Rightarrow> nat option \<Rightarrow> nat option" where
  "tcp_select_loop loc rem i [] candidate = candidate"
| "tcp_select_loop loc rem i (None # t) candidate = tcp_select_loop loc rem (Suc i) t candidate"
| "tcp_select_loop loc rem i (Some p # t) candidate =
     (if \<not> tcp_match loc rem p then tcp_select_loop loc rem (Suc i) t candidate
      else if t_state p \<noteq> Listen then Some i
      else tcp_select_loop loc rem (Suc i) t (Some i))"

definition tcp_pcb_select :: "ip_endp \<Rightarrow> ip_endp \<Rightarrow> tcp_state \<Rightarrow> nat option" where
  "tcp_pcb_select loc rem s = tcp_select_loop loc rem 0 (tcp_pcbs s) None"

end
