(* ===== verification/Tcp_Input.thy ===== *)
theory Tcp_Input
  imports Tcp
begin

text \<open>
  The processing of arriving segments in \<^verbatim>\<open>src/src/tcp.rs\<close>: \<open>segment_arrives\<close>, one definition for
  each of its sections, and \<open>input\<close>. A section either finishes (\<open>Done\<close>, an early return of the
  code) or lets the next section continue (\<open>Next\<close>).
\<close>

datatype 'a section_result = Done tcp_state | Next 'a tcp_state

section \<open>No connection\<close>

definition seg_closed :: "seg_info \<Rightarrow> u8 \<Rightarrow> ip_endp \<Rightarrow> ip_endp \<Rightarrow> tcp_state \<Rightarrow> tcp_state" where
  "seg_closed seg flags loc rem s =
     (if flag_isset flags TCP_FLG_RST then s
      else if \<not> flag_isset flags TCP_FLG_ACK
      then snd (tcp_output_segment 0 (seg_seq seg + seg_len seg) (TCP_FLG_RST OR TCP_FLG_ACK) 0 []
                  loc rem s)
      else snd (tcp_output_segment (seg_ack seg) 0 TCP_FLG_RST 0 [] loc rem s))"

section \<open>Listen\<close>

text \<open>
  The control block a connection request gets: a new one in socket mode, else the listening one.
\<close>

definition listen_target :: "nat \<Rightarrow> tcp_pcb \<Rightarrow> tcp_state \<Rightarrow> nat option \<times> tcp_state" where
  "listen_target desc p s =
     (if t_mode p = Socket
      then if length (t_backlog p) \<ge> backlog_max p then (None, s)
           else case tcp_pcb_alloc s of
             (None, s1) \<Rightarrow> (None, s1)
           | (Some d, s1) \<Rightarrow> (Some d, tcp_mod d (\<lambda>q. q\<lparr>parent_desc := Some desc\<rparr>) s1)
      else (Some desc, s))"

definition syn_received :: "nat \<Rightarrow> seg_info \<Rightarrow> ip_endp \<Rightarrow> ip_endp \<Rightarrow> tcp_state \<Rightarrow> tcp_state" where
  "syn_received target seg loc rem s =
     (let s1 = tcp_mod target (\<lambda>p. p\<lparr>t_local := loc, t_remote := rem,
                 rcv_wnd := of_nat RECV_BUF_SIZE, rcv_nxt := seg_seq seg + 1, t_irs := seg_seq seg\<rparr>) s;
          (r, s2) = tcp_random32 s1;
          s3 = tcp_mod target (\<lambda>p. p\<lparr>t_iss := r\<rparr>) s2;
          s4 = snd (tcp_output target (TCP_FLG_SYN OR TCP_FLG_ACK) [] s3);
          s5 = tcp_mod target (\<lambda>p. p\<lparr>snd_nxt := t_iss p + 1, snd_una := t_iss p\<rparr>) s4
      in transition target SynReceived s5)"

definition seg_listen ::
  "nat \<Rightarrow> tcp_pcb \<Rightarrow> seg_info \<Rightarrow> u8 \<Rightarrow> ip_endp \<Rightarrow> ip_endp \<Rightarrow> tcp_state \<Rightarrow> tcp_state" where
  "seg_listen desc p seg flags loc rem s =
     (if flag_isset flags TCP_FLG_RST then s
      else if flag_isset flags TCP_FLG_ACK
      then snd (tcp_output_segment (seg_ack seg) 0 TCP_FLG_RST 0 [] loc rem s)
      else if flag_isset flags TCP_FLG_SYN
      then (case listen_target desc p s of
              (None, s1) \<Rightarrow> s1
            | (Some target, s1) \<Rightarrow> syn_received target seg loc rem s1)
      else s)"

section \<open>Syn sent\<close>

definition syn_sent_established :: "nat \<Rightarrow> seg_info \<Rightarrow> tcp_state \<Rightarrow> tcp_state" where
  "syn_sent_established desc seg s =
     (let s1 = transition desc Established s;
          s2 = snd (tcp_output desc TCP_FLG_ACK [] s1);
          s3 = tcp_mod desc (\<lambda>p. p\<lparr>snd_wnd := seg_wnd seg, snd_wl1 := seg_seq seg,
                                    snd_wl2 := seg_ack seg\<rparr>) s2
      in tcp_notify desc s3)"

definition seg_syn_sent ::
  "nat \<Rightarrow> tcp_pcb \<Rightarrow> seg_info \<Rightarrow> u8 \<Rightarrow> ip_endp \<Rightarrow> ip_endp \<Rightarrow> tcp_state \<Rightarrow> tcp_state" where
  "seg_syn_sent desc p seg flags loc rem s =
     (let has_ack = flag_isset flags TCP_FLG_ACK
      in if has_ack \<and> (seg_ack seg \<le> t_iss p \<or> seg_ack seg > snd_nxt p)
         then snd (tcp_output_segment (seg_ack seg) 0 TCP_FLG_RST 0 [] loc rem s)
         else let acceptable = (has_ack \<and> snd_una p \<le> seg_ack seg \<and> seg_ack seg \<le> snd_nxt p)
              in if flag_isset flags TCP_FLG_RST
                 then if acceptable then snd (tcp_pcb_release desc (transition desc Closed s)) else s
                 else if flag_isset flags TCP_FLG_SYN
                 then let s1 = tcp_mod desc (\<lambda>p. p\<lparr>rcv_nxt := seg_seq seg + 1, t_irs := seg_seq seg\<rparr>) s;
                          s2 = (if acceptable
                                then retrans_queue_cleanup desc
                                       (tcp_mod desc (\<lambda>p. p\<lparr>snd_una := seg_ack seg\<rparr>) s1)
                                else s1);
                          una = (if acceptable then seg_ack seg else snd_una p)
                      in if una > t_iss p then syn_sent_established desc seg s2
                         else snd (tcp_output desc (TCP_FLG_SYN OR TCP_FLG_ACK) []
                                     (transition desc SynReceived s2))
                 else s)"

section \<open>Sequence number, reset and synchronise\<close>

definition seg_acceptable :: "tcp_pcb \<Rightarrow> seg_info \<Rightarrow> bool" where
  "seg_acceptable p seg =
     (let nxt_plus_wnd = rcv_nxt p + ucast (rcv_wnd p)
      in if seg_len seg = 0
         then if rcv_wnd p = 0 then seg_seq seg = rcv_nxt p
              else rcv_nxt p \<le> seg_seq seg \<and> seg_seq seg < nxt_plus_wnd
         else if rcv_wnd p = 0 then False
         else let end_seq = seg_seq seg + seg_len seg - 1
              in (rcv_nxt p \<le> seg_seq seg \<and> seg_seq seg < nxt_plus_wnd) \<or>
                 (rcv_nxt p \<le> end_seq \<and> end_seq < nxt_plus_wnd))"

definition seg_check ::
  "nat \<Rightarrow> tcp_pcb \<Rightarrow> seg_info \<Rightarrow> u8 \<Rightarrow> tcp_state \<Rightarrow> unit section_result" where
  "seg_check desc p seg flags s =
     (if \<not> seg_acceptable p seg
      then Done (if \<not> flag_isset flags TCP_FLG_RST then snd (tcp_output desc TCP_FLG_ACK [] s) else s)
      else if flag_isset flags TCP_FLG_RST
      then Done (if t_state p \<in> {SynReceived, Closing, LastAck, TimeWait}
                 then snd (tcp_pcb_release desc (transition desc Closed s))
                 else if t_state p \<in> {Established, FinWait1, FinWait2, CloseWait}
                 then snd (tcp_pcb_release desc (transition desc Closed s))
                 else s)
      else if flag_isset flags TCP_FLG_SYN
      then Done (snd (tcp_pcb_release desc (transition desc Closed
                   (snd (tcp_output desc TCP_FLG_RST [] s)))))
      else if \<not> flag_isset flags TCP_FLG_ACK then Done s
      else Next () s)"

section \<open>Acknowledgment\<close>

text \<open>
  The first part completes the handshake of a connection in \<open>SynReceived\<close>; the value passed on is
  the listener to notify.
\<close>

definition seg_ack_syn_received ::
  "nat \<Rightarrow> tcp_pcb \<Rightarrow> seg_info \<Rightarrow> ip_endp \<Rightarrow> ip_endp \<Rightarrow> tcp_state \<Rightarrow> nat option section_result" where
  "seg_ack_syn_received desc p seg loc rem s =
     (if t_state p = SynReceived
      then if snd_una p \<le> seg_ack seg \<and> seg_ack seg \<le> snd_nxt p
           then Next (parent_desc p) (tcp_notify desc (transition desc Established s))
           else Done (snd (tcp_output_segment (seg_ack seg) 0 TCP_FLG_RST 0 [] loc rem s))
      else Next None s)"

definition ack_update :: "nat \<Rightarrow> tcp_pcb \<Rightarrow> seg_info \<Rightarrow> tcp_state \<Rightarrow> unit section_result" where
  "ack_update desc p seg s =
     (if snd_una p < seg_ack seg \<and> seg_ack seg \<le> snd_nxt p
      then let s1 = retrans_queue_cleanup desc (tcp_mod desc (\<lambda>p. p\<lparr>snd_una := seg_ack seg\<rparr>) s)
           in Next () (if snd_wl1 p < seg_seq seg \<or> (snd_wl1 p = seg_seq seg \<and> snd_wl2 p \<le> seg_ack seg)
                       then tcp_mod desc (\<lambda>p. p\<lparr>snd_wnd := seg_wnd seg, snd_wl1 := seg_seq seg,
                                                 snd_wl2 := seg_ack seg\<rparr>) s1
                       else s1)
      else if seg_ack seg < snd_una p then Next () s
      else if snd_nxt p < seg_ack seg then Done (snd (tcp_output desc TCP_FLG_ACK [] s))
      else Next () s)"

definition seg_ack_states ::
  "nat \<Rightarrow> tcp_pcb \<Rightarrow> seg_info \<Rightarrow> u8 \<Rightarrow> tcp_state \<Rightarrow> unit section_result" where
  "seg_ack_states desc p seg flags s =
     (if t_state p \<in> {Established, CloseWait, FinWait1, FinWait2}
      then (case ack_update desc p seg s of
              Done s1 \<Rightarrow> Done s1
            | Next _ s1 \<Rightarrow> Next () (if t_state p = FinWait1 \<and> seg_ack seg = snd_nxt p
                                   then transition desc FinWait2 s1 else s1))
      else if t_state p = Closing
      then Next () (if seg_ack seg = snd_nxt p
                    then tcp_notify desc (set_timewait_timer desc (transition desc TimeWait s)) else s)
      else if t_state p = LastAck
      then Done (if seg_ack seg = snd_nxt p
                 then snd (tcp_pcb_release desc (transition desc Closed s)) else s)
      else if t_state p = TimeWait
      then Next () (if flag_isset flags TCP_FLG_FIN then set_timewait_timer desc s else s)
      else Next () s)"

definition notify_parent :: "nat \<Rightarrow> nat option \<Rightarrow> tcp_state \<Rightarrow> tcp_state" where
  "notify_parent desc parent s =
     (case parent of
        None \<Rightarrow> s
      | Some d \<Rightarrow>
          (case tcp_get d s of
             None \<Rightarrow> s
           | Some _ \<Rightarrow> tcp_notify d (tcp_mod d (\<lambda>p. p\<lparr>t_backlog := t_backlog p @ [desc]\<rparr>) s)))"

section \<open>Text and finish\<close>

definition seg_text ::
  "nat \<Rightarrow> tcp_pcb \<Rightarrow> seg_info \<Rightarrow> bytes \<Rightarrow> tcp_state \<Rightarrow> unit section_result" where
  "seg_text desc p seg data s =
     (if t_state p \<in> {Established, FinWait1, FinWait2} \<and> data \<noteq> []
      then if rcv_nxt p \<noteq> seg_seq seg \<or> unat (rcv_wnd p) < length data
           then Done (snd (tcp_output desc TCP_FLG_ACK [] s))
           else let s1 = tcp_mod desc (\<lambda>p. p\<lparr>t_buf := t_buf p @ data,
                           rcv_nxt := seg_seq seg + of_nat (length data),
                           rcv_wnd := rcv_wnd p - of_nat (length data)\<rparr>) s
                in Next () (tcp_notify desc (snd (tcp_output desc TCP_FLG_ACK [] s1)))
      else Next () s)"

definition seg_fin :: "nat \<Rightarrow> tcp_pcb \<Rightarrow> seg_info \<Rightarrow> u8 \<Rightarrow> tcp_state \<Rightarrow> tcp_state" where
  "seg_fin desc p seg flags s =
     (if flag_isset flags TCP_FLG_FIN
      then if t_state p \<in> {Closed, Listen} then s
           else let s1 = tcp_mod desc (\<lambda>p. p\<lparr>rcv_nxt := seg_seq seg + 1\<rparr>) s;
                    s2 = snd (tcp_output desc TCP_FLG_ACK [] s1)
                in case t_state p of
                     SynReceived \<Rightarrow> tcp_notify desc (transition desc CloseWait s2)
                   | Established \<Rightarrow> tcp_notify desc (transition desc CloseWait s2)
                   | FinWait1 \<Rightarrow>
                       if seg_ack seg = snd_nxt p
                       then set_timewait_timer desc (transition desc TimeWait s2)
                       else transition desc Closing s2
                   | FinWait2 \<Rightarrow> set_timewait_timer desc (transition desc TimeWait s2)
                   | _ \<Rightarrow> s2
      else s)"

section \<open>Segment arrives\<close>

text \<open>\<open>pcbs[desc].as_mut().unwrap()\<close> in front of a section.\<close>

definition with_pcb :: "nat \<Rightarrow> (tcp_pcb \<Rightarrow> tcp_state \<Rightarrow> 'a section_result) \<Rightarrow> tcp_state \<Rightarrow> 'a section_result" where
  "with_pcb desc f s = (case tcp_get desc s of None \<Rightarrow> Done (tcp_panic s) | Some p \<Rightarrow> f p s)"

definition section_then ::
  "'a section_result \<Rightarrow> ('a \<Rightarrow> tcp_state \<Rightarrow> 'b section_result) \<Rightarrow> 'b section_result" where
  "section_then r f = (case r of Done s \<Rightarrow> Done s | Next a s \<Rightarrow> f a s)"

fun section_state :: "'a section_result \<Rightarrow> tcp_state" where
  "section_state (Done s) = s"
| "section_state (Next _ s) = s"

definition seg_synchronized ::
  "nat \<Rightarrow> seg_info \<Rightarrow> u8 \<Rightarrow> bytes \<Rightarrow> ip_endp \<Rightarrow> ip_endp \<Rightarrow> tcp_state \<Rightarrow> tcp_state" where
  "seg_synchronized desc seg flags data loc rem s =
     section_state
       (section_then (with_pcb desc (\<lambda>p. seg_check desc p seg flags) s) (\<lambda>_ s1.
        section_then (with_pcb desc (\<lambda>p. seg_ack_syn_received desc p seg loc rem) s1) (\<lambda>parent s2.
        section_then (with_pcb desc (\<lambda>p. seg_ack_states desc p seg flags) s2) (\<lambda>_ s3.
        section_then (with_pcb desc (\<lambda>p. seg_text desc p seg data) (notify_parent desc parent s3)) (\<lambda>_ s4.
        with_pcb desc (\<lambda>p s. (Done (seg_fin desc p seg flags s) :: unit section_result)) s4)))))"

definition segment_arrives ::
  "seg_info \<Rightarrow> u8 \<Rightarrow> bytes \<Rightarrow> ip_endp \<Rightarrow> ip_endp \<Rightarrow> tcp_state \<Rightarrow> tcp_state" where
  "segment_arrives seg flags data loc rem s =
     (case tcp_pcb_select loc rem s of
        None \<Rightarrow> seg_closed seg flags loc rem s
      | Some desc \<Rightarrow>
          (case tcp_get desc s of
             None \<Rightarrow> tcp_panic s
           | Some p \<Rightarrow>
               (case t_state p of
                  Closed \<Rightarrow> seg_closed seg flags loc rem s
                | Listen \<Rightarrow> seg_listen desc p seg flags loc rem s
                | SynSent \<Rightarrow> seg_syn_sent desc p seg flags loc rem s
                | _ \<Rightarrow> seg_synchronized desc seg flags data loc rem s)))"

section \<open>Input\<close>

definition tcp_seg_info :: "bytes \<Rightarrow> seg_info" where
  "tcp_seg_info data =
     (let len = of_nat (length data - tcp_hlen data) :: u32;
          len = (if flag_isset (tcp_flg data) TCP_FLG_SYN then len + 1 else len);
          len = (if flag_isset (tcp_flg data) TCP_FLG_FIN then len + 1 else len)
      in \<lparr>seg_seq = tcp_seq data, seg_ack = tcp_ack data, seg_len = len, seg_wnd = tcp_wnd data,
          seg_up = tcp_up data\<rparr>)"

definition tcp_input :: "bytes \<Rightarrow> bytes \<Rightarrow> ip_iface \<Rightarrow> tcp_state \<Rightarrow> tcp_state" where
  "tcp_input hdr data iface s =
     (if length data < TCP_HDR_SIZE then s
      else if cksum16 data (cksum_init (build_pseudo_header IP_PROTOCOL_TCP (ip_src hdr) (ip_dst hdr)
                (of_nat (length data)))) \<noteq> 0 then s
      else let src = ip_endp_new (ip_src hdr) (tcp_src data);
               dst = ip_endp_new (ip_dst hdr) (tcp_dst data)
           in if ip_src hdr = ip_broadcast \<or> ip_src hdr = if_broadcast iface \<or>
                 ip_dst hdr = ip_broadcast \<or> ip_dst hdr = if_broadcast iface then s
              else if is_err (tcp_print data) then tcp_panic s
              else segment_arrives (tcp_seg_info data) (tcp_flg data) (drop (tcp_hlen data) data)
                     dst src s)"

end
