(* ===== verification/Tcp_Props.thy ===== *)
theory Tcp_Props
  imports Tcp
begin

text \<open>
  Facts on the operations that all of TCP is built from: what each of them does to every slot of
  the table and to the tasks; the table contract; \<open>pcb_release\<close> as the recursion of the code with
  its termination; the selection of a control block; retransmission.
\<close>

section \<open>Effect of the basic operations on the slots\<close>

lemma tcp_get_mod [simp]:
  "tcp_get e (tcp_mod d f s) = (if e = d then map_option f (tcp_get d s) else tcp_get e s)"
  by (auto simp: tcp_get_def tcp_mod_def dest: slot_get_SomeD split: option.splits)

lemma tcp_get_host [simp]: "tcp_get e (s\<lparr>tcp_host := h\<rparr>) = tcp_get e s"
  by (simp add: tcp_get_def)

lemma tcp_get_free [simp]: "tcp_get e (tcp_free d s) = (if e = d then None else tcp_get e s)"
  by (auto simp: tcp_get_def tcp_free_def slot_get_def)

lemma tcp_get_notify [simp]: "tcp_get e (tcp_notify d s) = tcp_get e s"
  by (simp add: tcp_notify_def split: option.splits)

lemma tcp_get_panic [simp]: "tcp_get e (tcp_panic s) = tcp_get e s"
  by (simp add: tcp_panic_def)

lemma tcp_get_now [simp]: "tcp_get e (snd (tcp_now s)) = tcp_get e s"
  by (simp add: tcp_now_def case_prod_beta)

lemma tcp_get_random32 [simp]: "tcp_get e (snd (tcp_random32 s)) = tcp_get e s"
  by (simp add: tcp_random32_def case_prod_beta)

lemma tcp_get_transition [simp]:
  "tcp_get e (transition d st s) =
     (if e = d then map_option (\<lambda>p. p\<lparr>t_state := st\<rparr>) (tcp_get d s) else tcp_get e s)"
  by (simp add: transition_def)

lemma tcp_get_segment [simp]:
  "tcp_get e (snd (tcp_output_segment seq ack flg wnd data loc rem s)) = tcp_get e s"
  by (simp add: tcp_output_segment_def case_prod_beta)

lemma tcp_get_cleanup [simp]:
  "tcp_get e (retrans_queue_cleanup d s) =
     (if e = d then map_option (\<lambda>p. p\<lparr>t_queue := drop_acked (snd_una p) (t_queue p)\<rparr>) (tcp_get d s)
      else tcp_get e s)"
  by (simp add: retrans_queue_cleanup_def)

lemma tcp_get_timewait [simp]:
  "tcp_get e (set_timewait_timer d s) =
     (if e = d then map_option (\<lambda>p. p\<lparr>tw_timer := fst (tcp_now s) + TCP_TIMEWAIT_SEC\<rparr>) (tcp_get d s)
      else tcp_get e s)"
  by (simp add: set_timewait_timer_def case_prod_beta Let_def)

text \<open>What \<open>output\<close> leaves in the control block: an entry for everything that occupies sequence space.\<close>

definition takes_sequence :: "u8 \<Rightarrow> bytes \<Rightarrow> bool" where
  "takes_sequence flg data \<longleftrightarrow> flag_isset flg (TCP_FLG_SYN OR TCP_FLG_FIN) \<or> data \<noteq> []"

definition output_seq :: "u8 \<Rightarrow> tcp_pcb \<Rightarrow> u32" where
  "output_seq flg p = (if flag_isset flg TCP_FLG_SYN then t_iss p else snd_nxt p)"

definition queued :: "duration \<Rightarrow> u8 \<Rightarrow> bytes \<Rightarrow> tcp_pcb \<Rightarrow> tcp_pcb" where
  "queued t flg data p =
     (if takes_sequence flg data
      then p\<lparr>t_queue := t_queue p @ [\<lparr>q_first = t, q_last = t, q_rto = TCP_DEFAULT_RTO,
             q_seq = output_seq flg p, q_flg = flg, q_data = data\<rparr>]\<rparr>
      else p)"

lemma queued_simps [simp]:
  "t_state (queued t flg data p) = t_state p" "t_mode (queued t flg data p) = t_mode p"
  "t_local (queued t flg data p) = t_local p" "t_remote (queued t flg data p) = t_remote p"
  "snd_nxt (queued t flg data p) = snd_nxt p" "snd_una (queued t flg data p) = snd_una p"
  "snd_wnd (queued t flg data p) = snd_wnd p" "t_iss (queued t flg data p) = t_iss p"
  "rcv_nxt (queued t flg data p) = rcv_nxt p" "rcv_wnd (queued t flg data p) = rcv_wnd p"
  "t_mss (queued t flg data p) = t_mss p" "t_buf (queued t flg data p) = t_buf p"
  "parent_desc (queued t flg data p) = parent_desc p" "t_backlog (queued t flg data p) = t_backlog p"
  "backlog_max (queued t flg data p) = backlog_max p" "t_task (queued t flg data p) = t_task p"
  by (simp_all add: queued_def)

lemma queued_control: "\<not> flag_isset flg (TCP_FLG_SYN OR TCP_FLG_FIN) \<Longrightarrow> queued t flg [] p = p"
  by (simp add: queued_def takes_sequence_def)

lemma plain_flags [simp]:
  "\<not> flag_isset TCP_FLG_ACK (TCP_FLG_SYN OR TCP_FLG_FIN)"
  "\<not> flag_isset TCP_FLG_RST (TCP_FLG_SYN OR TCP_FLG_FIN)"
  "\<not> flag_isset TCP_FLG_ACK TCP_FLG_SYN" "\<not> flag_isset TCP_FLG_RST TCP_FLG_SYN"
  "\<not> flag_isset (TCP_FLG_ACK OR TCP_FLG_PSH) TCP_FLG_SYN"
  "\<not> flag_isset (TCP_FLG_ACK OR TCP_FLG_FIN) TCP_FLG_SYN"
  "flag_isset (TCP_FLG_ACK OR TCP_FLG_FIN) (TCP_FLG_SYN OR TCP_FLG_FIN)"
  "flag_isset TCP_FLG_SYN TCP_FLG_SYN" "flag_isset (TCP_FLG_SYN OR TCP_FLG_ACK) TCP_FLG_SYN"
  by (simp_all add: flag_isset_def tcp_flags)

lemma tcp_get_output [simp]:
  "tcp_get e (snd (tcp_output d flg data s)) =
     (if e = d then map_option (queued (fst (tcp_now s)) flg data) (tcp_get d s) else tcp_get e s)"
  by (auto simp: tcp_output_def retrans_queue_add_def queued_def takes_sequence_def output_seq_def
      case_prod_beta Let_def split: option.splits)

section \<open>Effect on the length of the table and on the tasks\<close>

lemma length_pcbs [simp]:
  "length (tcp_pcbs (tcp_mod d f s)) = length (tcp_pcbs s)"
  "length (tcp_pcbs (tcp_free d s)) = length (tcp_pcbs s)"
  "length (tcp_pcbs (tcp_notify d s)) = length (tcp_pcbs s)"
  "length (tcp_pcbs (tcp_panic s)) = length (tcp_pcbs s)"
  "length (tcp_pcbs (snd (tcp_now s))) = length (tcp_pcbs s)"
  "length (tcp_pcbs (snd (tcp_random32 s))) = length (tcp_pcbs s)"
  "length (tcp_pcbs (transition d st s)) = length (tcp_pcbs s)"
  "length (tcp_pcbs (snd (tcp_output_segment seq ack flg wnd data loc rem s))) = length (tcp_pcbs s)"
  "length (tcp_pcbs (retrans_queue_cleanup d s)) = length (tcp_pcbs s)"
  "length (tcp_pcbs (set_timewait_timer d s)) = length (tcp_pcbs s)"
  by (simp_all add: tcp_mod_def tcp_free_def tcp_notify_def tcp_panic_def tcp_now_def
      tcp_random32_def transition_def tcp_output_segment_def retrans_queue_cleanup_def
      set_timewait_timer_def case_prod_beta Let_def split: option.splits)

lemma length_pcbs_output [simp]: "length (tcp_pcbs (snd (tcp_output d flg data s))) = length (tcp_pcbs s)"
  by (simp add: tcp_output_def retrans_queue_add_def case_prod_beta Let_def split: option.splits)

abbreviation tcp_tasks :: "tcp_state \<Rightarrow> tasks" where
  "tcp_tasks s \<equiv> host_tasks (tcp_host s)"

lemma tcp_mod_host [simp]: "tcp_host (tcp_mod d f s) = tcp_host s"
  by (simp add: tcp_mod_def split: option.splits)

lemma tcp_free_host [simp]: "tcp_host (tcp_free d s) = tcp_host s"
  by (simp add: tcp_free_def)

lemma transition_host [simp]: "tcp_host (transition d st s) = tcp_host s"
  by (simp add: transition_def)

lemma cleanup_host [simp]: "tcp_host (retrans_queue_cleanup d s) = tcp_host s"
  by (simp add: retrans_queue_cleanup_def)

lemma tasks_same [simp]:
  "tcp_tasks (tcp_panic s) = tcp_tasks s"
  "tcp_tasks (snd (tcp_now s)) = tcp_tasks s"
  "tcp_tasks (snd (tcp_random32 s)) = tcp_tasks s"
  "tcp_tasks (snd (tcp_output_segment seq ack flg wnd data loc rem s)) = tcp_tasks s"
  "tcp_tasks (set_timewait_timer d s) = tcp_tasks s"
  by (simp_all add: tcp_panic_def tcp_now_def tcp_random32_def tcp_output_segment_def
      set_timewait_timer_def case_prod_beta Let_def)

lemma tasks_output [simp]: "tcp_tasks (snd (tcp_output d flg data s)) = tcp_tasks s"
  by (simp add: tcp_output_def retrans_queue_add_def case_prod_beta Let_def split: option.splits)

lemma tasks_notify [simp]:
  "tcp_tasks (tcp_notify d s) =
     (case tcp_get d s of None \<Rightarrow> tcp_tasks s | Some p \<Rightarrow> task_notify (t_task p) (tcp_tasks s))"
  by (simp add: tcp_notify_def host_notify_def split: option.splits)

section \<open>Allocation\<close>

interpretation tcp_tab: slot_table tcp_pcbs
  "\<lambda>s. tcp_pcb_empty (length (tcp_tasks s))" tcp_pcb_alloc TCP_PCB_SIZE_MAX
  by unfold_locales (simp_all add: tcp_pcb_alloc_def case_prod_beta Let_def)

lemma tcp_alloc_get:
  "fst (tcp_pcb_alloc s) = Some d \<Longrightarrow> tcp_get e (snd (tcp_pcb_alloc s)) =
     (if e = d then Some (tcp_pcb_empty (length (tcp_tasks s))) else tcp_get e s)"
  unfolding tcp_get_def by (rule tcp_tab.alloc_slot(2))

lemma tcp_alloc_free: "fst (tcp_pcb_alloc s) = Some d \<Longrightarrow> tcp_get d s = None"
  unfolding tcp_get_def by (rule tcp_tab.alloc_slot(1))

lemma tcp_alloc_None: "fst (tcp_pcb_alloc s) = None \<Longrightarrow> snd (tcp_pcb_alloc s) = s"
  by (auto simp: tcp_pcb_alloc_def case_prod_beta Let_def split: option.splits if_splits)

lemma tcp_alloc_tasks:
  "tcp_tasks (snd (tcp_pcb_alloc s)) =
     tcp_tasks s @ (if fst (tcp_pcb_alloc s) = None then [] else [task_init])"
  by (auto simp: tcp_pcb_alloc_def case_prod_beta Let_def split: option.splits)

section \<open>Releasing\<close>

definition slot_backlog :: "tcp_pcb option \<Rightarrow> nat" where
  "slot_backlog x = (case x of None \<Rightarrow> 0 | Some p \<Rightarrow> length (t_backlog p))"

lemma total_backlog_slots: "total_backlog s = sum_list (map slot_backlog (tcp_pcbs s))"
  unfolding total_backlog_def slot_backlog_def [abs_def] ..

lemma total_backlog_update:
  assumes "d < length (tcp_pcbs s)"
  shows "total_backlog (s\<lparr>tcp_pcbs := (tcp_pcbs s)[d := x]\<rparr>) + slot_backlog (tcp_pcbs s ! d) =
    total_backlog s + slot_backlog x"
proof -
  have "slot_backlog (tcp_pcbs s ! d) \<le> sum_list (map slot_backlog (tcp_pcbs s))"
    using assms by (intro member_le_sum_list) auto
  then show ?thesis
    using assms by (simp add: total_backlog_slots map_update sum_list_update)
qed

lemma total_backlog_mod:
  "tcp_get d s = Some p \<Longrightarrow>
     total_backlog (tcp_mod d f s) + length (t_backlog p) = total_backlog s + length (t_backlog (f p))"
  using total_backlog_update [of d s "Some (f p)"]
  by (auto simp: tcp_mod_def tcp_get_def slot_backlog_def dest: slot_get_SomeD)

lemma total_backlog_mod_same:
  "(\<And>p. t_backlog (f p) = t_backlog p) \<Longrightarrow> total_backlog (tcp_mod d f s) = total_backlog s"
  using total_backlog_mod [of d s _ f] by (cases "tcp_get d s") (auto simp: tcp_mod_def)

lemma total_backlog_host [simp]: "total_backlog (s\<lparr>tcp_host := h\<rparr>) = total_backlog s"
  by (simp add: total_backlog_def)

lemma total_backlog_transition [simp]: "total_backlog (transition d st s) = total_backlog s"
  by (simp add: transition_def total_backlog_mod_same)

lemma total_backlog_output [simp]: "total_backlog (snd (tcp_output d flg data s)) = total_backlog s"
  by (simp add: tcp_output_def retrans_queue_add_def tcp_output_segment_def tcp_now_def tcp_panic_def
      case_prod_beta Let_def total_backlog_mod_same split: option.splits)

lemma total_backlog_free: "total_backlog (tcp_free d s) \<le> total_backlog s"
proof (cases "d < length (tcp_pcbs s)")
  case True
  then show ?thesis
    using total_backlog_update [OF True, of None] by (simp add: tcp_free_def slot_backlog_def)
qed (simp add: tcp_free_def total_backlog_def list_update_beyond)

text \<open>A release never adds backlog entries.\<close>

lemma fold_total:
  assumes "\<And>b s. total_backlog (g b s) \<le> total_backlog s"
  shows "total_backlog (fold g bs s) \<le> total_backlog s"
  using assms by (induction bs arbitrary: s) (auto intro: order_trans)

lemma release_entry_total:
  assumes "\<And>b s. total_backlog (snd (rel b s)) \<le> total_backlog s"
  shows "total_backlog (release_entry rel b s) \<le> total_backlog s"
  using assms [of b s] assms [of b "transition b Closed (snd (tcp_output b TCP_FLG_RST [] s))"]
  by (simp add: release_entry_def Let_def split: option.splits)

lemma release_body_total:
  assumes "\<And>b s. total_backlog (snd (rel b s)) \<le> total_backlog s"
  shows "total_backlog (snd (release_body rel d s)) \<le> total_backlog s"
proof (cases "tcp_get d s")
  case (Some p)
  let ?s1 = "tcp_mod d (\<lambda>p. p\<lparr>t_backlog := []\<rparr>) s"
  let ?s2 = "fold (release_entry rel) (t_backlog p) ?s1"
  have "total_backlog ?s2 \<le> total_backlog ?s1"
    using release_entry_total [OF assms] by (rule fold_total)
  moreover have "total_backlog ?s1 \<le> total_backlog s"
    using total_backlog_mod [OF Some, of "\<lambda>p. p\<lparr>t_backlog := []\<rparr>"] by simp
  ultimately show ?thesis
    using Some total_backlog_free [of d ?s2]
    by (auto simp: release_body_def Let_def split: option.splits)
qed (simp add: release_body_def)

lemma release_fuel_total: "total_backlog (snd (release_fuel n d s)) \<le> total_backlog s"
  by (induction n arbitrary: d s) (simp_all add: release_body_total)

text \<open>More fuel than there are backlog entries makes no difference.\<close>

lemma release_body_cong:
  assumes less: "\<And>b s'. total_backlog s' < total_backlog s \<Longrightarrow> f b s' = g b s'"
    and total: "\<And>b s. total_backlog (snd (f b s)) \<le> total_backlog s"
  shows "release_body f d s = release_body g d s"
proof (cases "tcp_get d s")
  case (Some p)
  let ?s1 = "tcp_mod d (\<lambda>p. p\<lparr>t_backlog := []\<rparr>) s"
  have entries: "fold (release_entry f) bs s' = fold (release_entry g) bs s'"
    if "total_backlog s' < total_backlog s" for bs s'
    using that
  proof (induction bs arbitrary: s')
    case (Cons b bs)
    have "release_entry f b s' = release_entry g b s'"
      using Cons.prems by (simp add: release_entry_def Let_def less split: option.splits)
    moreover have "total_backlog (release_entry f b s') < total_backlog s"
      using release_entry_total [of f b s'] total Cons.prems by simp
    ultimately show ?case using Cons.IH [of "release_entry f b s'"] by simp
  qed simp
  have eq: "fold (release_entry f) (t_backlog p) ?s1 = fold (release_entry g) (t_backlog p) ?s1"
  proof (cases "t_backlog p = []")
    case False
    then have "total_backlog ?s1 < total_backlog s"
      using total_backlog_mod [OF Some, of "\<lambda>p. p\<lparr>t_backlog := []\<rparr>"] by (cases "t_backlog p") auto
    then show ?thesis by (rule entries)
  qed simp
  show ?thesis by (simp only: release_body_def Some option.case Let_def eq)
qed (simp add: release_body_def)

lemma release_fuel_enough:
  "total_backlog s < n \<Longrightarrow> total_backlog s < m \<Longrightarrow> release_fuel n d s = release_fuel m d s"
proof (induction n arbitrary: m d s)
  case (Suc n)
  from Suc.prems obtain k where m: "m = Suc k" by (cases m) auto
  have "release_body (release_fuel n) d s = release_body (release_fuel k) d s"
    using Suc.prems m by (intro release_body_cong Suc.IH) (auto simp: release_fuel_total)
  with m show ?case by simp
qed simp

lemma release_unfold: "tcp_pcb_release d s = release_body tcp_pcb_release d s"
proof -
  have "release_body (release_fuel (total_backlog s)) d s = release_body tcp_pcb_release d s"
  proof (rule release_body_cong)
    fix b s' assume "total_backlog s' < total_backlog s"
    then show "release_fuel (total_backlog s) b s' = tcp_pcb_release b s'"
      unfolding tcp_pcb_release_def by (intro release_fuel_enough) auto
  qed (rule release_fuel_total)
  then show ?thesis by (simp add: tcp_pcb_release_def)
qed

section \<open>What a release does\<close>

abbreviation tcp_ip :: "tcp_state \<Rightarrow> ip_state" where
  "tcp_ip s \<equiv> host_ip (tcp_host s)"

abbreviation tcp_link :: "tcp_state \<Rightarrow> link" where
  "tcp_link s \<equiv> host_link (tcp_host s)"

lemma host_ip_output_extends:
  "ip_extends (host_ip h) (host_ip (snd (host_ip_output protocol data src dst h)))"
  by (simp add: host_ip_output_def case_prod_beta ip_output_ip)

lemma host_panic_extends: "ip_extends (host_ip h) (host_ip (host_panic h))"
  by (simp add: host_panic_def ip_panic_def)

lemma output_segment_extends:
  "ip_extends (tcp_ip s) (tcp_ip (snd (tcp_output_segment seq ack flg wnd data loc rem s)))"
  using host_ip_output_extends [of "tcp_host s" IP_PROTOCOL_TCP
      "tcp_segment seq ack flg wnd data loc rem" "addr loc" "addr rem"]
  by (auto simp: tcp_output_segment_def output_segment_def host_panic_extends case_prod_beta Let_def
      split: prod.splits result.splits)

lemma tcp_now_extends: "ip_extends (tcp_ip s) (tcp_ip (snd (tcp_now s)))"
  by (simp add: tcp_now_def ip_now_def case_prod_beta Let_def)

lemma tcp_output_extends: "ip_extends (tcp_ip s) (tcp_ip (snd (tcp_output d flg data s)))"
proof -
  have "ip_extends (tcp_ip s)
      (tcp_ip (snd (tcp_output_segment seq a flg w data l r (tcp_mod d f (snd (tcp_now s))))))"
    for seq a w l r f
    using ip_extends_trans [OF tcp_now_extends [of s]]
      output_segment_extends [of "tcp_mod d f (snd (tcp_now s))" seq a flg w data l r] by simp
  then show ?thesis
    by (auto simp: tcp_output_def retrans_queue_add_def tcp_panic_def host_panic_extends
        output_segment_extends case_prod_beta Let_def split: option.splits)
qed

text \<open>
  Every slot is either as before or empty; the table and the arena keep their size.
\<close>

definition shrinks :: "tcp_state \<Rightarrow> tcp_state \<Rightarrow> bool" where
  "shrinks s s' \<longleftrightarrow> (\<forall>e. tcp_get e s' = None \<or> tcp_get e s' = tcp_get e s) \<and>
     length (tcp_pcbs s') = length (tcp_pcbs s) \<and>
     length (tcp_tasks s') = length (tcp_tasks s) \<and> ip_extends (tcp_ip s) (tcp_ip s')"

lemma shrinks_refl: "shrinks s s"
  by (simp add: shrinks_def)

lemma shrinks_trans: "shrinks s s' \<Longrightarrow> shrinks s' s'' \<Longrightarrow> shrinks s s''"
  unfolding shrinks_def by (metis ip_extends_trans)

lemma shrinks_over:
  assumes "shrinks s1 s'" and "tcp_get d s' = None" and "\<And>e. e \<noteq> d \<Longrightarrow> tcp_get e s1 = tcp_get e s"
    and "length (tcp_pcbs s1) = length (tcp_pcbs s)"
    and "length (tcp_tasks s1) = length (tcp_tasks s)" and "ip_extends (tcp_ip s) (tcp_ip s1)"
  shows "shrinks s s'"
  using assms unfolding shrinks_def by (metis ip_extends_trans)

lemma release_entry_shrinks:
  assumes "\<And>s'. total_backlog s' = total_backlog s \<Longrightarrow>
      shrinks s' (snd (rel b s')) \<and> tcp_get b (snd (rel b s')) = None"
  shows "shrinks s (release_entry rel b s) \<and> tcp_get b (release_entry rel b s) = None"
proof (cases "tcp_get b s")
  case (Some q)
  let ?s1 = "transition b Closed (snd (tcp_output b TCP_FLG_RST [] s))"
  have rel: "shrinks ?s1 (snd (rel b ?s1))" "tcp_get b (snd (rel b ?s1)) = None"
    using assms [of ?s1] by simp_all
  have "shrinks s (snd (rel b ?s1))"
    by (rule shrinks_over [OF rel]) (simp_all add: tcp_output_extends)
  then show ?thesis
    using Some rel(2) assms [of s] by (simp add: release_entry_def Let_def)
qed (simp add: release_entry_def shrinks_refl)

lemma release_fold_shrinks:
  assumes "\<And>b s'. total_backlog s' \<le> total_backlog s \<Longrightarrow>
      shrinks s' (snd (tcp_pcb_release b s')) \<and> tcp_get b (snd (tcp_pcb_release b s')) = None"
  shows "shrinks s (fold (release_entry tcp_pcb_release) bs s) \<and>
    (\<forall>b \<in> set bs. tcp_get b (fold (release_entry tcp_pcb_release) bs s) = None)"
  using assms
proof (induction bs arbitrary: s)
  case (Cons b bs)
  let ?s1 = "release_entry tcp_pcb_release b s"
  have total: "total_backlog ?s1 \<le> total_backlog s"
    by (rule release_entry_total) (simp add: tcp_pcb_release_def release_fuel_total del: release_fuel.simps)
  have one: "shrinks s ?s1 \<and> tcp_get b ?s1 = None"
    using Cons.prems by (intro release_entry_shrinks) simp
  have rest: "shrinks ?s1 (fold (release_entry tcp_pcb_release) bs ?s1) \<and>
      (\<forall>b \<in> set bs. tcp_get b (fold (release_entry tcp_pcb_release) bs ?s1) = None)"
    using Cons.prems total by (intro Cons.IH) auto
  then have "tcp_get b (fold (release_entry tcp_pcb_release) bs ?s1) = None"
    using one unfolding shrinks_def by metis
  with one rest show ?case by (auto intro: shrinks_trans)
qed (simp add: shrinks_refl)

lemma release_shrinks:
  "shrinks s (snd (tcp_pcb_release d s)) \<and> tcp_get d (snd (tcp_pcb_release d s)) = None \<and>
     (\<forall>p b. tcp_get d s = Some p \<longrightarrow> b \<in> set (t_backlog p) \<longrightarrow>
        tcp_get b (snd (tcp_pcb_release d s)) = None)"
proof (induction "total_backlog s" arbitrary: s d rule: less_induct)
  case less
  show ?case
  proof (cases "tcp_get d s")
    case None
    then show ?thesis
      by (subst (1 2) release_unfold) (simp add: release_body_def shrinks_refl)
  next
    case (Some p)
    let ?s1 = "tcp_mod d (\<lambda>p. p\<lparr>t_backlog := []\<rparr>) s"
    let ?s2 = "fold (release_entry tcp_pcb_release) (t_backlog p) ?s1"
    let ?s' = "snd (tcp_pcb_release d s)"
    have fold: "shrinks ?s1 ?s2 \<and> (\<forall>b \<in> set (t_backlog p). tcp_get b ?s2 = None)"
    proof (cases "t_backlog p = []")
      case False
      then have "total_backlog ?s1 < total_backlog s"
        using total_backlog_mod [OF Some, of "\<lambda>p. p\<lparr>t_backlog := []\<rparr>"] by (cases "t_backlog p") auto
      then show ?thesis using less by (intro release_fold_shrinks) auto
    qed (simp add: shrinks_refl)
    have out: "(\<forall>e. tcp_get e ?s' = (if e = d then None else tcp_get e ?s2)) \<and> shrinks ?s2 ?s'"
      using Some
      by (subst (1 2) release_unfold)
        (auto simp: release_body_def Let_def host_notify_def shrinks_def split: option.splits)
    have "shrinks ?s1 ?s'" using fold out by (blast intro: shrinks_trans)
    then have "shrinks s ?s'"
      by (rule shrinks_over [of _ _ d]) (simp_all add: out)
    with fold out Some show ?thesis by simp
  qed
qed

end
