(* ===== verification/Tcp_Retrans.thy ===== *)
theory Tcp_Retrans
  imports Tcp_Props
begin

text \<open>
  Selection of a control block, the retransmission queue and the timer: which slot a segment
  belongs to, which entries an acknowledgment removes, what the timer sends again and how often.
\<close>

section \<open>Selection\<close>

fun slot_last :: "('a \<Rightarrow> bool) \<Rightarrow> 'a option list \<Rightarrow> nat option" where
  "slot_last P [] = None"
| "slot_last P (x # t) =
     (case slot_last P t of
        Some k \<Rightarrow> Some (Suc k)
      | None \<Rightarrow> (case x of None \<Rightarrow> None | Some p \<Rightarrow> if P p then Some 0 else None))"

lemma slot_last_None: "slot_last P t = None \<longleftrightarrow> (\<forall>i x. slot_get t i = Some x \<longrightarrow> \<not> P x)"
  by (induction t) (auto simp: slot_get_Cons_all split: option.splits)

lemma slot_last_Some:
  "slot_last P t = Some i \<Longrightarrow>
     (\<exists>x. slot_get t i = Some x \<and> P x) \<and> (\<forall>j x. slot_get t j = Some x \<longrightarrow> P x \<longrightarrow> j \<le> i)"
proof (induction t arbitrary: i)
  case (Cons x t)
  show ?case
  proof (cases "slot_last P t")
    case None
    then have none: "slot_get t k = Some q \<Longrightarrow> \<not> P q" for k q by (simp add: slot_last_None)
    from None Cons.prems have i: "i = 0" "\<exists>q. x = Some q \<and> P q" by (auto split: option.splits if_splits)
    have "j \<le> i" if "slot_get (x # t) j = Some q" "P q" for j q
      using that none by (cases j) auto
    with i show ?thesis by auto
  next
    case (Some k)
    with Cons have k: "i = Suc k" "\<exists>q. slot_get t k = Some q \<and> P q"
      "\<forall>j q. slot_get t j = Some q \<longrightarrow> P q \<longrightarrow> j \<le> k" by auto
    have "j \<le> i" if "slot_get (x # t) j = Some q" "P q" for j q
      using that k by (cases j) auto
    with k show ?thesis by auto
  qed
qed simp

text \<open>The first connection that matches, else the last listener that matches.\<close>

lemma select_loop_eq:
  "tcp_select_loop loc rem i t c =
     (case slot_find (\<lambda>p. tcp_match loc rem p \<and> t_state p \<noteq> Listen) t of
        Some k \<Rightarrow> Some (i + k)
      | None \<Rightarrow> (case slot_last (tcp_match loc rem) t of Some k \<Rightarrow> Some (i + k) | None \<Rightarrow> c))"
  by (induction loc rem i t c rule: tcp_select_loop.induct) (auto split: option.splits)

lemma tcp_select_None:
  "tcp_pcb_select loc rem s = None \<longleftrightarrow> (\<forall>d p. tcp_get d s = Some p \<longrightarrow> \<not> tcp_match loc rem p)"
  unfolding tcp_pcb_select_def select_loop_eq tcp_get_def
  by (auto simp: slot_last_None slot_find_None split: option.splits
      dest!: slot_find_Some slot_last_Some)

lemma tcp_select_Some:
  assumes "tcp_pcb_select loc rem s = Some d"
  shows "\<exists>p. tcp_get d s = Some p \<and> tcp_match loc rem p \<and>
    (if t_state p = Listen
     then \<forall>e q. tcp_get e s = Some q \<longrightarrow> tcp_match loc rem q \<longrightarrow> t_state q = Listen \<and> e \<le> d
     else \<forall>e < d. \<forall>q. tcp_get e s = Some q \<longrightarrow> tcp_match loc rem q \<longrightarrow> t_state q = Listen)"
proof (cases "slot_find (\<lambda>p. tcp_match loc rem p \<and> t_state p \<noteq> Listen) (tcp_pcbs s)")
  case None
  with assms have "slot_last (tcp_match loc rem) (tcp_pcbs s) = Some d"
    by (simp add: tcp_pcb_select_def select_loop_eq split: option.splits)
  with None show ?thesis by (auto simp: tcp_get_def slot_find_None dest: slot_last_Some)
next
  case (Some k)
  with assms have "k = d" by (simp add: tcp_pcb_select_def select_loop_eq)
  with slot_find_Some [OF Some] show ?thesis by (auto simp: tcp_get_def)
qed

lemma tcp_select_get: "tcp_pcb_select loc rem s = Some d \<Longrightarrow> \<exists>p. tcp_get d s = Some p"
  by (blast dest: tcp_select_Some)

section \<open>Acknowledged entries\<close>

lemma drop_acked_dropWhile:
  "drop_acked una q = dropWhile (\<lambda>e. q_seq e + q_consume e \<le> una) q"
  by (induction q) (auto simp: not_less)

section \<open>What the timer sends\<close>

definition q_due :: "duration \<Rightarrow> tcp_queue_entry \<Rightarrow> bool" where
  "q_due t e \<longleftrightarrow> q_last e + q_rto e \<le> t"

definition q_backoff :: "duration \<Rightarrow> tcp_queue_entry \<Rightarrow> tcp_queue_entry" where
  "q_backoff t e = (if q_due t e then e\<lparr>q_last := t, q_rto := q_rto e * 2\<rparr> else e)"

definition resend :: "tcp_pcb \<Rightarrow> tcp_queue_entry \<Rightarrow> tcp_state \<Rightarrow> tcp_state" where
  "resend p e s = snd (tcp_output_segment (q_seq e) (rcv_nxt p) (q_flg e) (rcv_wnd p) (q_data e)
     (t_local p) (t_remote p) s)"

lemma emit_due_eq:
  "emit_due t p q s = (map (q_backoff t) q, fold (resend p) (filter (q_due t) q) s)"
  by (induction q arbitrary: s) (simp_all add: q_backoff_def q_due_def resend_def case_prod_beta Let_def)

lemma tcp_get_resend [simp]: "tcp_get e (fold (resend p) q s) = tcp_get e s"
  by (induction q arbitrary: s) (simp_all add: resend_def)

lemma resend_tasks [simp]: "tcp_tasks (fold (resend p) q s) = tcp_tasks s"
  by (induction q arbitrary: s) (simp_all add: resend_def)

lemma resend_length [simp]: "length (tcp_pcbs (fold (resend p) q s)) = length (tcp_pcbs s)"
  by (induction q arbitrary: s) (simp_all add: resend_def)

lemma resend_extends: "ip_extends (tcp_ip s) (tcp_ip (fold (resend p) q s))"
proof (induction q arbitrary: s)
  case (Cons e q)
  have "ip_extends (tcp_ip s) (tcp_ip (resend p e s))"
    unfolding resend_def by (rule output_segment_extends)
  from ip_extends_trans [OF this Cons.IH] show ?case by simp
qed simp

definition deadline_passed :: "duration \<Rightarrow> tcp_pcb \<Rightarrow> bool" where
  "deadline_passed t p \<longleftrightarrow> (\<exists>e \<in> set (t_queue p). q_first e + TCP_RETRANS_DEADLINE \<le> t)"

text \<open>\<open>retrans_emit\<close> as two cases: the connection is given up, or every due entry is sent again.\<close>

lemma retrans_emit_eq:
  assumes "tcp_get d s = Some p" and "tcp_now s = (t, s1)"
  shows "retrans_emit d s =
    (if deadline_passed t p then tcp_notify d (transition d Closed s1)
     else tcp_mod d (\<lambda>p. p\<lparr>t_queue := map (q_backoff t) (t_queue p)\<rparr>)
            (fold (resend p) (filter (q_due t) (t_queue p)) s1))"
proof -
  have p: "tcp_get d s1 = Some p" using assms tcp_get_now [of d s] by simp
  have "tcp_mod d (\<lambda>p'. p'\<lparr>t_queue := map (q_backoff t) (t_queue p)\<rparr>) s2 =
      tcp_mod d (\<lambda>p. p\<lparr>t_queue := map (q_backoff t) (t_queue p)\<rparr>) s2"
    if "tcp_get d s2 = Some p" for s2
    using that by (simp add: tcp_mod_def)
  with p assms(2) show ?thesis
    by (simp add: retrans_emit_def deadline_passed_def emit_due_eq)
qed

lemma retrans_emit_None: "tcp_get d s = None \<Longrightarrow> retrans_emit d s = snd (tcp_now s)"
  by (simp add: retrans_emit_def case_prod_beta Let_def)

section \<open>How often a segment is sent again\<close>

text \<open>
  After \<open>k\<close> retransmissions the timeout is the initial one doubled \<open>k\<close> times, and at least the sum
  of all timeouts before it has passed since the segment was first sent.
\<close>

definition q_tries :: "nat \<Rightarrow> tcp_queue_entry \<Rightarrow> bool" where
  "q_tries k e \<longleftrightarrow> q_rto e = TCP_DEFAULT_RTO * 2 ^ k \<and>
     q_first e + TCP_DEFAULT_RTO * (2 ^ k - 1) \<le> q_last e"

lemma q_tries_queued: "q_first e = q_last e \<Longrightarrow> q_rto e = TCP_DEFAULT_RTO \<Longrightarrow> q_tries 0 e"
  by (simp add: q_tries_def)

lemma q_tries_backoff:
  assumes "q_tries k e"
  shows "q_tries (if q_due t e then Suc k else k) (q_backoff t e)"
proof (cases "q_due t e")
  case True
  have "TCP_DEFAULT_RTO * (2 ^ Suc k - 1) =
      TCP_DEFAULT_RTO * (2 ^ k - 1) + TCP_DEFAULT_RTO * 2 ^ k"
    by (simp add: distrib_left [symmetric] mult_2)
  with assms True show ?thesis
    by (simp add: q_tries_def q_backoff_def q_due_def)
qed (use assms in \<open>simp add: q_backoff_def\<close>)

lemma q_tries_bound:
  assumes "q_tries k e" and "q_last e < q_first e + TCP_RETRANS_DEADLINE"
  shows "k \<le> 5"
proof (rule ccontr)
  assume "\<not> k \<le> 5"
  then have "(2 :: nat) ^ 6 \<le> 2 ^ k" by (intro power_increasing) auto
  then have "TCP_DEFAULT_RTO * 63 \<le> TCP_DEFAULT_RTO * (2 ^ k - 1)" by (intro mult_le_mono) auto
  with assms show False
    by (simp add: q_tries_def TCP_DEFAULT_RTO_def TCP_RETRANS_DEADLINE_def)
qed

end
