(* ===== verification/Tcp_Seg_Props.thy ===== *)
theory Tcp_Seg_Props
  imports Tcp_Input Tcp_Retrans
begin

text \<open>
  What an arriving segment may do to each control block: a relation between the control block
  before and after, section by section, from which the state machine, the receive buffer and the
  table invariant follow.
\<close>

section \<open>Outside the slots\<close>

text \<open>
  Operations other than allocation keep the size of the table and of the arena, and what they do
  to the layers below is sending.
\<close>

definition lower :: "tcp_state \<Rightarrow> tcp_state \<Rightarrow> bool" where
  "lower s s' \<longleftrightarrow> length (tcp_pcbs s') = length (tcp_pcbs s) \<and>
     length (tcp_tasks s') = length (tcp_tasks s) \<and> ip_extends (tcp_ip s) (tcp_ip s')"

lemma lower_refl [simp]: "lower s s"
  by (simp add: lower_def)

lemma lower_trans: "lower s s' \<Longrightarrow> lower s' s'' \<Longrightarrow> lower s s''"
  unfolding lower_def by (metis ip_extends_trans)

lemma lower_same [simp]:
  "lower s (tcp_mod d f s1) \<longleftrightarrow> lower s s1" "lower s (transition d st s1) \<longleftrightarrow> lower s s1"
  "lower s (retrans_queue_cleanup d s1) \<longleftrightarrow> lower s s1" "lower s (tcp_notify d s1) \<longleftrightarrow> lower s s1"
  by (simp_all add: lower_def tcp_notify_def host_notify_def split: option.splits)

lemma lower_steps:
  "lower s (snd (tcp_output d flg data s))"
  "lower s (snd (tcp_output_segment seq ack flg wnd data loc rem s))"
  "lower s (snd (tcp_now s))" "lower s (snd (tcp_random32 s))" "lower s (tcp_panic s)"
  "lower s (set_timewait_timer d s)" "lower s (snd (tcp_pcb_release d s))"
proof -
  show now: "lower s (snd (tcp_now s))" by (simp add: lower_def tcp_now_extends)
  then show "lower s (set_timewait_timer d s)"
    by (simp add: set_timewait_timer_def case_prod_beta Let_def)
  show "lower s (snd (tcp_random32 s))"
    by (simp add: lower_def tcp_random32_def ip_random32_def case_prod_beta Let_def)
  show "lower s (snd (tcp_pcb_release d s))"
    using release_shrinks [of s d] by (auto simp: lower_def shrinks_def)
qed (simp_all add: lower_def tcp_output_extends output_segment_extends tcp_panic_def host_panic_extends)

lemmas lower_step_trans [simp] = lower_steps [THEN lower_trans [rotated]]

lemma lower_notify_parent [simp]: "lower s (notify_parent d pd s1) \<longleftrightarrow> lower s s1"
  by (simp add: notify_parent_def split: option.splits)

section \<open>Slots\<close>

definition evolves :: "(nat \<Rightarrow> tcp_pcb \<Rightarrow> tcp_pcb \<Rightarrow> bool) \<Rightarrow> tcp_state \<Rightarrow> tcp_state \<Rightarrow> bool" where
  "evolves R s s' \<longleftrightarrow> (\<forall>e q. tcp_get e s' = Some q \<longrightarrow> (\<exists>p. tcp_get e s = Some p \<and> R e p q))"

lemma evolvesI: "(\<And>e q. tcp_get e s' = Some q \<Longrightarrow> \<exists>p. tcp_get e s = Some p \<and> R e p q) \<Longrightarrow> evolves R s s'"
  by (simp add: evolves_def)

lemma evolves_trans:
  assumes "evolves R s s'" and "evolves S s' s''"
    and "\<And>e p q r. R e p q \<Longrightarrow> S e q r \<Longrightarrow> T e p r"
  shows "evolves T s s''"
  using assms unfolding evolves_def by blast

lemma evolves_mono: "evolves R s s' \<Longrightarrow> (\<And>e p q. R e p q \<Longrightarrow> T e p q) \<Longrightarrow> evolves T s s'"
  unfolding evolves_def by blast

lemma evolves_same: "(\<And>e. tcp_get e s' = tcp_get e s) \<Longrightarrow> (\<And>e p. R e p p) \<Longrightarrow> evolves R s s'"
  unfolding evolves_def by auto

text \<open>A control block that is released after its state was changed is gone; all others are as before.\<close>

lemma evolves_release:
  assumes "\<And>e. e \<noteq> d \<Longrightarrow> tcp_get e s1 = tcp_get e s" and "\<And>e p. R e p p"
  shows "evolves R s (snd (tcp_pcb_release d s1))"
proof (rule evolvesI)
  fix e q assume q: "tcp_get e (snd (tcp_pcb_release d s1)) = Some q"
  with release_shrinks [of s1 d] have "e \<noteq> d" "tcp_get e s1 = Some q"
    unfolding shrinks_def by (metis option.distinct(1))+
  with assms show "\<exists>p. tcp_get e s = Some p \<and> R e p q" by auto
qed

section \<open>The state machine of a connection\<close>

text \<open>
  The arcs of the connection diagram of RFC 793 that an arriving segment can take in one step of
  this implementation. A segment that acknowledges and finishes takes two arcs at once, and a
  reset leads to \<open>Closed\<close> by removing the control block.
\<close>

inductive rfc_arc :: "tcp_st \<Rightarrow> tcp_st \<Rightarrow> bool" where
  "rfc_arc Listen SynReceived"
| "rfc_arc SynSent Established"
| "rfc_arc SynSent SynReceived"
| "rfc_arc SynReceived Established"
| "rfc_arc Established CloseWait"
| "rfc_arc FinWait1 FinWait2"
| "rfc_arc FinWait1 Closing"
| "rfc_arc FinWait1 TimeWait"
| "rfc_arc FinWait2 TimeWait"
| "rfc_arc Closing TimeWait"

inductive_cases rfc_arcE: "rfc_arc a b"

definition rfc_path :: "tcp_st \<Rightarrow> tcp_st \<Rightarrow> bool" where
  "rfc_path a b \<longleftrightarrow> a = b \<or> rfc_arc a b \<or> (\<exists>c. rfc_arc a c \<and> rfc_arc c b)"

lemma rfc_path_arcs [simp]:
  "rfc_path a a" "rfc_path Listen SynReceived" "rfc_path SynSent Established" "rfc_path SynSent SynReceived"
  "rfc_path SynReceived Established" "rfc_path Established CloseWait" "rfc_path FinWait1 FinWait2"
  "rfc_path FinWait1 Closing" "rfc_path FinWait1 TimeWait" "rfc_path FinWait2 TimeWait"
  "rfc_path Closing TimeWait" "rfc_path SynReceived CloseWait"
  unfolding rfc_path_def by (blast intro: rfc_arc.intros)+

section \<open>Relations between a control block before and after\<close>

text \<open>The parts no segment changes, and the receiving side.\<close>

definition same_conn :: "tcp_pcb \<Rightarrow> tcp_pcb \<Rightarrow> bool" where
  "same_conn p q \<longleftrightarrow> t_task q = t_task p \<and> t_mode q = t_mode p \<and> parent_desc q = parent_desc p \<and>
     t_mss q = t_mss p \<and> backlog_max q = backlog_max p"

definition same_recv :: "tcp_pcb \<Rightarrow> tcp_pcb \<Rightarrow> bool" where
  "same_recv p q \<longleftrightarrow> t_buf q = t_buf p \<and> rcv_wnd q = rcv_wnd p"

definition acks :: "seg_info \<Rightarrow> tcp_pcb \<Rightarrow> tcp_pcb \<Rightarrow> bool" where
  "acks seg p q \<longleftrightarrow> snd_nxt q = snd_nxt p \<and> (snd_una q = snd_una p \<or>
     snd_una p < snd_una q \<and> snd_una q = seg_ack seg \<and> seg_ack seg \<le> snd_nxt p)"

text \<open>The bytes of an in-order segment that fits the window are appended, and nothing else.\<close>

definition receives :: "seg_info \<Rightarrow> bytes \<Rightarrow> tcp_pcb \<Rightarrow> tcp_pcb \<Rightarrow> bool" where
  "receives seg data p q \<longleftrightarrow> data \<noteq> [] \<and> seg_seq seg = rcv_nxt p \<and>
     length data \<le> unat (rcv_wnd p) \<and> t_buf q = t_buf p @ data \<and>
     rcv_wnd q = rcv_wnd p - of_nat (length data)"

lemmas rel_defs = same_conn_def same_recv_def acks_def receives_def

definition ack_rel :: "seg_info \<Rightarrow> tcp_pcb \<Rightarrow> tcp_pcb \<Rightarrow> bool" where
  "ack_rel seg p q \<longleftrightarrow> same_conn p q \<and> same_recv p q \<and> rcv_nxt q = rcv_nxt p \<and> acks seg p q \<and>
     (t_state q = t_state p \<or>
      t_state p = SynReceived \<and> t_state q = Established \<or>
      t_state p = FinWait1 \<and> t_state q = FinWait2 \<and> seg_ack seg = snd_nxt p \<or>
      t_state p = Closing \<and> t_state q = TimeWait \<and> seg_ack seg = snd_nxt p)"

definition text_rel :: "seg_info \<Rightarrow> bytes \<Rightarrow> tcp_pcb \<Rightarrow> tcp_pcb \<Rightarrow> bool" where
  "text_rel seg data p q \<longleftrightarrow> same_conn p q \<and> t_state q = t_state p \<and> acks seg p q \<and> snd_una q = snd_una p \<and>
     (same_recv p q \<or> receives seg data p q \<and> t_state p \<in> {Established, FinWait1, FinWait2})"

definition fin_rel :: "seg_info \<Rightarrow> tcp_pcb \<Rightarrow> tcp_pcb \<Rightarrow> bool" where
  "fin_rel seg p q \<longleftrightarrow> same_conn p q \<and> same_recv p q \<and> snd_nxt q = snd_nxt p \<and> snd_una q = snd_una p \<and>
     (t_state q = t_state p \<or>
      t_state p \<in> {SynReceived, Established} \<and> t_state q = CloseWait \<or>
      t_state p = FinWait1 \<and> t_state q = TimeWait \<and> seg_ack seg = snd_nxt p \<or>
      t_state p = FinWait1 \<and> t_state q = Closing \<and> seg_ack seg \<noteq> snd_nxt p \<or>
      t_state p = FinWait2 \<and> t_state q = TimeWait)"

text \<open>
  The whole effect on the control block of a synchronized connection, and on a bystander, which
  at most gets a new connection into its backlog.
\<close>

definition conn_rel :: "seg_info \<Rightarrow> bytes \<Rightarrow> tcp_pcb \<Rightarrow> tcp_pcb \<Rightarrow> bool" where
  "conn_rel seg data p q \<longleftrightarrow> same_conn p q \<and> acks seg p q \<and> rfc_path (t_state p) (t_state q) \<and>
     (same_recv p q \<or> receives seg data p q \<and> t_state p \<in> {SynReceived, Established, FinWait1, FinWait2})"

definition bystander_rel :: "nat \<Rightarrow> tcp_pcb \<Rightarrow> tcp_pcb \<Rightarrow> bool" where
  "bystander_rel d p q \<longleftrightarrow> q = p \<or> q = p\<lparr>t_backlog := t_backlog p @ [d]\<rparr>"

section \<open>Sections\<close>

definition at :: "nat \<Rightarrow> (tcp_pcb \<Rightarrow> tcp_pcb \<Rightarrow> bool) \<Rightarrow> nat \<Rightarrow> tcp_pcb \<Rightarrow> tcp_pcb \<Rightarrow> bool" where
  "at d R e p q = (if e = d then R p q else q = p)"

definition at_by :: "nat \<Rightarrow> (tcp_pcb \<Rightarrow> tcp_pcb \<Rightarrow> bool) \<Rightarrow> nat \<Rightarrow> tcp_pcb \<Rightarrow> tcp_pcb \<Rightarrow> bool" where
  "at_by d R e p q = (if e = d then R p q else bystander_rel d p q)"

lemma evolves_at:
  assumes "tcp_get d s = Some p" and "\<exists>q. tcp_get d s' = Some q \<and> R p q"
    and "\<And>e. e \<noteq> d \<Longrightarrow> tcp_get e s' = tcp_get e s"
  shows "evolves (at d R) s s'"
  using assms unfolding evolves_def at_def by (metis option.inject)

lemma evolves_at_refl: "(\<And>e. tcp_get e s' = tcp_get e s) \<Longrightarrow> (\<And>p. R p p) \<Longrightarrow> evolves (at d R) s s'"
  by (rule evolves_same) (auto simp: at_def)

lemma evolves_at_release:
  assumes "\<And>e. e \<noteq> d \<Longrightarrow> tcp_get e s1 = tcp_get e s" and "\<And>p. R p p"
  shows "evolves (at d R) s (snd (tcp_pcb_release d s1))"
  by (rule evolves_release) (use assms in \<open>auto simp: at_def\<close>)

lemma rel_refl: "ack_rel seg p p" "text_rel seg data p p" "fin_rel seg p p" "conn_rel seg data p p"
  by (simp_all add: ack_rel_def text_rel_def fin_rel_def conn_rel_def rel_defs rfc_path_def)

lemma queued_ack [simp]: "queued t TCP_FLG_ACK [] = (\<lambda>p. p)" "queued t TCP_FLG_RST [] = (\<lambda>p. p)"
  by (simp_all add: fun_eq_iff queued_control)

lemma evolves_at_self [simp]: "(\<And>p. R p p) \<Longrightarrow> evolves (at d R) s s"
  by (rule evolves_at_refl) simp_all

lemma seg_check_evolves:
  "case seg_check d p seg flags s of
      Done s' \<Rightarrow> evolves (at d (\<lambda>p q. q = p)) s s' \<and> lower s s'
    | Next _ s' \<Rightarrow> s' = s"
proof -
  have "evolves (at d (\<lambda>p q. q = p)) s (snd (tcp_pcb_release d (transition d Closed s)))"
    "evolves (at d (\<lambda>p q. q = p)) s
      (snd (tcp_pcb_release d (transition d Closed (snd (tcp_output d TCP_FLG_RST [] s)))))"
    by (rule evolves_at_release; simp)+
  moreover have "evolves (at d (\<lambda>p q. q = p)) s (snd (tcp_output d TCP_FLG_ACK [] s))"
    by (rule evolves_at_refl) (simp_all add: option.map_ident)
  ultimately show ?thesis by (simp add: seg_check_def)
qed

lemma seg_ack_syn_received_evolves:
  assumes "tcp_get d s = Some p"
  shows "evolves (at d (ack_rel seg)) s (section_state (seg_ack_syn_received d p seg loc rem s)) \<and>
    lower s (section_state (seg_ack_syn_received d p seg loc rem s))"
proof -
  have "evolves (at d (ack_rel seg)) s (tcp_notify d (transition d Established s))"
    if "t_state p = SynReceived"
    by (rule evolves_at [OF assms]) (simp_all add: assms that ack_rel_def rel_defs)
  moreover have "evolves (at d (ack_rel seg)) s (snd (tcp_output_segment a b c e f loc rem s))" for a b c e f
    by (rule evolves_at_refl) (simp_all add: rel_refl)
  ultimately show ?thesis by (simp add: seg_ack_syn_received_def rel_refl)
qed

lemma ack_update_evolves:
  assumes "tcp_get d s = Some p"
  shows "evolves (at d (\<lambda>p q. ack_rel seg p q \<and> t_state q = t_state p)) s (section_state (ack_update d p seg s)) \<and>
    lower s (section_state (ack_update d p seg s))"
proof -
  let ?R = "at d (\<lambda>p q. ack_rel seg p q \<and> t_state q = t_state p)"
  let ?s1 = "retrans_queue_cleanup d (tcp_mod d (\<lambda>p. p\<lparr>snd_una := seg_ack seg\<rparr>) s)"
  have "evolves ?R s ?s1 \<and> evolves ?R s (tcp_mod d (\<lambda>p. p\<lparr>snd_wnd := seg_wnd seg,
      snd_wl1 := seg_seq seg, snd_wl2 := seg_ack seg\<rparr>) ?s1)"
    if "snd_una p < seg_ack seg" "seg_ack seg \<le> snd_nxt p"
    by (intro conjI; rule evolves_at [OF assms]) (simp_all add: assms that ack_rel_def rel_defs)
  moreover have "evolves ?R s (snd (tcp_output d TCP_FLG_ACK [] s))"
    by (rule evolves_at_refl) (simp_all add: option.map_ident rel_refl)
  ultimately show ?thesis by (simp add: ack_update_def Let_def rel_refl)
qed

lemma seg_ack_states_evolves:
  assumes "tcp_get d s = Some p"
  shows "evolves (at d (ack_rel seg)) s (section_state (seg_ack_states d p seg flags s)) \<and>
    lower s (section_state (seg_ack_states d p seg flags s))"
proof -
  let ?R = "at d (ack_rel seg)"
  let ?u = "section_state (ack_update d p seg s)"
  note upd = ack_update_evolves [OF assms, of seg]
  have "evolves ?R s ?u" using upd by (auto elim!: evolves_mono simp: at_def split: if_splits)
  moreover have "evolves ?R s (transition d FinWait2 ?u)"
    if "t_state p = FinWait1" "seg_ack seg = snd_nxt p"
  proof (rule evolvesI)
    fix e q assume "tcp_get e (transition d FinWait2 ?u) = Some q"
    then show "\<exists>p. tcp_get e s = Some p \<and> ?R e p q"
      using upd assms that unfolding evolves_def at_def
      by (fastforce simp: ack_rel_def rel_defs split: if_splits)
  qed
  moreover have "evolves ?R s (tcp_notify d (set_timewait_timer d (transition d TimeWait s)))"
    if "t_state p = Closing" "seg_ack seg = snd_nxt p"
    by (rule evolves_at [OF assms]) (simp_all add: assms that ack_rel_def rel_defs)
  moreover have "evolves ?R s (set_timewait_timer d s)"
    by (rule evolves_at [OF assms]) (simp_all add: assms ack_rel_def rel_defs)
  moreover have "evolves ?R s (snd (tcp_pcb_release d (transition d Closed s)))"
    by (rule evolves_at_release) (simp_all add: rel_refl)
  moreover have "lower s ?u" using upd by simp
  ultimately show ?thesis
    by (cases "ack_update d p seg s") (simp_all add: seg_ack_states_def rel_refl)
qed

lemma seg_text_evolves:
  assumes "tcp_get d s = Some p"
  shows "evolves (at d (text_rel seg data)) s (section_state (seg_text d p seg data s)) \<and>
    lower s (section_state (seg_text d p seg data s))"
proof -
  let ?s1 = "tcp_mod d (\<lambda>p. p\<lparr>t_buf := t_buf p @ data, rcv_nxt := seg_seq seg + of_nat (length data),
      rcv_wnd := rcv_wnd p - of_nat (length data)\<rparr>) s"
  have "evolves (at d (text_rel seg data)) s (tcp_notify d (snd (tcp_output d TCP_FLG_ACK [] ?s1)))"
    if "t_state p \<in> {Established, FinWait1, FinWait2}" "data \<noteq> []" "rcv_nxt p = seg_seq seg"
      "length data \<le> unat (rcv_wnd p)"
    by (rule evolves_at [OF assms]) (use that in \<open>auto simp: assms text_rel_def rel_defs\<close>)
  moreover have "evolves (at d (text_rel seg data)) s (snd (tcp_output d TCP_FLG_ACK [] s))"
    by (rule evolves_at_refl) (simp_all add: option.map_ident rel_refl)
  ultimately show ?thesis by (simp add: seg_text_def Let_def rel_refl not_less)
qed

lemma seg_fin_evolves:
  assumes "tcp_get d s = Some p"
  shows "evolves (at d (fin_rel seg)) s (seg_fin d p seg flags s) \<and> lower s (seg_fin d p seg flags s)"
proof -
  let ?s2 = "snd (tcp_output d TCP_FLG_ACK [] (tcp_mod d (\<lambda>p. p\<lparr>rcv_nxt := seg_seq seg + 1\<rparr>) s))"
  let ?R = "at d (fin_rel seg)"
  have stay: "evolves ?R s ?s2"
    by (rule evolves_at [OF assms]) (simp_all add: assms fin_rel_def rel_defs)
  moreover have "evolves ?R s (tcp_notify d (transition d CloseWait ?s2))"
    if "t_state p \<in> {SynReceived, Established}"
    by (rule evolves_at [OF assms]) (use that in \<open>auto simp: assms fin_rel_def rel_defs\<close>)
  moreover have "evolves ?R s (set_timewait_timer d (transition d TimeWait ?s2))"
    if "t_state p = FinWait2 \<or> t_state p = FinWait1 \<and> seg_ack seg = snd_nxt p"
    by (rule evolves_at [OF assms]) (use that in \<open>auto simp: assms fin_rel_def rel_defs\<close>)
  moreover have "evolves ?R s (transition d Closing ?s2)"
    if "t_state p = FinWait1" "seg_ack seg \<noteq> snd_nxt p"
    by (rule evolves_at [OF assms]) (use that in \<open>auto simp: assms fin_rel_def rel_defs\<close>)
  ultimately show ?thesis
    by (cases "t_state p") (simp_all add: seg_fin_def Let_def rel_refl)
qed

section \<open>Composition\<close>

definition mid_rel :: "seg_info \<Rightarrow> bytes \<Rightarrow> tcp_pcb \<Rightarrow> tcp_pcb \<Rightarrow> bool" where
  "mid_rel seg data p q \<longleftrightarrow> same_conn p q \<and> acks seg p q \<and>
     (t_state q = t_state p \<or> t_state p = SynReceived \<and> t_state q = Established \<or>
      t_state p = FinWait1 \<and> t_state q = FinWait2 \<or> t_state p = Closing \<and> t_state q = TimeWait) \<and>
     (same_recv p q \<or> receives seg data p q \<and> t_state p \<in> {SynReceived, Established, FinWait1, FinWait2})"

lemma acks_trans: "acks seg p q \<Longrightarrow> acks seg q r \<Longrightarrow> acks seg p r"
  unfolding acks_def by auto

lemma ack_rel_trans: "ack_rel seg p q \<Longrightarrow> ack_rel seg q r \<Longrightarrow> ack_rel seg p r"
  using acks_trans [of seg p q r] unfolding ack_rel_def same_conn_def same_recv_def acks_def by auto

lemma ack_text: "ack_rel seg p q \<Longrightarrow> text_rel seg data q r \<Longrightarrow> mid_rel seg data p r"
  using acks_trans [of seg p q r]
  unfolding ack_rel_def text_rel_def mid_rel_def same_conn_def same_recv_def receives_def by auto

lemma mid_fin:
  assumes "mid_rel seg data p q" and "fin_rel seg q r"
  shows "conn_rel seg data p r"
proof -
  have "t_state q = t_state p \<or> t_state p = SynReceived \<and> t_state q = Established \<or>
      t_state p = FinWait1 \<and> t_state q = FinWait2 \<or> t_state p = Closing \<and> t_state q = TimeWait"
    using assms(1) by (simp add: mid_rel_def)
  moreover have "t_state r = t_state q \<or>
      t_state q \<in> {SynReceived, Established} \<and> t_state r = CloseWait \<or>
      t_state q = FinWait1 \<and> t_state r \<in> {TimeWait, Closing} \<or> t_state q = FinWait2 \<and> t_state r = TimeWait"
    using assms(2) unfolding fin_rel_def by blast
  ultimately have "rfc_path (t_state p) (t_state r)" by (elim disjE) auto
  moreover have "acks seg p r" using assms by (simp add: mid_rel_def fin_rel_def acks_def)
  moreover have "same_conn p r" using assms by (simp add: mid_rel_def fin_rel_def same_conn_def)
  ultimately show ?thesis using assms
    by (simp add: mid_rel_def fin_rel_def conn_rel_def same_recv_def receives_def)
qed

lemma ack_conn: "ack_rel seg p q \<Longrightarrow> conn_rel seg data p q"
  unfolding ack_rel_def conn_rel_def by auto

lemma mid_conn: "mid_rel seg data p q \<Longrightarrow> conn_rel seg data p q"
  unfolding mid_rel_def conn_rel_def by auto

lemma ack_bystander: "ack_rel seg p q \<Longrightarrow> bystander_rel d q r \<Longrightarrow> ack_rel seg p r"
  by (auto simp: bystander_rel_def ack_rel_def rel_defs)

lemma bystander_refl [simp]: "bystander_rel d p p"
  by (simp add: bystander_rel_def)

lemma notify_parent_evolves: "evolves (\<lambda>e. bystander_rel d) s (notify_parent d parent s)"
  by (auto simp: notify_parent_def evolves_def bystander_rel_def split: option.splits if_splits)

lemma evolves_panic: "(\<And>p. R p p) \<Longrightarrow> evolves (at_by d R) s (tcp_panic s)"
  by (rule evolves_same) (simp_all add: at_by_def)

lemma section_then_state:
  "section_state (section_then r f) = (case r of Done s \<Rightarrow> s | Next a s \<Rightarrow> section_state (f a s))"
  by (simp add: section_then_def split: section_result.splits)

text \<open>
  If the connection has come to a state by a relation \<open>R\<close> that the next section extends to \<open>T\<close>,
  then so has it after the section; the three lemmas are the steps of \<open>seg_synchronized\<close>.
\<close>

lemma at_by_step:
  assumes "evolves (at_by d R) s s1" and "evolves (at d S) s1 s2"
    and "\<And>p q r. R p q \<Longrightarrow> S q r \<Longrightarrow> T p r"
  shows "evolves (at_by d T) s s2"
  using assms(1, 2) by (rule evolves_trans) (auto simp: at_by_def at_def assms(3) split: if_splits)

lemma at_by_mono: "evolves (at_by d R) s s' \<Longrightarrow> (\<And>p q. R p q \<Longrightarrow> T p q) \<Longrightarrow> evolves (at_by d T) s s'"
  by (erule evolves_mono) (auto simp: at_by_def split: if_splits)

lemma fin_step:
  assumes "evolves (at_by d (mid_rel seg data)) s s1" and "lower s s1"
  shows "evolves (at_by d (conn_rel seg data)) s
      (section_state (with_pcb d (\<lambda>p s. Done (seg_fin d p seg flags s) :: unit section_result) s1)) \<and>
    lower s (section_state (with_pcb d (\<lambda>p s. Done (seg_fin d p seg flags s) :: unit section_result) s1))"
proof (cases "tcp_get d s1")
  case None
  have "evolves (at_by d (conn_rel seg data)) s s1"
    using assms(1) by (rule at_by_mono) (rule mid_conn)
  then have "evolves (at_by d (conn_rel seg data)) s (tcp_panic s1)" by (simp add: evolves_def)
  with None assms(2) show ?thesis by (simp add: with_pcb_def)
next
  case (Some p)
  note fin = seg_fin_evolves [OF Some, of seg flags]
  have "evolves (at_by d (conn_rel seg data)) s (seg_fin d p seg flags s1)"
    using assms(1) conjunct1 [OF fin] by (rule at_by_step) (rule mid_fin)
  with Some fin lower_trans [OF assms(2)] show ?thesis by (simp add: with_pcb_def)
qed

lemma text_step:
  assumes "evolves (at_by d (ack_rel seg)) s s1" and "lower s s1"
  shows "evolves (at_by d (mid_rel seg data)) s
      (section_state (with_pcb d (\<lambda>p. seg_text d p seg data) s1)) \<and>
    lower s (section_state (with_pcb d (\<lambda>p. seg_text d p seg data) s1))"
proof (cases "tcp_get d s1")
  case None
  have "evolves (at_by d (mid_rel seg data)) s (tcp_panic s1)"
    using assms(1) None unfolding evolves_def at_by_def by (metis option.distinct(1) tcp_get_panic)
  with None assms(2) show ?thesis by (simp add: with_pcb_def)
next
  case (Some p)
  note tx = seg_text_evolves [OF Some, of seg data]
  have "evolves (at_by d (mid_rel seg data)) s (section_state (seg_text d p seg data s1))"
    using assms(1) conjunct1 [OF tx] by (rule at_by_step) (rule ack_text)
  with Some tx lower_trans [OF assms(2)] show ?thesis by (simp add: with_pcb_def)
qed

lemma ack_step:
  assumes "evolves (at d (ack_rel seg)) s s1" and "lower s s1"
    and "\<And>p. tcp_get d s1 = Some p \<Longrightarrow>
      evolves (at d (ack_rel seg)) s1 (section_state (f p s1)) \<and> lower s1 (section_state (f p s1))"
  shows "evolves (at d (ack_rel seg)) s (section_state (with_pcb d f s1)) \<and>
    lower s (section_state (with_pcb d f s1))"
proof (cases "tcp_get d s1")
  case None
  have "evolves (at d (ack_rel seg)) s (tcp_panic s1)" using assms(1) by (simp add: evolves_def)
  with None assms(2) show ?thesis by (simp add: with_pcb_def)
next
  case (Some p)
  note step = assms(3) [OF Some]
  have "evolves (at d (ack_rel seg)) s (section_state (f p s1))"
    using assms(1) conjunct1 [OF step]
    by (rule evolves_trans) (auto simp: at_def intro: ack_rel_trans split: if_splits)
  with Some step lower_trans [OF assms(2)] show ?thesis by (simp add: with_pcb_def)
qed

lemma parent_step:
  assumes "evolves (at d (ack_rel seg)) s s1"
  shows "evolves (at_by d (ack_rel seg)) s (notify_parent d parent s1)"
  using assms notify_parent_evolves
  by (rule evolves_trans) (auto simp: at_def at_by_def intro: ack_bystander split: if_splits)

lemma at_to_by:
  assumes "evolves (at d R) s s'" and "\<And>p q. R p q \<Longrightarrow> T p q"
  shows "evolves (at_by d T) s s'"
  using assms(1) by (rule evolves_mono) (auto simp: at_def at_by_def assms(2) split: if_splits)

lemma seg_synchronized_evolves:
  "evolves (at_by d (conn_rel seg data)) s (seg_synchronized d seg flags data loc rem s) \<and>
   lower s (seg_synchronized d seg flags data loc rem s)"
proof -
  let ?R = "at_by d (conn_rel seg data)"
  define r1 where "r1 = with_pcb d (\<lambda>p. seg_check d p seg flags) s"
  have one: "case r1 of Done s1 \<Rightarrow> evolves ?R s s1 \<and> lower s s1 | Next _ s1 \<Rightarrow> s1 = s"
  proof (cases "tcp_get d s")
    case None
    then show ?thesis by (simp add: r1_def with_pcb_def evolves_panic rel_refl lower_steps)
  next
    case (Some p)
    then show ?thesis using seg_check_evolves [where d = d and p = p and seg = seg and flags = flags and s = s]
      by (auto simp: r1_def with_pcb_def rel_refl intro: at_to_by split: section_result.splits)
  qed
  define r2 where "r2 = with_pcb d (\<lambda>p. seg_ack_syn_received d p seg loc rem) s"
  have two: "evolves (at d (ack_rel seg)) s (section_state r2) \<and> lower s (section_state r2)"
    unfolding r2_def by (rule ack_step) (simp_all add: rel_refl seg_ack_syn_received_evolves)
  define r3 where "r3 = (\<lambda>s. with_pcb d (\<lambda>p. seg_ack_states d p seg flags) s)"
  have three: "evolves (at d (ack_rel seg)) s (section_state (r3 (section_state r2))) \<and>
      lower s (section_state (r3 (section_state r2)))"
    unfolding r3_def using two by (intro ack_step) (simp_all add: seg_ack_states_evolves)
  define r4 where "r4 = (\<lambda>s. with_pcb d (\<lambda>p. seg_text d p seg data) s)"
  have four: "evolves (at_by d (mid_rel seg data)) s
        (section_state (r4 (notify_parent d parent (section_state (r3 (section_state r2)))))) \<and>
      lower s (section_state (r4 (notify_parent d parent (section_state (r3 (section_state r2))))))" for parent
    unfolding r4_def using three by (intro text_step parent_step) simp_all
  note five = fin_step [OF conjunct1 [OF four] conjunct2 [OF four], of flags]
  have all: "seg_synchronized d seg flags data loc rem s = section_state (section_then r1 (\<lambda>_ s1.
      section_then (with_pcb d (\<lambda>p. seg_ack_syn_received d p seg loc rem) s1) (\<lambda>parent s2.
      section_then (r3 s2) (\<lambda>_ s3. section_then (r4 (notify_parent d parent s3)) (\<lambda>_ s4.
      with_pcb d (\<lambda>p s. Done (seg_fin d p seg flags s) :: unit section_result) s4)))))"
    by (simp add: seg_synchronized_def r1_def r3_def r4_def)
  have ackd: "evolves (at d (ack_rel seg)) s s' \<Longrightarrow> evolves ?R s s'" for s'
    by (erule at_to_by) (rule ack_conn)
  have midd: "evolves (at_by d (mid_rel seg data)) s s' \<Longrightarrow> evolves ?R s s'" for s'
    by (erule at_by_mono) (rule mid_conn)
  show ?thesis
  proof (cases r1)
    case (Done s1)
    with one show ?thesis by (simp add: all section_then_state)
  next
    case r1: (Next u s1)
    with one have all2: "seg_synchronized d seg flags data loc rem s = section_state (section_then r2
      (\<lambda>parent s2. section_then (r3 s2) (\<lambda>_ s3. section_then (r4 (notify_parent d parent s3)) (\<lambda>_ s4.
      with_pcb d (\<lambda>p s. Done (seg_fin d p seg flags s) :: unit section_result) s4))))"
      by (simp add: all section_then_state r2_def)
    show ?thesis
    proof (cases r2)
      case (Done s2)
      with two ackd show ?thesis by (simp add: all2 section_then_state)
    next
      case r2: (Next parent s2)
      show ?thesis
      proof (cases "r3 s2")
        case (Done s3)
        with r2 three ackd show ?thesis by (simp add: all2 section_then_state)
      next
        case r3: (Next v s3)
        then show ?thesis
          using r2 four [of parent] five [of parent] midd
          by (cases "r4 (notify_parent d parent s3)") (simp_all add: all2 section_then_state)
      qed
    qed
  qed
qed

end
