(* ===== verification/Tcp_Inv.thy ===== *)
theory Tcp_Inv
  imports Tcp_Seg_Props
begin

text \<open>
  The effect of an arriving segment on the whole table, whatever the state of the connection it
  belongs to, and the invariant of the table under segments and timer: bounded size, tasks of
  their own, and receive window plus buffered bytes adding up to the size of the receive buffer.
\<close>

section \<open>Listen and SYN-SENT\<close>

text \<open>
  The control block of a connection request: its sequence variables count the SYN of both sides.
\<close>

definition answered :: "seg_info \<Rightarrow> ip_endp \<Rightarrow> ip_endp \<Rightarrow> tcp_pcb \<Rightarrow> tcp_pcb \<Rightarrow> bool" where
  "answered seg loc rem p q \<longleftrightarrow> t_state q = SynReceived \<and> t_local q = loc \<and> t_remote q = rem \<and>
     rcv_wnd q = of_nat RECV_BUF_SIZE \<and> rcv_nxt q = seg_seq seg + 1 \<and> t_irs q = seg_seq seg \<and>
     snd_una q = t_iss q \<and> snd_nxt q = t_iss q + 1 \<and> t_buf q = t_buf p \<and>
     t_task q = t_task p \<and> t_mode q = t_mode p \<and> parent_desc q = parent_desc p"

lemma tcp_random32_frame [simp]: "tcp_pcbs (snd (tcp_random32 s)) = tcp_pcbs s"
  by (simp add: tcp_random32_def case_prod_beta)

lemma queued_irs [simp]: "t_irs (queued t flg data p) = t_irs p"
  by (simp add: queued_def)

lemma syn_received_slot:
  assumes "tcp_get d s = Some p"
  shows "\<exists>q. tcp_get d (syn_received d seg loc rem s) = Some q \<and> answered seg loc rem p q"
  using assms by (simp add: syn_received_def case_prod_beta Let_def answered_def)

lemma syn_received_other:
  "e \<noteq> d \<Longrightarrow> tcp_get e (syn_received d seg loc rem s) = tcp_get e s"
  by (simp add: syn_received_def case_prod_beta Let_def)

lemma syn_received_lower: "lower s (syn_received d seg loc rem s)"
  by (simp add: syn_received_def case_prod_beta Let_def)

lemma seg_syn_sent_evolves:
  assumes "tcp_get d s = Some p" and "t_state p = SynSent"
  shows "evolves (at d (conn_rel seg data)) s (seg_syn_sent d p seg flags loc rem s) \<and>
    lower s (seg_syn_sent d p seg flags loc rem s)"
proof -
  let ?R = "at d (conn_rel seg data)"
  let ?s1 = "tcp_mod d (\<lambda>p. p\<lparr>rcv_nxt := seg_seq seg + 1, t_irs := seg_seq seg\<rparr>) s"
  let ?s2 = "retrans_queue_cleanup d (tcp_mod d (\<lambda>p. p\<lparr>snd_una := seg_ack seg\<rparr>) ?s1)"
  have reply: "evolves ?R s (snd (tcp_output_segment a b c e f loc rem s))" for a b c e f
    by (rule evolves_at_refl) (simp_all add: rel_refl)
  have reset: "evolves ?R s (snd (tcp_pcb_release d (transition d Closed s)))"
    by (rule evolves_at_release) (simp_all add: rel_refl)
  have est: "evolves ?R s (syn_sent_established d seg ?s1)"
    by (rule evolves_at [OF assms(1)])
      (simp_all add: assms syn_sent_established_def conn_rel_def rel_defs Let_def)
  have est': "evolves ?R s (syn_sent_established d seg ?s2)"
    if "snd_una p \<le> seg_ack seg" "seg_ack seg \<le> snd_nxt p"
    by (rule evolves_at [OF assms(1)])
      (use that in \<open>auto simp: assms syn_sent_established_def conn_rel_def rel_defs Let_def\<close>)
  have sim: "evolves ?R s (snd (tcp_output d (TCP_FLG_SYN OR TCP_FLG_ACK) [] (transition d SynReceived ?s1)))"
    by (rule evolves_at [OF assms(1)]) (simp_all add: assms conn_rel_def rel_defs)
  have sim': "evolves ?R s (snd (tcp_output d (TCP_FLG_SYN OR TCP_FLG_ACK) [] (transition d SynReceived ?s2)))"
    if "snd_una p \<le> seg_ack seg" "seg_ack seg \<le> snd_nxt p"
    by (rule evolves_at [OF assms(1)]) (use that in \<open>auto simp: assms conn_rel_def rel_defs\<close>)
  have "lower s (syn_sent_established d seg s')" if "lower s s'" for s'
    using that by (simp add: syn_sent_established_def Let_def)
  with reply reset est est' sim sim' show ?thesis
    by (simp add: seg_syn_sent_def Let_def rel_refl)
qed

section \<open>The invariant\<close>

definition win_ok :: "tcp_pcb \<Rightarrow> bool" where
  "win_ok p \<longleftrightarrow>
     (t_state p = Listen \<longrightarrow> t_buf p = []) \<and>
     (t_state p \<noteq> Closed \<and> t_state p \<noteq> Listen \<longrightarrow> unat (rcv_wnd p) + length (t_buf p) = RECV_BUF_SIZE)"

text \<open>
  \<open>listen\<close> and \<open>connect\<close> do not look at the buffer: a control block that still holds text of an
  earlier connection advertises a full window all the same, and window and buffer no longer add up
  to the size of the buffer. \<open>D\<close> is the set of the control blocks with such a past; the sum is
  exact for all others.
\<close>

definition win_at :: "nat set \<Rightarrow> nat \<Rightarrow> tcp_pcb \<Rightarrow> bool" where
  "win_at D d p \<longleftrightarrow> (d \<notin> D \<longrightarrow> win_ok p)"

lemmas win_defs = win_at_def win_ok_def

lemma win_at_mono: "win_at D d p \<Longrightarrow> D \<subseteq> E \<Longrightarrow> win_at E d p"
  by (auto simp: win_at_def)

lemma win_at_empty [simp]: "win_at {} d p \<longleftrightarrow> win_ok p"
  by (auto simp: win_defs)

definition tcp_wf_on :: "nat set \<Rightarrow> tcp_state \<Rightarrow> bool" where
  "tcp_wf_on D s \<longleftrightarrow> length (tcp_pcbs s) \<le> TCP_PCB_SIZE_MAX \<and>
     (\<forall>d p. tcp_get d s = Some p \<longrightarrow> win_at D d p \<and> t_task p < length (tcp_tasks s)) \<and>
     (\<forall>d e p q. tcp_get d s = Some p \<longrightarrow> tcp_get e s = Some q \<longrightarrow> d \<noteq> e \<longrightarrow> t_task p \<noteq> t_task q)"

abbreviation tcp_wf :: "tcp_state \<Rightarrow> bool" where
  "tcp_wf \<equiv> tcp_wf_on {}"

lemma tcp_wf_def:
  "tcp_wf s \<longleftrightarrow> length (tcp_pcbs s) \<le> TCP_PCB_SIZE_MAX \<and>
     (\<forall>d p. tcp_get d s = Some p \<longrightarrow> win_ok p \<and> t_task p < length (tcp_tasks s)) \<and>
     (\<forall>d e p q. tcp_get d s = Some p \<longrightarrow> tcp_get e s = Some q \<longrightarrow> d \<noteq> e \<longrightarrow> t_task p \<noteq> t_task q)"
  by (simp add: tcp_wf_on_def)

lemma tcp_wf_onD:
  assumes "tcp_wf_on D s"
  shows "length (tcp_pcbs s) \<le> TCP_PCB_SIZE_MAX"
    and "tcp_get d s = Some p \<Longrightarrow> win_at D d p"
    and "tcp_get d s = Some p \<Longrightarrow> t_task p < length (tcp_tasks s)"
    and "tcp_get d s = Some p \<Longrightarrow> tcp_get e s = Some q \<Longrightarrow> d \<noteq> e \<Longrightarrow> t_task p \<noteq> t_task q"
  using assms unfolding tcp_wf_on_def by blast+

lemmas tcp_wfD = tcp_wf_onD [where D = "{}", simplified]

lemma tcp_wf_on_mono: "tcp_wf_on D s \<Longrightarrow> D \<subseteq> E \<Longrightarrow> tcp_wf_on E s"
  unfolding tcp_wf_on_def by (blast intro: win_at_mono)

lemma tcp_wf_on_forget: "tcp_wf_on D s \<Longrightarrow> tcp_get d s = None \<Longrightarrow> tcp_wf_on (D - {d}) s"
  unfolding tcp_wf_on_def win_at_def by (metis Diff_iff option.distinct(1) singletonD)

lemma tcp_wf_evolves:
  assumes "tcp_wf_on D s" and "lower s s'" and "evolves R s s'"
    and "\<And>e p q. tcp_get e s = Some p \<Longrightarrow> R e p q \<Longrightarrow> win_at D e p \<Longrightarrow> t_task q = t_task p \<and> win_at D e q"
  shows "tcp_wf_on D s'"
proof -
  have orig: "\<exists>p. tcp_get e s = Some p \<and> t_task q = t_task p \<and> win_at D e q"
    if "tcp_get e s' = Some q" for e q
    using that assms(3) assms(4) tcp_wf_onD(2) [OF assms(1)] unfolding evolves_def by meson
  show ?thesis
    unfolding tcp_wf_on_def
  proof (intro conjI allI impI)
    show "length (tcp_pcbs s') \<le> TCP_PCB_SIZE_MAX"
      using assms(2) tcp_wf_onD(1) [OF assms(1)] by (simp add: lower_def)
    show "win_at D e q" if "tcp_get e s' = Some q" for e q using orig [OF that] by blast
    show "t_task q < length (tcp_tasks s')" if "tcp_get e s' = Some q" for e q
      using orig [OF that] tcp_wf_onD(3) [OF assms(1)] assms(2) by (auto simp: lower_def)
    show "t_task p \<noteq> t_task q"
      if "tcp_get d s' = Some p" "tcp_get e s' = Some q" "d \<noteq> e" for d e p q
      using orig [OF that(1)] orig [OF that(2)] tcp_wf_onD(4) [OF assms(1)] that(3) by metis
  qed
qed

lemma win_ok_bystander: "bystander_rel d p q \<Longrightarrow> win_at D e p \<Longrightarrow> t_task q = t_task p \<and> win_at D e q"
  by (auto simp: bystander_rel_def win_defs)

lemma rfc_path_open: "rfc_path a b \<Longrightarrow> a \<noteq> Listen \<Longrightarrow> a \<noteq> Closed \<Longrightarrow> b \<noteq> Listen \<and> b \<noteq> Closed"
  by (auto simp: rfc_path_def elim!: rfc_arcE)

lemma unat_sub_u16:
  fixes w :: u16
  assumes "n \<le> unat w"
  shows "unat (w - of_nat n) = unat w - n"
proof -
  have "n < 65536" using assms unat_u16_less [of w] by linarith
  then have "unat (of_nat n :: u16) = n" by (rule unat_of_nat_u16)
  with assms show ?thesis by (metis unat_sub word_le_nat_alt)
qed

lemma win_ok_conn:
  assumes "conn_rel seg data p q" and "t_state p \<noteq> Listen" and "t_state p \<noteq> Closed" and "win_at D e p"
  shows "t_task q = t_task p \<and> win_at D e q"
proof -
  have state: "t_state q \<noteq> Listen" "t_state q \<noteq> Closed"
    using assms rfc_path_open [of "t_state p" "t_state q"] by (simp_all add: conn_rel_def)
  have "unat (rcv_wnd q) + length (t_buf q) = unat (rcv_wnd p) + length (t_buf p)" "t_task q = t_task p"
    using assms(1) by (auto simp: conn_rel_def same_conn_def same_recv_def receives_def unat_sub_u16)
  with assms(2-4) state show ?thesis by (simp add: win_defs)
qed

lemma tcp_init_wf: "tcp_wf \<lparr>tcp_host = h, tcp_pcbs = []\<rparr>"
  by (simp add: tcp_wf_def tcp_get_def)

lemma tcp_wf_alloc:
  assumes "tcp_wf_on D s"
  shows "tcp_wf_on D (snd (tcp_pcb_alloc s))"
proof (cases "fst (tcp_pcb_alloc s)")
  case None
  with assms show ?thesis by (simp add: tcp_alloc_None)
next
  case (Some d)
  note get = tcp_alloc_get [OF Some]
  note wf = tcp_wf_onD [OF assms]
  have fresh: "t_task (tcp_pcb_empty t) = t" "win_at D e (tcp_pcb_empty t)" for t e
    by (simp_all add: tcp_pcb_empty_def win_defs)
  show ?thesis
    unfolding tcp_wf_on_def
  proof (intro conjI allI impI)
    show "length (tcp_pcbs (snd (tcp_pcb_alloc s))) \<le> TCP_PCB_SIZE_MAX"
      using wf(1) by (rule tcp_tab.alloc_bounded)
    show "win_at D e q" "t_task q < length (tcp_tasks (snd (tcp_pcb_alloc s)))"
      if "tcp_get e (snd (tcp_pcb_alloc s)) = Some q" for e q
      using that wf(2, 3) [of e q] Some by (auto simp: get fresh tcp_alloc_tasks split: if_splits)
    show "t_task p \<noteq> t_task q" if "tcp_get e (snd (tcp_pcb_alloc s)) = Some p"
      "tcp_get f (snd (tcp_pcb_alloc s)) = Some q" "e \<noteq> f" for e f p q
      using that wf(3) [of e p] wf(3) [of f q] wf(4) [of e p f q]
      by (auto simp: get fresh split: if_splits)
  qed
qed

section \<open>A segment arrives\<close>

text \<open>A new connection of a listening socket.\<close>

definition child_of :: "nat \<Rightarrow> seg_info \<Rightarrow> ip_endp \<Rightarrow> ip_endp \<Rightarrow> tcp_state \<Rightarrow> tcp_pcb \<Rightarrow> bool" where
  "child_of d seg loc rem s q \<longleftrightarrow>
     answered seg loc rem ((tcp_pcb_empty (length (tcp_tasks s)))\<lparr>parent_desc := Some d\<rparr>) q"

text \<open>What a slot holds after a segment, relative to what it held before.\<close>

definition slot_rel ::
  "seg_info \<Rightarrow> bytes \<Rightarrow> ip_endp \<Rightarrow> ip_endp \<Rightarrow> nat \<Rightarrow> nat \<Rightarrow> tcp_pcb \<Rightarrow> tcp_pcb \<Rightarrow> bool" where
  "slot_rel seg data loc rem d e p q \<longleftrightarrow>
     (if e \<noteq> d then bystander_rel d p q
      else if t_state p = Listen then q = p \<or> answered seg loc rem p q
      else if t_state p = Closed then q = p
      else conn_rel seg data p q)"

lemma slot_rel_refl [simp]: "slot_rel seg data loc rem d e p p"
  by (simp add: slot_rel_def rel_refl)

lemma seg_closed_get [simp]: "tcp_get e (seg_closed seg flags loc rem s) = tcp_get e s"
  by (simp add: seg_closed_def)

lemma seg_closed_lower [simp]: "lower s (seg_closed seg flags loc rem s)"
  by (simp add: seg_closed_def)

text \<open>
  A request to a listener: either it changes only the listening control block, or it fills one
  free slot.
\<close>

lemma seg_listen_slots:
  assumes "tcp_get d s = Some p" and "t_state p = Listen"
  obtains (same) "evolves (slot_rel seg data loc rem d) s (seg_listen d p seg flags loc rem s)"
      "lower s (seg_listen d p seg flags loc rem s)"
    | (child) c q where "fst (tcp_pcb_alloc s) = Some c" "child_of d seg loc rem s q"
      "\<And>e. tcp_get e (seg_listen d p seg flags loc rem s) = (if e = c then Some q else tcp_get e s)"
      "lower (snd (tcp_pcb_alloc s)) (seg_listen d p seg flags loc rem s)"
proof -
  let ?s' = "seg_listen d p seg flags loc rem s"
  show ?thesis
  proof (cases "\<not> flag_isset flags TCP_FLG_RST \<and> \<not> flag_isset flags TCP_FLG_ACK \<and> flag_isset flags TCP_FLG_SYN")
    case False
    then have "\<And>e. tcp_get e ?s' = tcp_get e s" "lower s ?s'" by (auto simp: seg_listen_def)
    then show ?thesis by (intro same evolves_same) simp_all
  next
    case syn: True
    show ?thesis
    proof (cases "t_mode p = Socket")
      case rfc: False
      then have s': "?s' = syn_received d seg loc rem s"
        using syn by (cases "t_mode p") (simp_all add: seg_listen_def listen_target_def)
      obtain q where q: "tcp_get d ?s' = Some q" "answered seg loc rem p q"
        using syn_received_slot [OF assms(1), of seg loc rem] s' by auto
      have "evolves (slot_rel seg data loc rem d) s ?s'"
        by (rule evolvesI) (metis assms q s' slot_rel_def option.inject slot_rel_refl syn_received_other)
      then show ?thesis using same s' syn_received_lower by simp
    next
      case sock: True
      show ?thesis
      proof (cases "length (t_backlog p) < backlog_max p \<and> fst (tcp_pcb_alloc s) \<noteq> None")
        case False
        then have "?s' = s"
          using syn sock tcp_alloc_None [of s]
          by (auto simp: seg_listen_def listen_target_def split: prod.splits option.splits)
        then show ?thesis by (intro same evolves_same) simp_all
      next
        case True
        then obtain c s1 where alloc: "tcp_pcb_alloc s = (Some c, s1)"
          by (cases "tcp_pcb_alloc s") auto
        let ?s2 = "tcp_mod c (\<lambda>q. q\<lparr>parent_desc := Some d\<rparr>) s1"
        have s': "?s' = syn_received c seg loc rem ?s2"
          using syn sock True alloc by (simp add: seg_listen_def listen_target_def)
        have get: "tcp_get e s1 = (if e = c then Some (tcp_pcb_empty (length (tcp_tasks s))) else tcp_get e s)" for e
          using tcp_alloc_get [of s c e] alloc by simp
        then have "tcp_get c ?s2 = Some ((tcp_pcb_empty (length (tcp_tasks s)))\<lparr>parent_desc := Some d\<rparr>)"
          by simp
        then obtain q where q: "tcp_get c ?s' = Some q" "child_of d seg loc rem s q"
          using syn_received_slot [of c ?s2 _ seg loc rem] s' unfolding child_of_def by auto
        have "tcp_get e ?s' = (if e = c then Some q else tcp_get e s)" for e
          using q(1) get [of e] by (auto simp: s' syn_received_other)
        moreover have "lower (snd (tcp_pcb_alloc s)) ?s'"
          using syn_received_lower [of ?s2 c seg loc rem] unfolding s' alloc
          by (metis lower_same(1) lower_trans lower_refl snd_conv)
        ultimately show ?thesis using child alloc q(2) by simp
      qed
    qed
  qed
qed

lemma answered_win:
  "answered seg loc rem p q \<Longrightarrow> (e \<notin> D \<Longrightarrow> t_buf p = []) \<Longrightarrow> t_task q = t_task p \<and> win_at D e q"
  by (simp add: answered_def win_defs RECV_BUF_SIZE_def)

lemma slot_rel_win: "slot_rel seg data loc rem d e p q \<Longrightarrow> win_at D e p \<Longrightarrow> t_task q = t_task p \<and> win_at D e q"
  using win_ok_bystander [of d p q D e] win_ok_conn [of seg data p q D e] answered_win [of seg loc rem p q e D]
  by (auto simp: slot_rel_def win_at_def win_ok_def split: if_splits)

text \<open>
  Every slot after a segment is related to what it held before, or holds the new connection of
  the listener the segment was for.
\<close>

lemma segment_arrives_slots:
  obtains (same) d where "evolves (slot_rel seg data loc rem d) s (segment_arrives seg flags data loc rem s)"
      "lower s (segment_arrives seg flags data loc rem s)"
    | (child) d c q where "fst (tcp_pcb_alloc s) = Some c" "child_of d seg loc rem s q"
      "\<And>e. tcp_get e (segment_arrives seg flags data loc rem s) = (if e = c then Some q else tcp_get e s)"
      "lower (snd (tcp_pcb_alloc s)) (segment_arrives seg flags data loc rem s)"
proof (cases "tcp_pcb_select loc rem s")
  case None
  then show ?thesis
    by (intro same [of 0] evolves_same) (simp_all add: segment_arrives_def)
next
  case (Some d)
  then obtain p where p: "tcp_get d s = Some p" using tcp_select_get by blast
  consider "t_state p = Closed" | "t_state p = Listen" | "t_state p = SynSent"
    | "t_state p \<notin> {Closed, Listen, SynSent}" by auto
  then show ?thesis
  proof cases
    case 1
    with Some p show ?thesis
      by (intro same [of 0] evolves_same) (simp_all add: segment_arrives_def)
  next
    case 2
    with Some p have "segment_arrives seg flags data loc rem s = seg_listen d p seg flags loc rem s"
      by (simp add: segment_arrives_def)
    with seg_listen_slots [OF p 2, of seg data loc rem flags] same child show ?thesis by metis
  next
    case 3
    with Some p have eq: "segment_arrives seg flags data loc rem s = seg_syn_sent d p seg flags loc rem s"
      by (simp add: segment_arrives_def)
    have "evolves (slot_rel seg data loc rem d) s (segment_arrives seg flags data loc rem s)"
      using seg_syn_sent_evolves [OF p 3, of seg data flags loc rem] p 3 unfolding eq evolves_def at_def slot_rel_def
      by (metis bystander_refl option.inject tcp_st.distinct(3) tcp_st.distinct(21))
    with seg_syn_sent_evolves [OF p 3] same eq show ?thesis by metis
  next
    case 4
    then have eq: "segment_arrives seg flags data loc rem s = seg_synchronized d seg flags data loc rem s"
      using Some p by (cases "t_state p") (simp_all add: segment_arrives_def)
    note sync = seg_synchronized_evolves [where d = d and seg = seg and data = data and s = s
        and flags = flags and loc = loc and rem = rem]
    have "evolves (slot_rel seg data loc rem d) s (segment_arrives seg flags data loc rem s)"
      using sync p 4 unfolding eq evolves_def at_by_def slot_rel_def
      by (metis insertCI option.inject)
    with sync same eq show ?thesis by metis
  qed
qed

lemma segment_arrives_wf:
  assumes "tcp_wf_on D s"
  shows "tcp_wf_on D (segment_arrives seg flags data loc rem s)"
proof (cases rule: segment_arrives_slots [of seg data loc rem s flags])
  case (same d)
  with assms show ?thesis by (intro tcp_wf_evolves [OF assms same(2, 1)] slot_rel_win)
next
  case (child d c q)
  let ?s1 = "snd (tcp_pcb_alloc s)"
  have q: "t_task q = length (tcp_tasks s) \<and> win_at D e q" for e
    using child(2) answered_win unfolding child_of_def by (fastforce simp: tcp_pcb_empty_def)
  have "evolves (\<lambda>e p q. t_task q = t_task p \<and> (win_at D e p \<longrightarrow> win_at D e q)) ?s1
      (segment_arrives seg flags data loc rem s)"
    using child(3) q tcp_alloc_get [OF child(1)]
    by (auto simp: evolves_def tcp_pcb_empty_def split: if_splits)
  then show ?thesis
    by (rule tcp_wf_evolves [OF tcp_wf_alloc [OF assms] child(4)]) blast
qed

lemma tcp_wf_panic: "tcp_wf_on D s \<Longrightarrow> tcp_wf_on D (tcp_panic s)"
  by (auto simp: tcp_wf_on_def tcp_panic_def tcp_get_def)

lemma tcp_input_wf: "tcp_wf_on D s \<Longrightarrow> tcp_wf_on D (tcp_input hdr data iface s)"
  by (simp add: tcp_input_def Let_def segment_arrives_wf tcp_wf_panic)

section \<open>The timer\<close>

definition timer_rel :: "nat \<Rightarrow> nat \<Rightarrow> tcp_pcb \<Rightarrow> tcp_pcb \<Rightarrow> bool" where
  "timer_rel d e p q \<longleftrightarrow> same_conn p q \<and> same_recv p q \<and> (t_state q = t_state p \<or> t_state q = Closed) \<and>
     snd_nxt q = snd_nxt p \<and> snd_una q = snd_una p \<and> t_backlog q = t_backlog p"

lemma timer_rel_refl: "timer_rel d e p p"
  by (simp add: timer_rel_def rel_defs)

lemma retrans_emit_timer: "evolves (timer_rel d) s (retrans_emit d s) \<and> lower s (retrans_emit d s)"
proof (cases "tcp_get d s")
  case None
  then show ?thesis
    by (simp add: retrans_emit_None lower_steps timer_rel_refl evolves_same)
next
  case (Some p)
  obtain t s1 where now: "tcp_now s = (t, s1)" by (cases "tcp_now s")
  have get: "tcp_get e s1 = tcp_get e s" for e using tcp_get_now [of e s] now by simp
  have low: "lower s s1" using lower_steps(3) [of s] now by simp
  have "lower s (fold (resend p) q s1)" for q
    using low ip_extends_trans [OF _ resend_extends] by (auto simp: lower_def)
  moreover have "timer_rel d e p' p'" for e p' by (rule timer_rel_refl)
  ultimately show ?thesis
    using low by (auto simp: retrans_emit_eq [OF Some now] evolves_def get Some timer_rel_def rel_defs
        split: if_splits)
qed

lemma on_timer_desc_timer: "evolves (timer_rel d) s (on_timer_desc t d s) \<and> lower s (on_timer_desc t d s)"
proof -
  have "evolves (timer_rel d) s (snd (tcp_pcb_release d (transition d Closed s)))"
    by (rule evolves_release) (simp_all add: timer_rel_refl)
  moreover have "evolves (timer_rel d) s s" by (rule evolves_same) (simp_all add: timer_rel_refl)
  ultimately show ?thesis
    using retrans_emit_timer [of d s] by (simp add: on_timer_desc_def split: option.splits)
qed

lemma timer_rel_win: "timer_rel d e p q \<Longrightarrow> win_at D e p \<Longrightarrow> t_task q = t_task p \<and> win_at D e q"
  by (auto simp: timer_rel_def win_defs rel_defs)

lemma on_timer_desc_wf: "tcp_wf_on D s \<Longrightarrow> tcp_wf_on D (on_timer_desc t d s)"
  by (rule tcp_wf_evolves [OF _ conjunct2 conjunct1, OF _ on_timer_desc_timer on_timer_desc_timer])
    (auto dest: timer_rel_win)

lemma tcp_on_timer_wf:
  assumes "tcp_wf_on D s"
  shows "tcp_wf_on D (tcp_on_timer s)"
proof -
  have fold: "tcp_wf_on D s' \<Longrightarrow> tcp_wf_on D (fold (on_timer_desc t) ds s')" for t ds s'
    by (induction ds arbitrary: s') (simp_all add: on_timer_desc_wf)
  have "tcp_wf_on D (snd (tcp_now s))"
    by (rule tcp_wf_evolves [OF assms lower_steps(3), where R = "\<lambda>e p q. q = p"])
      (simp_all add: evolves_def)
  then show ?thesis by (simp add: tcp_on_timer_def case_prod_beta Let_def fold)
qed

end
