(* ===== verification/Tcp_User.thy ===== *)
theory Tcp_User
  imports Tcp_Props Tcp_Input
begin

text \<open>
  The calls of \<^verbatim>\<open>src/src/tcp.rs\<close> (\<open>open\<close> to \<open>connect\<close>). A call that blocks is a loop of passes
  under the lock of the table, each of which returns or waits on the task of the control block;
  \<open>blocking\<close> composes the passes.
\<close>

section \<open>Endpoints of an active open\<close>

text \<open>
  Choice of the local endpoint, the same code in \<open>open\<close> and in \<open>connect\<close>: the address of the
  outgoing interface for a wildcard, a dynamic port for port 0, and then the check that the pair
  of endpoints is not in use. The four outcomes are distinguished by their messages only.
\<close>

definition choose_addr :: "ip_endp \<Rightarrow> ip_endp \<Rightarrow> tcp_state \<Rightarrow> ip_endp result" where
  "choose_addr loc rem s =
     (if addr loc = ip_any
      then (case route_lookup (addr rem) (host_ip (tcp_host s)) of
              None \<Rightarrow> Err
            | Some route \<Rightarrow> Ok (loc\<lparr>addr := if_unicast (rt_iface route)\<rparr>))
      else Ok loc)"

definition choose_port :: "ip_endp \<Rightarrow> ip_endp \<Rightarrow> tcp_state \<Rightarrow> ip_endp result" where
  "choose_port loc rem s =
     (if port loc = 0
      then (case port_scan (\<lambda>q. tcp_pcb_select (ip_endp_new (addr loc) q) rem s \<noteq> None)
                   DYNAMIC_PORT_MIN of
              None \<Rightarrow> Err
            | Some q \<Rightarrow> Ok (loc\<lparr>port := q\<rparr>))
      else Ok loc)"

definition choose_local :: "ip_endp \<Rightarrow> ip_endp \<Rightarrow> tcp_state \<Rightarrow> ip_endp result" where
  "choose_local loc rem s =
     (case choose_addr loc rem s of
        Err \<Rightarrow> Err
      | Ok loc1 \<Rightarrow>
          (case choose_port loc1 rem s of
             Err \<Rightarrow> Err
           | Ok loc2 \<Rightarrow> if tcp_pcb_select loc2 rem s \<noteq> None then Err else Ok loc2))"

text \<open>Sending the SYN: the state after it, and whether \<open>output\<close> succeeded.\<close>

definition send_syn :: "nat \<Rightarrow> ip_endp \<Rightarrow> ip_endp \<Rightarrow> tcp_state \<Rightarrow> unit result \<times> tcp_state" where
  "send_syn desc loc rem s =
     (let s1 = tcp_mod desc (\<lambda>p. p\<lparr>t_local := loc, t_remote := rem,
                 rcv_wnd := of_nat RECV_BUF_SIZE\<rparr>) s;
          (r, s2) = tcp_random32 s1;
          s3 = tcp_mod desc (\<lambda>p. p\<lparr>t_iss := r\<rparr>) s2
      in case tcp_output desc TCP_FLG_SYN [] s3 of
           (Err, s4) \<Rightarrow> (Err, transition desc Closed s4)
         | (Ok _, s4) \<Rightarrow>
             (Ok (), transition desc SynSent
                (tcp_mod desc (\<lambda>p. p\<lparr>snd_una := t_iss p, snd_nxt := t_iss p + 1\<rparr>) s4)))"

text \<open>
  The segment size from the interface towards the remote address. The subtraction panics for an
  interface with an MTU below 40.
\<close>

definition set_mss :: "nat \<Rightarrow> tcp_state \<Rightarrow> unit result \<times> tcp_state" where
  "set_mss desc s =
     (case tcp_get desc s of
        None \<Rightarrow> (Err, s)
      | Some p \<Rightarrow>
          (case route_lookup (addr (t_remote p)) (host_ip (tcp_host s)) of
             None \<Rightarrow> (Err, s)
           | Some route \<Rightarrow>
               (case by_index (host_link (tcp_host s)) (if_dev (rt_iface route)) of
                  None \<Rightarrow> (Err, s)
                | Some dev \<Rightarrow>
                    if unat (dev_mtu dev) < IP_HDR_SIZE_MIN + TCP_HDR_SIZE then (Err, tcp_panic s)
                    else (Ok (), tcp_mod desc (\<lambda>p. p\<lparr>t_mss :=
                            of_nat (unat (dev_mtu dev) - IP_HDR_SIZE_MIN - TCP_HDR_SIZE)\<rparr>) s))))"

section \<open>Open\<close>

definition open_start :: "ip_endp \<Rightarrow> ip_endp \<Rightarrow> bool \<Rightarrow> tcp_state \<Rightarrow> nat result \<times> tcp_state" where
  "open_start loc rem active s =
     (case tcp_pcb_alloc s of
        (None, s1) \<Rightarrow> (Err, s1)
      | (Some desc, s1) \<Rightarrow>
          if active
          then (case choose_local loc rem s1 of
                  Err \<Rightarrow> (Err, snd (tcp_pcb_release desc s1))
                | Ok loc' \<Rightarrow>
                    (case send_syn desc loc' rem s1 of
                       (Err, s2) \<Rightarrow> (Err, snd (tcp_pcb_release desc s2))
                     | (Ok _, s2) \<Rightarrow> (Ok desc, s2)))
          else if tcp_pcb_select loc rem s1 \<noteq> None
          then (Err, snd (tcp_pcb_release desc s1))
          else (Ok desc, transition desc Listen
                  (tcp_mod desc (\<lambda>p. p\<lparr>t_local := loc, t_remote := rem\<rparr>) s1)))"

definition open_pass :: "nat \<Rightarrow> tcp_state \<Rightarrow> unit result pass \<times> tcp_state" where
  "open_pass desc s =
     (case tcp_get desc s of
        None \<Rightarrow> (Return Err, s)
      | Some p \<Rightarrow>
          if t_state p = Established then (Return (Ok ()), s)
          else if t_state p \<in> {Listen, SynReceived, SynSent}
          then (WaitOn (t_task p) (task_snapshot (t_task p) (host_tasks (tcp_host s))), s)
          else (Return Err, snd (tcp_pcb_release desc (transition desc Closed s))))"

definition open_interrupted :: "nat \<Rightarrow> tcp_state \<Rightarrow> unit result \<times> tcp_state" where
  "open_interrupted desc s = (Err, snd (tcp_pcb_release desc (transition desc Closed s)))"

definition tcp_open ::
  "ip_endp \<Rightarrow> ip_endp \<Rightarrow> bool \<Rightarrow> (wait_result \<times> tcp_state) list \<Rightarrow> tcp_state \<Rightarrow>
     (nat result \<times> tcp_state) option" where
  "tcp_open loc rem active wakes s =
     (case open_start loc rem active s of
        (Err, s1) \<Rightarrow> Some (Err, s1)
      | (Ok desc, s1) \<Rightarrow>
          (case blocking (open_pass desc) (open_interrupted desc) wakes s1 of
             None \<Rightarrow> None
           | Some (Err, s2) \<Rightarrow> Some (Err, s2)
           | Some (Ok _, s2) \<Rightarrow>
               (case set_mss desc s2 of
                  (Err, s3) \<Rightarrow> Some (Err, s3)
                | (Ok _, s3) \<Rightarrow> Some (Ok desc, s3))))"

section \<open>Close\<close>

definition send_fin :: "nat \<Rightarrow> tcp_st \<Rightarrow> tcp_state \<Rightarrow> tcp_state" where
  "send_fin desc new_state s =
     transition desc new_state
       (tcp_mod desc (\<lambda>p. p\<lparr>snd_nxt := snd_nxt p + 1\<rparr>)
          (snd (tcp_output desc (TCP_FLG_ACK OR TCP_FLG_FIN) [] s)))"

definition tcp_close :: "nat \<Rightarrow> tcp_state \<Rightarrow> unit result \<times> tcp_state" where
  "tcp_close desc s =
     (case tcp_get desc s of
        None \<Rightarrow> (Err, s)
      | Some p \<Rightarrow>
          (case t_state p of
             Closed \<Rightarrow> (Err, s)
           | Listen \<Rightarrow> tcp_pcb_release desc (transition desc Closed s)
           | SynSent \<Rightarrow> tcp_pcb_release desc (transition desc Closed s)
           | SynReceived \<Rightarrow> (Ok (), tcp_notify desc (send_fin desc FinWait1 s))
           | Established \<Rightarrow> (Ok (), tcp_notify desc (send_fin desc FinWait1 s))
           | CloseWait \<Rightarrow> (Ok (), tcp_notify desc (send_fin desc LastAck s))
           | _ \<Rightarrow> (Err, s)))"

section \<open>Send and receive\<close>

datatype send_result = SendReturn "nat result" | SendWait nat u64 | SendMore nat

definition send_cap :: "tcp_pcb \<Rightarrow> nat" where
  "send_cap p = unat (snd_wnd p) - unat (snd_nxt p - snd_una p)"

definition send_pass :: "nat \<Rightarrow> bytes \<Rightarrow> nat \<Rightarrow> tcp_state \<Rightarrow> send_result \<times> tcp_state" where
  "send_pass desc data sent s =
     (case tcp_get desc s of
        None \<Rightarrow> (SendReturn Err, s)
      | Some p \<Rightarrow>
          if t_state p \<noteq> Established \<and> t_state p \<noteq> CloseWait then (SendReturn Err, s)
          else if sent \<ge> length data then (SendReturn (Ok sent), s)
          else let cap = send_cap p
               in if cap = 0
                  then (SendWait (t_task p) (task_snapshot (t_task p) (host_tasks (tcp_host s))), s)
                  else let slen = min (min (unat (t_mss p)) (length data - sent)) cap;
                           s1 = snd (tcp_output desc (TCP_FLG_ACK OR TCP_FLG_PSH)
                                       (slice sent (sent + slen) data) s);
                           s2 = tcp_mod desc (\<lambda>p. p\<lparr>snd_nxt := snd_nxt p + of_nat slen\<rparr>) s1
                       in (SendMore (sent + slen), s2))"

text \<open>
  The loop of \<open>send\<close> over its passes. The fuel counts the passes; \<open>None\<close> means that the call has
  not returned (it waits, or the fuel is used up).
\<close>

fun send_loop ::
  "(nat \<Rightarrow> 's \<Rightarrow> send_result \<times> 's) \<Rightarrow> nat \<Rightarrow> (wait_result \<times> 's) list \<Rightarrow> nat \<Rightarrow> 's \<Rightarrow>
     (nat result \<times> 's) option" where
  "send_loop body 0 wakes sent s = None"
| "send_loop body (Suc fuel) wakes sent s =
     (case body sent s of
        (SendReturn r, s1) \<Rightarrow> Some (r, s1)
      | (SendMore sent', s1) \<Rightarrow> send_loop body fuel wakes sent' s1
      | (SendWait t snap, s1) \<Rightarrow>
          (case wakes of
             [] \<Rightarrow> None
           | (Interrupted, s2) # ws \<Rightarrow> Some (if sent = 0 then Err else Ok sent, s2)
           | (Notified, s2) # ws \<Rightarrow> send_loop body fuel ws sent s2))"

definition tcp_send ::
  "nat \<Rightarrow> nat \<Rightarrow> bytes \<Rightarrow> (wait_result \<times> tcp_state) list \<Rightarrow> tcp_state \<Rightarrow>
     (nat result \<times> tcp_state) option" where
  "tcp_send fuel desc data wakes s = send_loop (send_pass desc data) fuel wakes 0 s"

text \<open>Taking bytes out of the receive buffer; \<open>+=\<close> on the window panics when it overflows.\<close>

definition take_buf :: "nat \<Rightarrow> nat \<Rightarrow> tcp_pcb \<Rightarrow> tcp_state \<Rightarrow> bytes result pass \<times> tcp_state" where
  "take_buf desc buf_len p s =
     (let n = min buf_len (length (t_buf p))
      in if unat (rcv_wnd p) + unat (of_nat n :: u16) > 65535 then (Return Err, tcp_panic s)
         else (Return (Ok (take n (t_buf p))),
               tcp_mod desc (\<lambda>p. p\<lparr>t_buf := drop n (t_buf p), rcv_wnd := rcv_wnd p + of_nat n\<rparr>) s))"

definition receive_pass :: "nat \<Rightarrow> nat \<Rightarrow> tcp_state \<Rightarrow> bytes result pass \<times> tcp_state" where
  "receive_pass desc buf_len s =
     (case tcp_get desc s of
        None \<Rightarrow> (Return Err, s)
      | Some p \<Rightarrow>
          if t_state p \<in> {Established, FinWait1, FinWait2}
          then if t_buf p = []
               then (WaitOn (t_task p) (task_snapshot (t_task p) (host_tasks (tcp_host s))), s)
               else take_buf desc buf_len p s
          else if t_state p = CloseWait
          then if t_buf p = [] then (Return (Ok []), s) else take_buf desc buf_len p s
          else if t_state p \<in> {Closing, LastAck, TimeWait} then (Return (Ok []), s)
          else (Return Err, s))"

definition tcp_receive ::
  "nat \<Rightarrow> nat \<Rightarrow> (wait_result \<times> tcp_state) list \<Rightarrow> tcp_state \<Rightarrow> (bytes result \<times> tcp_state) option" where
  "tcp_receive desc buf_len = blocking (receive_pass desc buf_len) (\<lambda>s. (Err, s))"

section \<open>Socket calls\<close>

definition tcp_socket :: "tcp_state \<Rightarrow> nat result \<times> tcp_state" where
  "tcp_socket s =
     (case tcp_pcb_alloc s of
        (None, s1) \<Rightarrow> (Err, s1)
      | (Some desc, s1) \<Rightarrow> (Ok desc, tcp_mod desc (\<lambda>p. p\<lparr>t_mode := Socket\<rparr>) s1))"

definition tcp_bind :: "nat \<Rightarrow> ip_endp \<Rightarrow> tcp_state \<Rightarrow> unit result \<times> tcp_state" where
  "tcp_bind desc loc s =
     (case tcp_get desc s of
        None \<Rightarrow> (Err, s)
      | Some p \<Rightarrow>
          if port loc = 0 then (Err, s)
          else if t_state p \<noteq> Closed then (Err, s)
          else if tcp_pcb_select loc (ip_endp_new ip_any 0) s \<noteq> None then (Err, s)
          else (Ok (), tcp_mod desc (\<lambda>p. p\<lparr>t_local := loc\<rparr>) s))"

definition tcp_listen :: "nat \<Rightarrow> nat \<Rightarrow> tcp_state \<Rightarrow> unit result \<times> tcp_state" where
  "tcp_listen desc backlog s =
     (case tcp_get desc s of
        None \<Rightarrow> (Err, s)
      | Some p \<Rightarrow>
          if port (t_local p) = 0 then (Err, s)
          else if t_state p \<noteq> Closed then (Err, s)
          else (Ok (), transition desc Listen (tcp_mod desc (\<lambda>p. p\<lparr>backlog_max := backlog\<rparr>) s)))"

text \<open>
  A pass of \<open>accept\<close>. A queued descriptor whose slot is empty is skipped (\<open>continue\<close>); each time
  the backlog gets shorter.
\<close>

definition backlog_length :: "nat \<Rightarrow> tcp_state \<Rightarrow> nat" where
  "backlog_length desc s = (case tcp_get desc s of None \<Rightarrow> 0 | Some p \<Rightarrow> length (t_backlog p))"

function accept_pass :: "nat \<Rightarrow> tcp_state \<Rightarrow> (nat \<times> ip_endp) result pass \<times> tcp_state" where
  "accept_pass desc s =
     (case tcp_get desc s of
        None \<Rightarrow> (Return Err, s)
      | Some p \<Rightarrow>
          if t_state p \<noteq> Listen then (Return Err, s)
          else (case t_backlog p of
                  [] \<Rightarrow> (WaitOn (t_task p) (task_snapshot (t_task p) (host_tasks (tcp_host s))), s)
                | new_desc # ds \<Rightarrow>
                    let s1 = tcp_mod desc (\<lambda>p. p\<lparr>t_backlog := ds\<rparr>) s
                    in case tcp_get new_desc s1 of
                         None \<Rightarrow> accept_pass desc s1
                       | Some q \<Rightarrow>
                           (case set_mss new_desc s1 of
                              (Err, s2) \<Rightarrow> (Return Err, s2)
                            | (Ok _, s2) \<Rightarrow> (Return (Ok (new_desc, t_remote q)), s2))))"
  by pat_completeness auto
termination
  by (relation "measure (\<lambda>(desc, s). backlog_length desc s)")
    (auto simp: backlog_length_def tcp_get_mod)

declare accept_pass.simps [simp del]

definition tcp_accept ::
  "nat \<Rightarrow> (wait_result \<times> tcp_state) list \<Rightarrow> tcp_state \<Rightarrow> ((nat \<times> ip_endp) result \<times> tcp_state) option" where
  "tcp_accept desc = blocking (accept_pass desc) (\<lambda>s. (Err, s))"

definition connect_start :: "nat \<Rightarrow> ip_endp \<Rightarrow> tcp_state \<Rightarrow> unit result \<times> tcp_state" where
  "connect_start desc rem s =
     (case tcp_get desc s of
        None \<Rightarrow> (Err, s)
      | Some p \<Rightarrow>
          (case choose_local (t_local p) rem s of
             Err \<Rightarrow> (Err, s)
           | Ok loc \<Rightarrow> send_syn desc loc rem s))"

definition connect_pass :: "nat \<Rightarrow> tcp_state \<Rightarrow> unit result pass \<times> tcp_state" where
  "connect_pass desc s =
     (case tcp_get desc s of
        None \<Rightarrow> (Return Err, s)
      | Some p \<Rightarrow>
          if t_state p = Established then (Return (Ok ()), s)
          else if t_state p \<in> {Listen, SynReceived, SynSent}
          then (WaitOn (t_task p) (task_snapshot (t_task p) (host_tasks (tcp_host s))), s)
          else (Return Err, transition desc Closed s))"

definition tcp_connect ::
  "nat \<Rightarrow> ip_endp \<Rightarrow> (wait_result \<times> tcp_state) list \<Rightarrow> tcp_state \<Rightarrow> (unit result \<times> tcp_state) option" where
  "tcp_connect desc rem wakes s =
     (case connect_start desc rem s of
        (Err, s1) \<Rightarrow> Some (Err, s1)
      | (Ok _, s1) \<Rightarrow>
          (case blocking (connect_pass desc) (\<lambda>s. (Err, transition desc Closed s)) wakes s1 of
             None \<Rightarrow> None
           | Some (Err, s2) \<Rightarrow> Some (Err, s2)
           | Some (Ok _, s2) \<Rightarrow> Some (set_mss desc s2)))"

end
