(* ===== verification/Tcp_User_Props.thy ===== *)
theory Tcp_User_Props
  imports Tcp_Inv Tcp_User
begin

text \<open>
  The calls of the user keep the invariant of the table; a receive returns the oldest bytes and
  gives their space back to the window; a send puts exactly the given bytes into segments that
  respect segment size and window, and returns.
\<close>

section \<open>Invariant\<close>

lemma tcp_wf_at:
  assumes "tcp_wf_on D s" and "evolves (at d R) s s'" and "lower s s'"
    and "\<And>p q. tcp_get d s = Some p \<Longrightarrow> R p q \<Longrightarrow> win_at D d p \<Longrightarrow> t_task q = t_task p \<and> win_at D d q"
  shows "tcp_wf_on D s'"
proof (rule tcp_wf_evolves [OF assms(1, 3, 2)])
  fix e p q assume "tcp_get e s = Some p" "at d R e p q" "win_at D e p"
  with assms(4) [of p q] show "t_task q = t_task p \<and> win_at D e q"
    by (simp add: at_def split: if_splits)
qed

lemma tcp_wf_mod:
  assumes "tcp_wf_on D s" and "\<And>p. tcp_get d s = Some p \<Longrightarrow> win_at D d p \<Longrightarrow> t_task (f p) = t_task p \<and> win_at D d (f p)"
  shows "tcp_wf_on D (tcp_mod d f s)"
proof (rule tcp_wf_evolves [where R = "\<lambda>e p q. q = (if e = d then f p else p)"])
  show "evolves (\<lambda>e p q. q = (if e = d then f p else p)) s (tcp_mod d f s)"
    by (auto simp: evolves_def split: if_splits)
qed (use assms in auto)

lemma tcp_wf_release:
  assumes "tcp_wf_on D s" and "\<And>e. e \<noteq> d \<Longrightarrow> tcp_get e s1 = tcp_get e s" and "lower s s1"
  shows "tcp_wf_on D (snd (tcp_pcb_release d s1))"
proof (rule tcp_wf_evolves [OF assms(1), where R = "\<lambda>e p q. q = p"])
  show "evolves (\<lambda>e p q. q = p) s (snd (tcp_pcb_release d s1))"
    by (rule evolves_release) (simp_all add: assms(2))
  show "lower s (snd (tcp_pcb_release d s1))" using assms(3) by simp
qed auto

lemma tcp_wf_transition:
  assumes "tcp_wf_on D s" and "st = Closed \<or> (\<forall>p. tcp_get d s = Some p \<longrightarrow> t_state p \<notin> {Closed, Listen}) \<and> st \<noteq> Listen"
  shows "tcp_wf_on D (transition d st s)"
  unfolding transition_def using assms by (intro tcp_wf_mod) (auto simp: win_defs)

lemma tcp_wf_notify: "tcp_wf_on D s \<Longrightarrow> tcp_wf_on D (tcp_notify d s)"
  by (erule tcp_wf_evolves [where R = "\<lambda>e p q. q = p"]) (auto simp: evolves_def)

lemma tcp_wf_output: "tcp_wf_on D s \<Longrightarrow> tcp_wf_on D (snd (tcp_output d flg data s))"
  by (erule tcp_wf_at [where d = d and R = "\<lambda>p q. \<exists>t. q = queued t flg data p"])
    (auto simp: evolves_def at_def win_defs lower_steps split: if_splits)

text \<open>After \<open>send_syn\<close> the connection is in SYN-SENT with a full window, or closed.\<close>

definition syn_rel :: "tcp_pcb \<Rightarrow> tcp_pcb \<Rightarrow> bool" where
  "syn_rel p q \<longleftrightarrow> t_task q = t_task p \<and> t_buf q = t_buf p \<and>
     (t_state q = Closed \<or> t_state q = SynSent \<and> rcv_wnd q = of_nat RECV_BUF_SIZE \<and>
        snd_una q = t_iss q \<and> snd_nxt q = t_iss q + 1)"

lemma send_syn_evolves:
  "evolves (at d syn_rel) s (snd (send_syn d loc rem s)) \<and> lower s (snd (send_syn d loc rem s))"
proof -
  let ?s1 = "tcp_mod d (\<lambda>p. p\<lparr>t_local := loc, t_remote := rem, rcv_wnd := of_nat RECV_BUF_SIZE\<rparr>) s"
  obtain r s2 where r: "tcp_random32 ?s1 = (r, s2)" by (cases "tcp_random32 ?s1")
  have s2: "tcp_get e s2 = tcp_get e ?s1" "lower s s2" for e
    using tcp_get_random32 [of e ?s1] lower_steps(4) [of ?s1] r
    by (auto simp: lower_def)
  let ?s3 = "tcp_mod d (\<lambda>p. p\<lparr>t_iss := r\<rparr>) s2"
  obtain x s4 where x: "tcp_output d TCP_FLG_SYN [] ?s3 = (x, s4)" by (cases "tcp_output d TCP_FLG_SYN [] ?s3")
  have s4: "tcp_get e s4 = (if e = d then map_option (queued (fst (tcp_now ?s3)) TCP_FLG_SYN []) (tcp_get d ?s3)
      else tcp_get e s)" "lower s s4" for e
    using tcp_get_output [of e d TCP_FLG_SYN "[]" ?s3] s2 lower_step_trans(1) [of s ?s3 d TCP_FLG_SYN "[]"] x
    by simp_all
  have "evolves (at d syn_rel) s (transition d Closed s4)"
    "evolves (at d syn_rel) s (transition d SynSent
       (tcp_mod d (\<lambda>p. p\<lparr>snd_una := t_iss p, snd_nxt := t_iss p + 1\<rparr>) s4))"
    by (auto simp: evolves_def at_def s4 s2 syn_rel_def split: if_splits)
  with s4(2) show ?thesis by (cases x) (simp_all add: send_syn_def r x)
qed

lemma send_syn_wf:
  assumes "tcp_wf_on D s" and "\<And>p. tcp_get d s = Some p \<Longrightarrow> d \<notin> D \<Longrightarrow> t_buf p = []"
  shows "tcp_wf_on D (snd (send_syn d loc rem s))"
  using assms(2) send_syn_evolves [of d s loc rem]
  by (intro tcp_wf_at [OF assms(1), of d syn_rel])
    (auto simp: syn_rel_def win_defs RECV_BUF_SIZE_def)

lemma tcp_wf_set_mss: "tcp_wf_on D s \<Longrightarrow> tcp_wf_on D (snd (set_mss d s))"
  by (auto simp: set_mss_def tcp_wf_panic win_defs intro!: tcp_wf_mod split: option.splits)

lemma open_start_wf:
  assumes "tcp_wf_on D s"
  shows "tcp_wf_on D (snd (open_start loc rem active s))"
proof (cases "fst (tcp_pcb_alloc s)")
  case None
  then obtain s1 where "tcp_pcb_alloc s = (None, s1)" by (cases "tcp_pcb_alloc s") auto
  with tcp_wf_alloc [OF assms] show ?thesis by (simp add: open_start_def)
next
  case (Some d)
  then obtain s1 where alloc: "tcp_pcb_alloc s = (Some d, s1)" by (cases "tcp_pcb_alloc s") auto
  have s1: "tcp_wf_on D s1" using tcp_wf_alloc [OF assms] alloc by simp
  have empty: "t_buf p = []" if "tcp_get d s1 = Some p" for p
    using that tcp_alloc_get [OF Some, of d] alloc by (auto simp: tcp_pcb_empty_def)
  have syn: "tcp_wf_on D (snd (send_syn d l rem s1))" for l by (rule send_syn_wf [OF s1 empty])
  then have syn': "send_syn d l rem s1 = (x, s2) \<Longrightarrow> tcp_wf_on D s2" for l x s2 by (metis snd_conv)
  have rel: "tcp_wf_on D (snd (tcp_pcb_release d s2))" if "tcp_wf_on D s2" for s2
    using that by (rule tcp_wf_release) simp_all
  have "tcp_wf_on D (transition d Listen (tcp_mod d (\<lambda>p. p\<lparr>t_local := loc, t_remote := rem\<rparr>) s1))"
    unfolding transition_def
    by (intro tcp_wf_mod [OF tcp_wf_mod [OF s1]]) (auto simp: win_defs dest: empty)
  with rel s1 syn' alloc show ?thesis
    by (auto simp: open_start_def split: result.splits prod.splits)
qed

lemma passes_wf:
  assumes "tcp_wf_on D s"
  shows "tcp_wf_on D (snd (open_pass d s))" and "tcp_wf_on D (snd (open_interrupted d s))"
    and "tcp_wf_on D (snd (connect_pass d s))" and "tcp_wf_on D (snd (tcp_close d s))"
proof -
  have rel: "tcp_wf_on D (snd (tcp_pcb_release d (transition d Closed s)))"
    by (rule tcp_wf_release [OF assms]) simp_all
  then show "tcp_wf_on D (snd (open_pass d s))" "tcp_wf_on D (snd (open_interrupted d s))"
    using assms by (simp_all add: open_pass_def open_interrupted_def split: option.splits)
  show "tcp_wf_on D (snd (connect_pass d s))"
    using assms by (simp add: connect_pass_def tcp_wf_transition split: option.splits)
  have fin: "tcp_wf_on D (tcp_notify d (send_fin d st s))"
    if "tcp_get d s = Some p" "t_state p \<notin> {Closed, Listen}" "st \<noteq> Listen" for p st
    unfolding send_fin_def
    by (intro tcp_wf_notify tcp_wf_transition tcp_wf_mod tcp_wf_output assms)
      (use that in \<open>auto simp: win_defs\<close>)
  show "tcp_wf_on D (snd (tcp_close d s))"
    using rel fin assms by (auto simp: tcp_close_def split: option.splits tcp_st.splits)
qed

lemma send_pass_wf:
  assumes "tcp_wf_on D s"
  shows "tcp_wf_on D (snd (send_pass d data sent s))"
proof -
  have "tcp_wf_on D (tcp_mod d (\<lambda>p. p\<lparr>snd_nxt := snd_nxt p + n\<rparr>) (snd (tcp_output d flg x s)))" for n flg x
    by (intro tcp_wf_mod tcp_wf_output assms) (auto simp: win_defs)
  with assms show ?thesis by (simp add: send_pass_def Let_def split: option.splits)
qed

section \<open>Receive\<close>

definition can_take :: "tcp_pcb \<Rightarrow> bool" where
  "can_take p \<longleftrightarrow> t_state p \<in> {Established, FinWait1, FinWait2, CloseWait} \<and> t_buf p \<noteq> []"

lemma take_buf_ok:
  assumes "win_ok p" and "can_take p" and "n = min buf_len (length (t_buf p))"
  shows "take_buf d buf_len p s = (Return (Ok (take n (t_buf p))),
      tcp_mod d (\<lambda>p. p\<lparr>t_buf := drop n (t_buf p), rcv_wnd := rcv_wnd p + of_nat n\<rparr>) s)"
    and "unat (rcv_wnd p + of_nat n) = unat (rcv_wnd p) + n"
proof -
  have len: "unat (rcv_wnd p) + length (t_buf p) = 65535"
    using assms by (auto simp: win_ok_def can_take_def RECV_BUF_SIZE_def)
  then have n: "unat (of_nat n :: u16) = n" "unat (rcv_wnd p) + n \<le> 65535"
    using assms(3) by (simp_all add: unat_of_nat_u16)
  then show "take_buf d buf_len p s = (Return (Ok (take n (t_buf p))),
      tcp_mod d (\<lambda>p. p\<lparr>t_buf := drop n (t_buf p), rcv_wnd := rcv_wnd p + of_nat n\<rparr>) s)"
    by (simp add: take_buf_def Let_def assms(3) [symmetric])
  show "unat (rcv_wnd p + of_nat n) = unat (rcv_wnd p) + n"
    using n unfolding unat_word_ariths(1) by simp
qed

lemma receive_takes:
  assumes "tcp_wf s" and "tcp_get d s = Some p" and "can_take p" and "n = min buf_len (length (t_buf p))"
  shows "receive_pass d buf_len s = (Return (Ok (take n (t_buf p))),
      tcp_mod d (\<lambda>p. p\<lparr>t_buf := drop n (t_buf p), rcv_wnd := rcv_wnd p + of_nat n\<rparr>) s)"
  using take_buf_ok(1) [OF tcp_wfD(2) [OF assms(1, 2)] assms(3, 4)] assms(2, 3)
  by (auto simp: receive_pass_def can_take_def)

text \<open>
  A control block of \<open>D\<close> may advertise more than the free part of its buffer: there the addition to
  the window can overflow, and the call panics with the table unchanged.
\<close>

lemma take_buf_wf:
  assumes "tcp_wf_on D s" and "tcp_get d s = Some p" and "can_take p"
  shows "tcp_wf_on D (snd (take_buf d buf_len p s))"
proof -
  define n where "n = min buf_len (length (t_buf p))"
  have "win_at D d (p\<lparr>t_buf := drop n (t_buf p), rcv_wnd := rcv_wnd p + of_nat n\<rparr>)"
    using tcp_wf_onD(2) [OF assms(1, 2)] take_buf_ok(2) [OF _ assms(3) n_def] assms(3)
    by (auto simp: win_defs can_take_def n_def)
  with assms(1, 2) show ?thesis
    by (auto simp: take_buf_def Let_def n_def [symmetric] tcp_wf_panic intro!: tcp_wf_mod)
qed

lemma receive_pass_wf: "tcp_wf_on D s \<Longrightarrow> tcp_wf_on D (snd (receive_pass d buf_len s))"
  by (auto simp: receive_pass_def can_take_def intro!: take_buf_wf split: option.splits)

section \<open>Socket calls\<close>

lemma socket_calls_wf:
  assumes "tcp_wf_on D s"
  shows "tcp_wf_on D (snd (tcp_socket s))" and "tcp_wf_on D (snd (tcp_bind d loc s))"
    and "(\<And>p. tcp_get d s = Some p \<Longrightarrow> d \<notin> D \<Longrightarrow> t_buf p = []) \<Longrightarrow> tcp_wf_on D (snd (tcp_listen d n s))"
    and "(\<And>p. tcp_get d s = Some p \<Longrightarrow> d \<notin> D \<Longrightarrow> t_buf p = []) \<Longrightarrow> tcp_wf_on D (snd (connect_start d rem s))"
proof -
  have "tcp_wf_on D s1" if "tcp_pcb_alloc s = (x, s1)" for x s1
    using tcp_wf_alloc [OF assms] that by simp
  then show "tcp_wf_on D (snd (tcp_socket s))"
    by (auto simp: tcp_socket_def win_defs intro!: tcp_wf_mod split: prod.splits option.splits)
  show "tcp_wf_on D (snd (tcp_bind d loc s))"
    using assms by (auto simp: tcp_bind_def win_defs intro!: tcp_wf_mod split: option.splits)
  show "tcp_wf_on D (snd (tcp_listen d n s))" if "\<And>p. tcp_get d s = Some p \<Longrightarrow> d \<notin> D \<Longrightarrow> t_buf p = []"
    using assms that
    by (auto simp: tcp_listen_def transition_def win_defs intro!: tcp_wf_mod split: option.splits)
  show "tcp_wf_on D (snd (connect_start d rem s))" if "\<And>p. tcp_get d s = Some p \<Longrightarrow> d \<notin> D \<Longrightarrow> t_buf p = []"
    using assms send_syn_wf [of D s d, OF assms that]
    by (simp add: connect_start_def split: option.splits result.splits)
qed

text \<open>\<open>accept\<close> only pops backlog entries and sets a segment size.\<close>

lemma accept_pass_preserves:
  assumes "P s" and mod: "\<And>s ds. P s \<Longrightarrow> P (tcp_mod d (\<lambda>p. p\<lparr>t_backlog := ds\<rparr>) s)"
    and mss: "\<And>s e. P s \<Longrightarrow> P (snd (set_mss e s))"
  shows "P (snd (accept_pass d s))"
  using assms(1) mod
proof (induction d s rule: accept_pass.induct)
  case (1 d s)
  note mod = "1.prems"(2) [OF "1.prems"(1)]
  have mss: "P s2" if "set_mss e (tcp_mod d (\<lambda>p. p\<lparr>t_backlog := ds\<rparr>) s) = (x, s2)" for e ds x s2
    using mss [OF mod [of ds], of e] that by simp
  show ?case
  proof (cases "\<exists>p b ds. tcp_get d s = Some p \<and> t_state p = Listen \<and> t_backlog p = b # ds \<and>
      tcp_get b (tcp_mod d (\<lambda>p. p\<lparr>t_backlog := ds\<rparr>) s) = None")
    case True
    then obtain p b ds where p: "tcp_get d s = Some p" "t_state p = Listen" "t_backlog p = b # ds"
      "tcp_get b (tcp_mod d (\<lambda>p. p\<lparr>t_backlog := ds\<rparr>) s) = None" by blast
    then show ?thesis
      using "1.IH" [OF p(1) _ p(3) refl p(4)] mod "1.prems"(2) by (simp add: accept_pass.simps [of d s])
  next
    case False
    then show ?thesis using "1.prems"(1) mss
      by (auto simp: accept_pass.simps [of d s] Let_def split: option.splits list.splits prod.splits result.splits)
  qed
qed

lemma accept_pass_wf: "tcp_wf_on D s \<Longrightarrow> tcp_wf_on D (snd (accept_pass d s))"
  by (rule accept_pass_preserves) (auto intro!: tcp_wf_mod tcp_wf_set_mss simp: win_defs)

section \<open>All events\<close>

datatype tcp_event =
    EOpen ip_endp ip_endp bool
  | EOpenPass nat
  | EOpenInterrupted nat
  | EClose nat
  | ESend nat bytes nat
  | EReceive nat nat
  | ESocket
  | EBind nat ip_endp
  | EListen nat nat
  | EAccept nat
  | EConnect nat ip_endp
  | EConnectPass nat
  | EConnectInterrupted nat
  | ESetMss nat
  | EInput bytes bytes ip_iface
  | ETimer

fun tcp_apply :: "tcp_event \<Rightarrow> tcp_state \<Rightarrow> tcp_state" where
  "tcp_apply (EOpen loc rem active) s = snd (open_start loc rem active s)"
| "tcp_apply (EOpenPass d) s = snd (open_pass d s)"
| "tcp_apply (EOpenInterrupted d) s = snd (open_interrupted d s)"
| "tcp_apply (EClose d) s = snd (tcp_close d s)"
| "tcp_apply (ESend d data sent) s = snd (send_pass d data sent s)"
| "tcp_apply (EReceive d n) s = snd (receive_pass d n s)"
| "tcp_apply ESocket s = snd (tcp_socket s)"
| "tcp_apply (EBind d loc) s = snd (tcp_bind d loc s)"
| "tcp_apply (EListen d n) s = snd (tcp_listen d n s)"
| "tcp_apply (EAccept d) s = snd (accept_pass d s)"
| "tcp_apply (EConnect d rem) s = snd (connect_start d rem s)"
| "tcp_apply (EConnectPass d) s = snd (connect_pass d s)"
| "tcp_apply (EConnectInterrupted d) s = transition d Closed s"
| "tcp_apply (ESetMss d) s = snd (set_mss d s)"
| "tcp_apply (EInput hdr data iface) s = tcp_input hdr data iface s"
| "tcp_apply ETimer s = tcp_on_timer s"

text \<open>
  The two calls that start a new connection on a control block do not empty its buffer: a control
  block that holds text of an earlier connection enters the set of those whose window may exceed
  the free part of the buffer.
\<close>

definition leftover :: "nat \<Rightarrow> tcp_state \<Rightarrow> nat set" where
  "leftover d s = (case tcp_get d s of None \<Rightarrow> {} | Some p \<Rightarrow> if t_buf p = [] then {} else {d})"

fun reopened :: "tcp_event \<Rightarrow> tcp_state \<Rightarrow> nat set" where
  "reopened (EListen d n) s = leftover d s"
| "reopened (EConnect d rem) s = leftover d s"
| "reopened _ s = {}"

lemma leftover_buf: "tcp_get d s = Some p \<Longrightarrow> d \<notin> D \<union> leftover d s \<Longrightarrow> t_buf p = []"
  by (simp add: leftover_def split: if_splits)

lemma tcp_apply_wf:
  assumes "tcp_wf_on D s"
  shows "tcp_wf_on (D \<union> reopened e s) (tcp_apply e s)"
proof -
  have wf: "tcp_wf_on (D \<union> reopened e s) s" by (rule tcp_wf_on_mono [OF assms]) simp
  show ?thesis
    by (cases e) (use wf leftover_buf [where s = s and D = D] in
      \<open>auto simp: open_start_wf passes_wf send_pass_wf receive_pass_wf accept_pass_wf tcp_wf_transition
        tcp_wf_set_mss tcp_input_wf tcp_on_timer_wf intro!: socket_calls_wf\<close>)
qed

text \<open>
  The states of the table: any sequence of segments, timer ticks and steps of user calls from the
  empty table. The set records which control blocks were re-opened with unread text; one that has
  been freed can be forgotten.
\<close>

inductive tcp_reach :: "nat set \<Rightarrow> tcp_state \<Rightarrow> bool" where
  start: "tcp_reach {} \<lparr>tcp_host = h, tcp_pcbs = []\<rparr>"
| step: "tcp_reach D s \<Longrightarrow> tcp_reach (D \<union> reopened e s) (tcp_apply e s)"
| forget: "tcp_reach D s \<Longrightarrow> tcp_get d s = None \<Longrightarrow> tcp_reach (D - {d}) s"

lemma tcp_reach_wf: "tcp_reach D s \<Longrightarrow> tcp_wf_on D s"
  by (induction rule: tcp_reach.induct) (simp_all only: tcp_init_wf tcp_apply_wf tcp_wf_on_forget)

end
