(* ===== verification/Tcp_Flow.thy ===== *)
theory Tcp_Flow
  imports Tcp_User_Props
begin

text \<open>
  Data transfer and connection establishment: the acceptance test against that of RFC 793, the
  delivery of in-order text, the send loop, the last step of the handshake with \<open>accept\<close>, and
  the places where the code departs from the RFC.
\<close>

text \<open>The sections of \<open>segment_arrives\<close> for a synchronised connection, but for the text.\<close>

lemmas segment_sections = segment_arrives_def seg_synchronized_def with_pcb_def section_then_def
  seg_ack_syn_received_def seg_ack_states_def notify_parent_def seg_fin_def

section \<open>The acceptance test\<close>

text \<open>The test of RFC 793, with distances modulo \<open>2 ^ 32\<close>.\<close>

definition in_window :: "u32 \<Rightarrow> u16 \<Rightarrow> u32 \<Rightarrow> bool" where
  "in_window nxt wnd x \<longleftrightarrow> unat (x - nxt) < unat wnd"

definition rfc_acceptable :: "u32 \<Rightarrow> u16 \<Rightarrow> u32 \<Rightarrow> u32 \<Rightarrow> bool" where
  "rfc_acceptable nxt wnd seq len =
     (if len = 0 then if wnd = 0 then seq = nxt else in_window nxt wnd seq
      else wnd \<noteq> 0 \<and> (in_window nxt wnd seq \<or> in_window nxt wnd (seq + len - 1)))"

lemma unat_add_wnd:
  assumes "unat nxt + unat wnd < 2 ^ 32"
  shows "unat (nxt + ucast (wnd :: u16) :: u32) = unat nxt + unat wnd"
  using assms by (simp add: unat_word_ariths unat_ucast_u16)

lemma window_linear:
  assumes "unat nxt + unat wnd < 2 ^ 32"
  shows "(nxt \<le> x \<and> x < nxt + ucast wnd) \<longleftrightarrow> in_window nxt wnd x"
proof (cases "nxt \<le> x")
  case True
  then have "unat (x - nxt) = unat x - unat nxt" by (rule unat_sub)
  moreover have "unat nxt \<le> unat x" using True by (simp add: word_le_nat_alt)
  ultimately show ?thesis
    using True by (auto simp: in_window_def word_less_nat_alt unat_add_wnd [OF assms])
next
  case False
  then have less: "unat x < unat nxt" by (simp add: word_le_nat_alt)
  then have "unat (x - nxt) = unat x + 4294967296 - unat nxt"
    using unat_sub_if' [of x nxt] by (simp add: word_le_nat_alt)
  then have "unat (x - nxt) = 4294967296 - unat nxt + unat x"
    using unat_u32_less [of nxt] by linarith
  with assms False show ?thesis by (simp add: in_window_def)
qed

lemma seg_acceptable_rfc:
  assumes "unat (rcv_nxt p) + unat (rcv_wnd p) < 2 ^ 32"
  shows "seg_acceptable p seg \<longleftrightarrow> rfc_acceptable (rcv_nxt p) (rcv_wnd p) (seg_seq seg) (seg_len seg)"
  by (simp add: seg_acceptable_def rfc_acceptable_def window_linear [OF assms] Let_def)

text \<open>When the window reaches over the end of the sequence space, no segment passes.\<close>

lemma seg_acceptable_wrap:
  assumes "2 ^ 32 \<le> unat (rcv_nxt p) + unat (rcv_wnd p)"
  shows "\<not> seg_acceptable p seg"
proof -
  have wnd: "rcv_wnd p \<noteq> 0" using assms unat_u32_less [of "rcv_nxt p"] by (cases "rcv_wnd p = 0") auto
  have "unat (rcv_nxt p + ucast (rcv_wnd p)) < unat (rcv_nxt p)"
  proof -
    let ?n = "unat (rcv_nxt p) + unat (rcv_wnd p)"
    have "4294967296 \<le> ?n" using assms by simp
    moreover have less: "?n - 4294967296 < unat (rcv_nxt p)" "?n - 4294967296 < 4294967296"
      using \<open>4294967296 \<le> ?n\<close> unat_u16_less [of "rcv_wnd p"] unat_u32_less [of "rcv_nxt p"] by linarith+
    ultimately have "?n mod 4294967296 = ?n - 4294967296"
      using le_mod_geq [of 4294967296 ?n] mod_less [OF less(2)] by simp
    moreover note less(1)
    ultimately show ?thesis by (simp add: unat_word_ariths unat_ucast_u16)
  qed
  then have "\<not> (rcv_nxt p \<le> x \<and> x < rcv_nxt p + ucast (rcv_wnd p))" for x
    by (auto simp: word_le_nat_alt word_less_nat_alt)
  with wnd show ?thesis by (simp add: seg_acceptable_def Let_def)
qed

section \<open>In-order text\<close>

text \<open>A plain data segment: acknowledgment within the window of sent bytes, next expected byte.\<close>

definition plain_ack :: "u8 \<Rightarrow> bool" where
  "plain_ack flags \<longleftrightarrow> flag_isset flags TCP_FLG_ACK \<and> \<not> flag_isset flags TCP_FLG_SYN \<and>
     \<not> flag_isset flags TCP_FLG_RST \<and> \<not> flag_isset flags TCP_FLG_FIN"

lemma in_order_acceptable:
  assumes "unat (rcv_nxt p) + unat (rcv_wnd p) < 2 ^ 32" and "seg_seq seg = rcv_nxt p" and "rcv_wnd p \<noteq> 0"
  shows "seg_acceptable p seg"
  using assms by (simp add: seg_acceptable_rfc rfc_acceptable_def in_window_def unat_gt_0)

lemma ack_update_next:
  assumes "tcp_get d s = Some p" and "seg_ack seg \<le> snd_nxt p"
  obtains s1 q where "ack_update d p seg s = Next () s1" "tcp_get d s1 = Some q"
    "ack_rel seg p q" "t_state q = t_state p"
proof -
  have "\<exists>s1. ack_update d p seg s = Next () s1"
    using assms(2) by (auto simp: ack_update_def Let_def not_less)
  then obtain s1 where s1: "ack_update d p seg s = Next () s1" by blast
  have "\<exists>q. tcp_get d s1 = Some q"
    using s1 assms(1) by (auto simp: ack_update_def Let_def split: if_splits)
  then obtain q where "tcp_get d s1 = Some q" by blast
  moreover from this have "ack_rel seg p q" "t_state q = t_state p"
    using ack_update_evolves [OF assms(1), of seg] s1 assms(1) unfolding evolves_def at_def
    by (metis option.inject section_state.simps(2))+
  ultimately show ?thesis using that s1 by blast
qed

lemma ack_update_tasks:
  "tcp_tasks (section_state (ack_update d p seg s)) = tcp_tasks s"
  by (simp add: ack_update_def Let_def)

lemma in_order_text:
  assumes p: "tcp_get d s = Some p" "t_state p = Established"
    and sel: "tcp_pcb_select loc rem s = Some d"
    and seg: "plain_ack flags" "seg_ack seg \<le> snd_nxt p" "seg_seq seg = rcv_nxt p"
    and data: "data \<noteq> []" "length data \<le> unat (rcv_wnd p)"
    and wrap: "unat (rcv_nxt p) + unat (rcv_wnd p) < 2 ^ 32"
  shows "\<exists>q. tcp_get d (segment_arrives seg flags data loc rem s) = Some q \<and>
      t_state q = Established \<and> t_buf q = t_buf p @ data \<and>
      rcv_nxt q = rcv_nxt p + of_nat (length data) \<and> rcv_wnd q = rcv_wnd p - of_nat (length data)"
    and "tcp_tasks (segment_arrives seg flags data loc rem s) = task_notify (t_task p) (tcp_tasks s)"
proof -
  have "rcv_wnd p \<noteq> 0" using data by auto
  then have "seg_acceptable p seg" using wrap seg(3) by (intro in_order_acceptable)
  then have check: "seg_check d p seg flags s = Next () s"
    using seg(1) by (simp add: seg_check_def plain_ack_def)
  obtain s1 p1 where s1: "ack_update d p seg s = Next () s1" "tcp_get d s1 = Some p1"
    "ack_rel seg p p1" "t_state p1 = t_state p"
    using ack_update_next [OF p(1) seg(2)] .
  have p1: "rcv_nxt p1 = rcv_nxt p" "rcv_wnd p1 = rcv_wnd p" "t_buf p1 = t_buf p" "t_task p1 = t_task p"
    using s1(3) by (simp_all add: ack_rel_def rel_defs)
  have tasks: "tcp_tasks s1 = tcp_tasks s" using ack_update_tasks [of d p seg s] s1(1) by simp
  let ?s2 = "tcp_mod d (\<lambda>p. p\<lparr>t_buf := t_buf p @ data, rcv_nxt := seg_seq seg + of_nat (length data),
      rcv_wnd := rcv_wnd p - of_nat (length data)\<rparr>) s1"
  have tx: "seg_text d p1 seg data s1 = Next () (tcp_notify d (snd (tcp_output d TCP_FLG_ACK [] ?s2)))"
    using data seg(3) s1(4) p(2) p1 by (simp add: seg_text_def Let_def)
  have all: "segment_arrives seg flags data loc rem s = tcp_notify d (snd (tcp_output d TCP_FLG_ACK [] ?s2))"
    using sel p seg(1) check s1 tx
    by (simp add: segment_sections plain_ack_def)
  show "\<exists>q. tcp_get d (segment_arrives seg flags data loc rem s) = Some q \<and>
      t_state q = Established \<and> t_buf q = t_buf p @ data \<and>
      rcv_nxt q = rcv_nxt p + of_nat (length data) \<and> rcv_wnd q = rcv_wnd p - of_nat (length data)"
    "tcp_tasks (segment_arrives seg flags data loc rem s) = task_notify (t_task p) (tcp_tasks s)"
    by (simp_all add: all s1 p1 seg(3) p(2) tasks)
qed

section \<open>Send\<close>

definition in_flight :: "tcp_pcb \<Rightarrow> nat" where
  "in_flight p = unat (snd_nxt p - snd_una p)"

definition queue_data :: "tcp_pcb \<Rightarrow> bytes" where
  "queue_data p = concat (map q_data (t_queue p))"

lemma slice_drop: "slice n (n + k) xs @ drop (n + k) xs = drop n xs"
  by (simp add: slice_def) (metis append_take_drop_id drop_drop add.commute)

lemma queue_data_queued:
  "\<not> takes_sequence flg [] \<Longrightarrow> queue_data (queued t flg data p) = queue_data p @ data"
  by (cases "data = []") (auto simp: queued_def queue_data_def takes_sequence_def)

lemma psh_control: "\<not> takes_sequence (TCP_FLG_ACK OR TCP_FLG_PSH) []"
  by (simp add: takes_sequence_def flag_isset_def tcp_flags)

text \<open>
  One pass that sends: the bytes are those at the current position, at most a segment and at
  most what the window of the peer still admits, and they join the retransmission queue.
\<close>

definition sent_bytes :: "tcp_pcb \<Rightarrow> bytes \<Rightarrow> nat \<Rightarrow> nat" where
  "sent_bytes p data sent = min (min (unat (t_mss p)) (length data - sent)) (send_cap p)"

lemma send_pass_more:
  assumes p: "tcp_get d s = Some p" "t_state p \<in> {Established, CloseWait}"
    and "sent < length data" and "0 < send_cap p" and n: "n = sent_bytes p data sent"
  shows "\<exists>s' q. send_pass d data sent s = (SendMore (sent + n), s') \<and> tcp_get d s' = Some q \<and>
      t_state q = t_state p \<and> t_mss q = t_mss p \<and> snd_una q = snd_una p \<and> snd_wnd q = snd_wnd p \<and>
      t_buf q = t_buf p \<and> snd_nxt q = snd_nxt p + of_nat n \<and>
      queue_data q = queue_data p @ slice sent (sent + n) data \<and>
      in_flight q = in_flight p + n \<and> in_flight q \<le> unat (snd_wnd p) \<and>
      (\<forall>e. e \<noteq> d \<longrightarrow> tcp_get e s' = tcp_get e s)"
proof -
  let ?x = "slice sent (sent + n) data"
  let ?s1 = "snd (tcp_output d (TCP_FLG_ACK OR TCP_FLG_PSH) ?x s)"
  let ?s2 = "tcp_mod d (\<lambda>p. p\<lparr>snd_nxt := snd_nxt p + of_nat n\<rparr>) ?s1"
  let ?q = "(queued (fst (tcp_now s)) (TCP_FLG_ACK OR TCP_FLG_PSH) ?x p)\<lparr>snd_nxt := snd_nxt p + of_nat n\<rparr>"
  have pass: "send_pass d data sent s = (SendMore (sent + n), ?s2)"
    using assms by (auto simp: send_pass_def Let_def sent_bytes_def)
  have q: "tcp_get d ?s2 = Some ?q" using p(1) by simp
  have cap: "in_flight p + n \<le> unat (snd_wnd p)"
    using assms(4) n by (simp add: sent_bytes_def send_cap_def in_flight_def)
  then have small: "in_flight p + n < 65536" using unat_u16_less [of "snd_wnd p"] by linarith
  have "in_flight ?q = unat ((snd_nxt p - snd_una p) + of_nat n)"
    by (simp add: in_flight_def algebra_simps)
  also have "\<dots> = in_flight p + n"
  proof -
    have "unat (of_nat n :: u32) = n" using small by (simp add: unat_of_nat_u32)
    then show ?thesis using small unfolding unat_word_ariths(1) by (simp add: in_flight_def)
  qed
  finally have flight: "in_flight ?q = in_flight p + n" .
  have data: "queue_data ?q = queue_data p @ ?x"
    using queue_data_queued [OF psh_control] by (simp add: queue_data_def)
  show ?thesis
    using pass q flight data cap by (intro exI [of _ ?s2] exI [of _ ?q]) simp
qed

text \<open>
  The loop returns after at most one pass per byte when the window has room for all of the data:
  everything is sent, in order, and waits in the queue for its acknowledgment.
\<close>

lemma send_loop_completes:
  assumes "tcp_get d s = Some p" and "t_state p \<in> {Established, CloseWait}" and "t_mss p \<noteq> 0"
    and "sent \<le> length data" and "length data - sent \<le> send_cap p" and "length data - sent < fuel"
  shows "\<exists>s' q. send_loop (send_pass d data) fuel wakes sent s = Some (Ok (length data), s') \<and> tcp_get d s' = Some q \<and>
      snd_nxt q = snd_nxt p + of_nat (length data - sent) \<and>
      queue_data q = queue_data p @ drop sent data \<and>
      t_state q = t_state p \<and> t_mss q = t_mss p \<and> t_buf q = t_buf p \<and>
      send_cap q = send_cap p - (length data - sent)"
  using assms
proof (induction fuel arbitrary: s p sent)
  case (Suc fuel)
  show ?case
  proof (cases "sent = length data")
    case True
    with Suc.prems show ?thesis by (auto simp: send_pass_def)
  next
    case False
    define n where "n = sent_bytes p data sent"
    have "0 < unat (t_mss p)" using Suc.prems(3) by (simp add: unat_gt_0)
    then have n: "0 < n" "n \<le> length data - sent"
      using Suc.prems False by (auto simp: n_def sent_bytes_def)
    have "0 < send_cap p" using Suc.prems False by simp
    from send_pass_more [OF Suc.prems(1, 2) _ this n_def] Suc.prems(4) False
    obtain s1 q where s1: "send_pass d data sent s = (SendMore (sent + n), s1)" "tcp_get d s1 = Some q"
      "t_state q = t_state p" "t_mss q = t_mss p" "snd_una q = snd_una p" "snd_wnd q = snd_wnd p"
      "snd_nxt q = snd_nxt p + of_nat n" "queue_data q = queue_data p @ slice sent (sent + n) data"
      "in_flight q = in_flight p + n" "t_buf q = t_buf p" by auto
    have cap: "send_cap q = send_cap p - n"
      using s1 by (simp add: send_cap_def in_flight_def)
    have "\<exists>s' r. send_loop (send_pass d data) fuel wakes (sent + n) s1 = Some (Ok (length data), s') \<and>
        tcp_get d s' = Some r \<and> snd_nxt r = snd_nxt q + of_nat (length data - (sent + n)) \<and>
        queue_data r = queue_data q @ drop (sent + n) data \<and>
        t_state r = t_state q \<and> t_mss r = t_mss q \<and> t_buf r = t_buf q \<and>
        send_cap r = send_cap q - (length data - (sent + n))"
      by (rule Suc.IH [OF s1(2)]) (use Suc.prems n s1 cap in auto)
    then obtain s' r where r: "send_loop (send_pass d data) fuel wakes (sent + n) s1 = Some (Ok (length data), s')"
      "tcp_get d s' = Some r" "snd_nxt r = snd_nxt q + of_nat (length data - (sent + n))"
      "queue_data r = queue_data q @ drop (sent + n) data" "t_state r = t_state q" "t_mss r = t_mss q"
      "t_buf r = t_buf q" "send_cap r = send_cap q - (length data - (sent + n))" by blast
    have "(of_nat n + of_nat (length data - (sent + n)) :: u32) = of_nat (length data - sent)"
      using n by (simp only: of_nat_add [symmetric]) simp
    then have "snd_nxt r = snd_nxt p + of_nat (length data - sent)"
      using r(3) s1(7) by (simp add: add.assoc)
    moreover have "n + (length data - (sent + n)) = length data - sent" using n(2) by simp
    ultimately show ?thesis using r s1 cap slice_drop [of sent n data] by simp
  qed
qed simp

section \<open>The handshake of a server\<close>

text \<open>
  The acknowledgment of our SYN establishes the connection and puts it into the backlog of its
  listener.
\<close>

lemma handshake_completes:
  assumes p: "tcp_get d s = Some p" "t_state p = SynReceived" "parent_desc p = Some l"
    and parent: "tcp_get l s = Some lp" "l \<noteq> d"
    and sel: "tcp_pcb_select loc rem s = Some d"
    and seg: "plain_ack flags" "snd_una p \<le> seg_ack seg" "seg_ack seg \<le> snd_nxt p"
      "seg_seq seg = rcv_nxt p" "rcv_wnd p \<noteq> 0"
    and wrap: "unat (rcv_nxt p) + unat (rcv_wnd p) < 2 ^ 32"
  shows "\<exists>q. tcp_get d (segment_arrives seg flags [] loc rem s) = Some q \<and> t_state q = Established \<and>
      t_remote q = t_remote p"
    and "tcp_get l (segment_arrives seg flags [] loc rem s) = Some (lp\<lparr>t_backlog := t_backlog lp @ [d]\<rparr>)"
proof -
  have check: "seg_check d p seg flags s = Next () s"
    using in_order_acceptable [OF wrap seg(4, 5)] seg(1) by (simp add: seg_check_def plain_ack_def)
  let ?s1 = "tcp_notify d (transition d Established s)"
  let ?p1 = "p\<lparr>t_state := Established\<rparr>"
  have p1: "tcp_get d ?s1 = Some ?p1" by (simp add: p)
  obtain s2 p2 where s2: "ack_update d ?p1 seg ?s1 = Next () s2" "tcp_get d s2 = Some p2"
    "ack_rel seg ?p1 p2" "t_state p2 = Established"
    using ack_update_next [OF p1, of seg] seg(3) by auto
  have rem: "t_remote p2 = t_remote p"
    using s2(1, 2) p1 by (auto simp: ack_update_def Let_def split: if_splits)
  have l2: "tcp_get l s2 = Some lp"
    using s2(1) parent by (auto simp: ack_update_def Let_def split: if_splits)
  have all: "segment_arrives seg flags [] loc rem s = notify_parent d (Some l) s2"
    using sel p seg check s2 l2 parent(2)
    by (simp add: segment_sections plain_ack_def seg_text_def)
  show "\<exists>q. tcp_get d (segment_arrives seg flags [] loc rem s) = Some q \<and> t_state q = Established \<and>
      t_remote q = t_remote p"
    using s2 l2 rem parent(2) by (simp add: all notify_parent_def)
  show "tcp_get l (segment_arrives seg flags [] loc rem s) = Some (lp\<lparr>t_backlog := t_backlog lp @ [d]\<rparr>)"
    using l2 by (simp add: all notify_parent_def)
qed

text \<open>\<open>accept\<close> hands out the oldest connection of the backlog that still exists.\<close>

lemma accept_takes:
  assumes "tcp_get l s = Some lp" and "t_state lp = Listen" and "t_backlog lp = dead @ d # ds"
    and "\<forall>b \<in> set dead. tcp_get b s = None" and "tcp_get d s = Some q"
    and "route_lookup (addr (t_remote q)) (host_ip (tcp_host s)) = Some route"
    and "by_index (tcp_link s) (if_dev (rt_iface route)) = Some dev"
    and "40 \<le> unat (dev_mtu dev)"
  shows "\<exists>s'. accept_pass l s = (Return (Ok (d, t_remote q)), s') \<and>
    (\<exists>lp'. tcp_get l s' = Some lp' \<and> t_backlog lp' = ds) \<and>
    (\<exists>q'. tcp_get d s' = Some q' \<and> t_mss q' = of_nat (unat (dev_mtu dev) - 40))"
  using assms
proof (induction dead arbitrary: s lp q)
  case Nil
  show ?case
    using Nil.prems
    by (subst accept_pass.simps)
      (auto simp: set_mss_def IP_HDR_SIZE_MIN_def TCP_HDR_SIZE_def Let_def split: if_splits)
next
  case (Cons b dead)
  let ?s1 = "tcp_mod l (\<lambda>p. p\<lparr>t_backlog := dead @ d # ds\<rparr>) s"
  have ne: "b \<noteq> l" using Cons.prems(1, 4) by auto
  have step: "accept_pass l s = accept_pass l ?s1"
    using Cons.prems ne by (subst accept_pass.simps) simp
  define q1 where "q1 = (if d = l then q\<lparr>t_backlog := dead @ d # ds\<rparr> else q)"
  have q1: "t_remote q1 = t_remote q" by (simp add: q1_def)
  have "\<exists>s'. accept_pass l ?s1 = (Return (Ok (d, t_remote q1)), s') \<and>
    (\<exists>lp'. tcp_get l s' = Some lp' \<and> t_backlog lp' = ds) \<and>
    (\<exists>q'. tcp_get d s' = Some q' \<and> t_mss q' = of_nat (unat (dev_mtu dev) - 40))"
    by (rule Cons.IH [of ?s1 "lp\<lparr>t_backlog := dead @ d # ds\<rparr>"])
      (use Cons.prems in \<open>auto simp: q1_def\<close>)
  then show ?case unfolding step q1 .
qed

section \<open>Departures\<close>

text \<open>
  A bound socket cannot connect: the check for a conflicting control block finds the socket
  itself, because its remote endpoint is still the wildcard.
\<close>

lemma connect_bound_fails:
  assumes "tcp_get d s = Some p" and "port (t_local p) \<noteq> 0" and "endp_none (t_remote p)"
  shows "connect_start d rem s = (Err, s)"
proof -
  have "tcp_pcb_select loc rem s \<noteq> None"
    if "port loc = port (t_local p)" "addr loc = addr (t_local p) \<or> addr (t_local p) = ip_any" for loc
  proof -
    have "tcp_match loc rem p" using assms(3) that by (auto simp: tcp_match_def)
    with assms(1) show ?thesis unfolding tcp_select_None by blast
  qed
  then have "choose_local (t_local p) rem s = Err"
    using assms(2) by (auto simp: choose_local_def choose_addr_def choose_port_def split: option.splits)
  with assms(1) show ?thesis by (simp add: connect_start_def)
qed

text \<open>
  An acknowledgment that opens a closed window wakes nobody: a sender that waits for the window
  keeps waiting.
\<close>

lemma window_update_silent:
  assumes p: "tcp_get d s = Some p" "t_state p = Established"
    and sel: "tcp_pcb_select loc rem s = Some d"
    and seg: "plain_ack flags" "seg_ack seg \<le> snd_nxt p"
  shows "tcp_tasks (segment_arrives seg flags [] loc rem s) = tcp_tasks s"
proof (cases "seg_acceptable p seg")
  case False
  then show ?thesis
    using sel p seg by (simp add: segment_arrives_def seg_synchronized_def with_pcb_def
        section_then_def seg_check_def)
next
  case True
  then have check: "seg_check d p seg flags s = Next () s"
    using seg(1) by (simp add: seg_check_def plain_ack_def)
  obtain s1 q where s1: "ack_update d p seg s = Next () s1" "tcp_get d s1 = Some q"
    "ack_rel seg p q" "t_state q = t_state p"
    using ack_update_next [OF p(1) seg(2)] .
  have "tcp_tasks s1 = tcp_tasks s" using ack_update_tasks [of d p seg s] s1(1) by simp
  then show ?thesis
    using sel p seg(1) check s1
    by (simp add: segment_sections plain_ack_def seg_text_def)
qed

end
