(* ===== verification/Stack.thy ===== *)
theory Stack
  imports Udp_Props Tcp_Flow
begin

text \<open>
  Composition of the protocols: \<^verbatim>\<open>src/src/net.rs\<close>, the dispatch at the end of \<open>input\<close> in
  \<^verbatim>\<open>src/src/ip.rs\<close>, the \<open>init\<close> functions of the protocols, and the interrupt service routines of
  \<^verbatim>\<open>src/src/platform/linux\<close>. The state of the stack holds the parts the protocol theories work on;
  \<open>on_udp\<close> and \<open>on_tcp\<close> run an operation of a protocol on its part.
\<close>

section \<open>State\<close>

record sock =
  so_family :: u16
  so_ty :: u8
  so_desc :: nat

record stack =
  st_host :: host
  st_udp :: "udp_pcb option list"
  st_tcp :: "tcp_pcb option list"
  st_socks :: "sock option list"

abbreviation st_ip :: "stack \<Rightarrow> ip_state" where
  "st_ip s \<equiv> host_ip (st_host s)"

abbreviation st_link :: "stack \<Rightarrow> link" where
  "st_link s \<equiv> ip_link (st_ip s)"

definition udp_view :: "stack \<Rightarrow> udp_state" where
  "udp_view s = \<lparr>udp_host = st_host s, udp_pcbs = st_udp s\<rparr>"

definition udp_store :: "udp_state \<Rightarrow> stack \<Rightarrow> stack" where
  "udp_store u s = s\<lparr>st_host := udp_host u, st_udp := udp_pcbs u\<rparr>"

definition tcp_view :: "stack \<Rightarrow> tcp_state" where
  "tcp_view s = \<lparr>tcp_host = st_host s, tcp_pcbs = st_tcp s\<rparr>"

definition tcp_store :: "tcp_state \<Rightarrow> stack \<Rightarrow> stack" where
  "tcp_store t s = s\<lparr>st_host := tcp_host t, st_tcp := tcp_pcbs t\<rparr>"

definition on_udp :: "(udp_state \<Rightarrow> 'r \<times> udp_state) \<Rightarrow> stack \<Rightarrow> 'r \<times> stack" where
  "on_udp f s = (let (r, u) = f (udp_view s) in (r, udp_store u s))"

definition on_tcp :: "(tcp_state \<Rightarrow> 'r \<times> tcp_state) \<Rightarrow> stack \<Rightarrow> 'r \<times> stack" where
  "on_tcp f s = (let (r, t) = f (tcp_view s) in (r, tcp_store t s))"

definition st_with_ip :: "ip_state \<Rightarrow> stack \<Rightarrow> stack" where
  "st_with_ip i s = s\<lparr>st_host := (st_host s)\<lparr>host_ip := i\<rparr>\<rparr>"

definition st_with_link :: "link \<Rightarrow> stack \<Rightarrow> stack" where
  "st_with_link l s = st_with_ip ((st_ip s)\<lparr>ip_arp := (ip_arp (st_ip s))\<lparr>arp_link := l\<rparr>\<rparr>) s"

section \<open>Input\<close>

definition ip_deliver :: "ip_handler \<Rightarrow> bytes \<Rightarrow> bytes \<Rightarrow> ip_iface \<Rightarrow> stack \<Rightarrow> stack" where
  "ip_deliver h hdr payload iface s =
     (case h of
        IcmpInput \<Rightarrow> st_with_ip (icmp_input hdr payload iface (st_ip s)) s
      | UdpInput \<Rightarrow> udp_store (udp_input hdr payload iface (udp_view s)) s
      | TcpInput \<Rightarrow> tcp_store (tcp_input hdr payload iface (tcp_view s)) s)"

definition ip_input :: "bytes \<Rightarrow> device \<Rightarrow> stack \<Rightarrow> stack" where
  "ip_input data dev s =
     (case ip_input_verdict data dev (ip_protocols (st_ip s)) of
        IpDrop \<Rightarrow> s
      | IpPanic \<Rightarrow> st_with_ip (ip_panic (st_ip s)) s
      | IpDeliver h payload iface \<Rightarrow> ip_deliver h data payload iface s
      | IpUnreach quoted iface \<Rightarrow>
          st_with_ip (snd (icmp_output ICMP_TYPE_DEST_UNREACH ICMP_CODE_PROTO_UNREACH 0 quoted
                             (if_unicast iface) (ip_src data) (st_ip s))) s)"

definition net_dispatch :: "net_handler \<Rightarrow> bytes \<Rightarrow> nat \<Rightarrow> stack \<Rightarrow> stack" where
  "net_dispatch h data i s =
     (case h of
        ArpInput \<Rightarrow> st_with_ip ((st_ip s)\<lparr>ip_arp := arp_input data i (ip_arp (st_ip s))\<rparr>) s
      | IpInput \<Rightarrow> (case by_index (st_link s) i of None \<Rightarrow> s | Some dev \<Rightarrow> ip_input data dev s))"

text \<open>
  One pass of the loop of \<open>softirq_handler\<close>; \<open>None\<close> when the queue is empty. Handlers may queue
  packets themselves (over the loopback device), so the loop runs on fuel.
\<close>

definition softirq_step :: "stack \<Rightarrow> stack option" where
  "softirq_step s =
     (case softirq_pop (st_link s) of
        None \<Rightarrow> None
      | Some ((h, entry), l) \<Rightarrow>
          let s1 = st_with_link l s
          in Some (case h of
                     None \<Rightarrow> s1
                   | Some h' \<Rightarrow> net_dispatch h' (ie_data entry) (ie_dev entry) s1))"

fun softirq_handler :: "nat \<Rightarrow> stack \<Rightarrow> stack option" where
  "softirq_handler 0 s = None"
| "softirq_handler (Suc fuel) s =
     (case softirq_step s of None \<Rightarrow> Some s | Some s' \<Rightarrow> softirq_handler fuel s')"

section \<open>Timers\<close>

definition run_timer :: "timer_id \<Rightarrow> stack \<Rightarrow> stack" where
  "run_timer h s =
     (case h of
        ArpTimer \<Rightarrow> st_with_ip ((st_ip s)\<lparr>ip_arp := arp_on_timer (ip_arp (st_ip s))\<rparr>) s
      | TcpTimer \<Rightarrow> tcp_store (tcp_on_timer (tcp_view s)) s)"

definition timer_interrupt :: "stack \<Rightarrow> stack" where
  "timer_interrupt s =
     (let l = st_link s; (hs, ts, os') = timer_isr (timers l) (lk_os l)
      in fold run_timer hs (st_with_link (l\<lparr>timers := ts, lk_os := os'\<rparr>) s))"

text \<open>
  The loop over the handlers of a signal in \<open>intr_main\<close>. \<open>reads\<close> gives the results of the \<open>read\<close>
  calls of each device, \<open>fuel\<close> bounds the packets a software interrupt handles.
\<close>

definition run_isr :: "nat \<Rightarrow> (nat \<Rightarrow> read_result list) \<Rightarrow> isr_id \<Rightarrow> stack \<Rightarrow> stack option" where
  "run_isr fuel reads h s =
     (case h of
        SoftirqIsr \<Rightarrow> softirq_handler fuel s
      | TimerIsr \<Rightarrow> Some (timer_interrupt s)
      | TaskIsr \<Rightarrow> Some (s\<lparr>st_host := (st_host s)\<lparr>host_tasks := task_isr (host_tasks (st_host s))\<rparr>\<rparr>)
      | TapIsr i \<Rightarrow> (case tap_isr i (reads i) (st_link s) of
                       (ended, l) \<Rightarrow> if ended then Some (st_with_link l s) else None))"

fun run_isrs :: "nat \<Rightarrow> (nat \<Rightarrow> read_result list) \<Rightarrow> isr_id list \<Rightarrow> stack \<Rightarrow> stack option" where
  "run_isrs fuel reads [] s = Some s"
| "run_isrs fuel reads (h # hs) s =
     (case run_isr fuel reads h s of None \<Rightarrow> None | Some s' \<Rightarrow> run_isrs fuel reads hs s')"

definition intr_signal :: "nat \<Rightarrow> (nat \<Rightarrow> read_result list) \<Rightarrow> u32 \<Rightarrow> stack \<Rightarrow> stack option" where
  "intr_signal fuel reads sig s = run_isrs fuel reads (intr_dispatch sig (irqs (st_link s))) s"

section \<open>Initialisation\<close>

text \<open>Signal numbers of Linux.\<close>

definition SIGUSR1 :: u32 where "SIGUSR1 = 10"
definition SIGUSR2 :: u32 where "SIGUSR2 = 12"
definition SIGALRM :: u32 where "SIGALRM = 14"

definition link_intr_register :: "u32 \<Rightarrow> isr_id \<Rightarrow> u32 \<Rightarrow> string \<Rightarrow> link \<Rightarrow> unit result \<times> link" where
  "link_intr_register n h flags name l =
     (let (r, q) = intr_register n h flags name (irqs l) in (r, l\<lparr>irqs := q\<rparr>))"

definition link_timer_register :: "duration \<Rightarrow> timer_id \<Rightarrow> link \<Rightarrow> unit result \<times> link" where
  "link_timer_register interval h l =
     (let (r, ts, os') = timer_register interval h (timers l) (lk_os l)
      in (r, l\<lparr>timers := ts, lk_os := os'\<rparr>))"

definition softirq_init :: "link \<Rightarrow> unit result \<times> link" where
  "softirq_init l = link_intr_register SIGUSR1 SoftirqIsr 0 ''softirq'' l"

definition timer_init :: "link \<Rightarrow> unit result \<times> link" where
  "timer_init l =
     (case link_intr_register SIGALRM TimerIsr FLAG_QUIET ''timer'' l of
        (Err, l1) \<Rightarrow> (Err, l1)
      | (Ok _, l1) \<Rightarrow>
          let (ret, os') = syscall (lk_os l1); l2 = l1\<lparr>lk_os := os'\<rparr>
          in if ret \<noteq> 0 then (Err, l2) else (Ok (), l2\<lparr>timer_created := True\<rparr>))"

definition task_init_irq :: "link \<Rightarrow> unit result \<times> link" where
  "task_init_irq l = link_intr_register SIGUSR2 TaskIsr 0 ''task'' l"

text \<open>Sequencing with \<open>?\<close>.\<close>

definition and_then :: "unit result \<times> 's \<Rightarrow> ('s \<Rightarrow> unit result \<times> 's) \<Rightarrow> unit result \<times> 's" where
  "and_then r f = (case r of (Err, s) \<Rightarrow> (Err, s) | (Ok _, s) \<Rightarrow> f s)"

definition platform_init :: "link \<Rightarrow> unit result \<times> link" where
  "platform_init l = and_then (and_then (softirq_init l) timer_init) task_init_irq"

definition arp_init :: "link \<Rightarrow> unit result \<times> link" where
  "arp_init l = and_then (net_register_protocol ETHER_TYPE_ARP ArpInput l)
     (link_timer_register (10 ^ 9) ArpTimer)"

definition ip_init :: "link \<Rightarrow> unit result \<times> link" where
  "ip_init l = net_register_protocol PROTOCOL_TYPE_IP IpInput l"

definition on_link :: "(link \<Rightarrow> unit result \<times> link) \<Rightarrow> ip_state \<Rightarrow> unit result \<times> ip_state" where
  "on_link f i = (let (r, l) = f (ip_link i) in (r, i\<lparr>ip_arp := (ip_arp i)\<lparr>arp_link := l\<rparr>\<rparr>))"

definition tcp_init :: "ip_state \<Rightarrow> unit result \<times> ip_state" where
  "tcp_init i = and_then (ip_register_protocol IP_PROTOCOL_TCP TcpInput i)
     (on_link (link_timer_register TCP_TIMER_INTERVAL TcpTimer))"

definition net_init :: "ip_state \<Rightarrow> unit result \<times> ip_state" where
  "net_init i =
     and_then (and_then (and_then (and_then (and_then (on_link platform_init i)
       (on_link arp_init)) (on_link ip_init)) icmp_init) udp_init) tcp_init"

section \<open>Start-up and shutdown\<close>

text \<open>
  \<open>intr::run\<close> builds the signal mask from the interrupts registered so far, blocks these signals
  and starts the dispatcher thread; \<open>timer::run\<close> arms the timer. \<open>softirq\<close> and \<open>task\<close> have nothing
  to start or stop.
\<close>

definition SIGHUP :: u32 where "SIGHUP = 1"

definition intr_run :: "link \<Rightarrow> unit result \<times> link" where
  "intr_run l =
     (let sigmask = SIGHUP # map irq (irqs l); (ret, os') = syscall (lk_os l); l1 = l\<lparr>lk_os := os'\<rparr>
      in if ret \<noteq> 0 then (Err, l1) else (Ok (), l1\<lparr>dispatcher := Some sigmask\<rparr>))"

definition timer_run :: "link \<Rightarrow> unit result \<times> link" where
  "timer_run l =
     (if \<not> timer_created l then (Err, l)
      else let (ret, os') = syscall (lk_os l); l1 = l\<lparr>lk_os := os'\<rparr>
           in if ret \<noteq> 0 then (Err, l1) else (Ok (), l1))"

definition platform_run :: "link \<Rightarrow> unit result \<times> link" where
  "platform_run l = and_then (intr_run l) timer_run"

definition intr_shutdown :: "link \<Rightarrow> link" where
  "intr_shutdown l = l\<lparr>dispatcher := None\<rparr>"

definition timer_shutdown :: "link \<Rightarrow> link" where
  "timer_shutdown l = l\<lparr>timer_created := False\<rparr>"

definition platform_shutdown :: "link \<Rightarrow> link" where
  "platform_shutdown l = intr_shutdown (timer_shutdown l)"

definition net_run :: "link \<Rightarrow> unit result \<times> link" where
  "net_run l = and_then (platform_run l) (\<lambda>l1.
     let (r, ds, os') = open_all (devices l1) (lk_os l1)
     in (r, l1\<lparr>devices := ds, lk_os := os'\<rparr>))"

definition net_shutdown :: "link \<Rightarrow> link" where
  "net_shutdown l = (let (ds, os') = close_all (devices l) (lk_os l)
     in platform_shutdown (l\<lparr>devices := ds, lk_os := os'\<rparr>))"

section \<open>The dispatcher thread\<close>

text \<open>
  The loop of \<open>intr_main\<close> over the results of \<open>sigwait\<close>: an error and \<open>SIGHUP\<close> end it, any other
  signal runs its handlers. The flag says whether the thread has ended; \<open>None\<close> that the fuel of a
  handler was used up.
\<close>

datatype sigwait_result = SigError | Signal u32

fun intr_main ::
  "nat \<Rightarrow> (nat \<Rightarrow> read_result list) \<Rightarrow> sigwait_result list \<Rightarrow> stack \<Rightarrow> (bool \<times> stack) option" where
  "intr_main fuel reads [] s = Some (False, s)"
| "intr_main fuel reads (SigError # sigs) s = Some (True, s)"
| "intr_main fuel reads (Signal sig # sigs) s =
     (if sig = SIGHUP then Some (True, s)
      else case intr_signal fuel reads sig s of
        None \<Rightarrow> None
      | Some s' \<Rightarrow> intr_main fuel reads sigs s')"

end
