(* ===== verification/Sock.thy ===== *)
theory Sock
  imports Stack Text
begin

text \<open>
  The socket API of \<^verbatim>\<open>src/src/sock.rs\<close>: the socket table, the addresses and the calls, each of which
  looks up its socket, checks the type and hands over to TCP or UDP. A call that blocks runs the
  passes of the protocol on the whole stack.
\<close>

section \<open>Addresses\<close>

definition AF_INET :: u16 where "AF_INET = 2"
definition SOCK_STREAM :: u8 where "SOCK_STREAM = 1"
definition SOCK_DGRAM :: u8 where "SOCK_DGRAM = 2"

lemmas sock_consts = AF_INET_def SOCK_STREAM_def SOCK_DGRAM_def

datatype socket_addr = V4 (sa_ip: ip_addr) (sa_port: u16)

definition sa_to_str :: "socket_addr \<Rightarrow> string" where
  "sa_to_str a = ip_to_str (sa_ip a) @ '':'' @ dec_string (unat (sa_port a))"

definition sa_from_str :: "string \<Rightarrow> socket_addr result" where
  "sa_from_str str = (case endp_from_str str of Err \<Rightarrow> Err | Ok e \<Rightarrow> Ok (V4 (addr e) (port e)))"

definition to_endp :: "socket_addr \<Rightarrow> ip_endp result" where
  "to_endp a = Ok (ip_endp_new (sa_ip a) (sa_port a))"

definition from_endp :: "ip_endp \<Rightarrow> socket_addr" where
  "from_endp e = V4 (addr e) (port e)"

section \<open>The socket table\<close>

definition sock_alloc :: "sock \<Rightarrow> stack \<Rightarrow> nat \<times> stack" where
  "sock_alloc k s =
     (case first_free (st_socks s) of
        Some i \<Rightarrow> (i, s\<lparr>st_socks := (st_socks s)[i := Some k]\<rparr>)
      | None \<Rightarrow> (length (st_socks s), s\<lparr>st_socks := st_socks s @ [Some k]\<rparr>))"

definition sock_get :: "nat \<Rightarrow> stack \<Rightarrow> sock option" where
  "sock_get desc s = slot_get (st_socks s) desc"

definition sock_open :: "u16 \<Rightarrow> u8 \<Rightarrow> stack \<Rightarrow> nat result \<times> stack" where
  "sock_open family ty s =
     (if family \<noteq> AF_INET then (Err, s)
      else let (r, s1) =
             (if ty = SOCK_STREAM then on_tcp tcp_socket s
              else if ty = SOCK_DGRAM
              then (case on_udp udp_open s of (None, s1) \<Rightarrow> (Err, s1) | (Some d, s1) \<Rightarrow> (Ok d, s1))
              else (Err, s))
           in case r of
                Err \<Rightarrow> (Err, s1)
              | Ok d \<Rightarrow>
                  let (i, s2) = sock_alloc \<lparr>so_family = family, so_ty = ty, so_desc = d\<rparr> s1
                  in (Ok i, s2))"

definition sock_close :: "nat \<Rightarrow> stack \<Rightarrow> unit result \<times> stack" where
  "sock_close desc s =
     (case sock_get desc s of
        None \<Rightarrow> (Err, s)
      | Some k \<Rightarrow>
          let s1 = s\<lparr>st_socks := (st_socks s)[desc := None]\<rparr>
          in if so_ty k = SOCK_STREAM then on_tcp (tcp_close (so_desc k)) s1
             else if so_ty k = SOCK_DGRAM then on_udp (udp_close (so_desc k)) s1
             else (Err, s1))"

definition sock_bind :: "nat \<Rightarrow> socket_addr \<Rightarrow> stack \<Rightarrow> unit result \<times> stack" where
  "sock_bind desc a s =
     (case sock_get desc s of
        None \<Rightarrow> (Err, s)
      | Some k \<Rightarrow>
          if so_family k \<noteq> AF_INET then (Err, s)
          else case to_endp a of
            Err \<Rightarrow> (Err, s)
          | Ok endp \<Rightarrow>
              if so_ty k = SOCK_STREAM then on_tcp (tcp_bind (so_desc k) endp) s
              else if so_ty k = SOCK_DGRAM then on_udp (udp_bind (so_desc k) endp) s
              else (Err, s))"

text \<open>The lookup and the check of the type that the other calls start with.\<close>

definition sock_typed :: "nat \<Rightarrow> u8 \<Rightarrow> stack \<Rightarrow> sock option" where
  "sock_typed desc ty s =
     (case sock_get desc s of None \<Rightarrow> None | Some k \<Rightarrow> if so_ty k \<noteq> ty then None else Some k)"

definition sock_listen :: "nat \<Rightarrow> nat \<Rightarrow> stack \<Rightarrow> unit result \<times> stack" where
  "sock_listen desc backlog s =
     (case sock_typed desc SOCK_STREAM s of
        None \<Rightarrow> (Err, s)
      | Some k \<Rightarrow> on_tcp (tcp_listen (so_desc k) backlog) s)"

definition sock_accept ::
  "nat \<Rightarrow> (wait_result \<times> stack) list \<Rightarrow> stack \<Rightarrow> ((nat \<times> socket_addr) result \<times> stack) option" where
  "sock_accept desc wakes s =
     (case sock_typed desc SOCK_STREAM s of
        None \<Rightarrow> Some (Err, s)
      | Some k \<Rightarrow>
          (case blocking (on_tcp (accept_pass (so_desc k))) (\<lambda>s. (Err, s)) wakes s of
             None \<Rightarrow> None
           | Some (Err, s1) \<Rightarrow> Some (Err, s1)
           | Some (Ok (d, remote), s1) \<Rightarrow>
               let (i, s2) = sock_alloc \<lparr>so_family = so_family k, so_ty = so_ty k, so_desc = d\<rparr> s1
               in Some (Ok (i, from_endp remote), s2)))"

definition sock_connect ::
  "nat \<Rightarrow> socket_addr \<Rightarrow> (wait_result \<times> stack) list \<Rightarrow> stack \<Rightarrow> (unit result \<times> stack) option" where
  "sock_connect desc a wakes s =
     (case sock_typed desc SOCK_STREAM s of
        None \<Rightarrow> Some (Err, s)
      | Some k \<Rightarrow>
          (case to_endp a of
             Err \<Rightarrow> Some (Err, s)
           | Ok endp \<Rightarrow>
               (case on_tcp (connect_start (so_desc k) endp) s of
                  (Err, s1) \<Rightarrow> Some (Err, s1)
                | (Ok _, s1) \<Rightarrow>
                    (case blocking (on_tcp (connect_pass (so_desc k)))
                            (on_tcp (\<lambda>t. (Err, transition (so_desc k) Closed t))) wakes s1 of
                       None \<Rightarrow> None
                     | Some (Err, s2) \<Rightarrow> Some (Err, s2)
                     | Some (Ok _, s2) \<Rightarrow> Some (on_tcp (set_mss (so_desc k)) s2)))))"

section \<open>Transfer\<close>

definition sock_send ::
  "nat \<Rightarrow> nat \<Rightarrow> bytes \<Rightarrow> (wait_result \<times> stack) list \<Rightarrow> stack \<Rightarrow> (nat result \<times> stack) option" where
  "sock_send fuel desc data wakes s =
     (case sock_typed desc SOCK_STREAM s of
        None \<Rightarrow> Some (Err, s)
      | Some k \<Rightarrow>
          send_loop (\<lambda>sent. on_tcp (send_pass (so_desc k) data sent)) fuel wakes 0 s)"

definition sock_recv ::
  "nat \<Rightarrow> nat \<Rightarrow> (wait_result \<times> stack) list \<Rightarrow> stack \<Rightarrow> (bytes result \<times> stack) option" where
  "sock_recv desc buf_len wakes s =
     (case sock_typed desc SOCK_STREAM s of
        None \<Rightarrow> Some (Err, s)
      | Some k \<Rightarrow> blocking (on_tcp (receive_pass (so_desc k) buf_len)) (\<lambda>s. (Err, s)) wakes s)"

definition sock_sendto :: "nat \<Rightarrow> bytes \<Rightarrow> socket_addr \<Rightarrow> stack \<Rightarrow> nat result \<times> stack" where
  "sock_sendto desc data a s =
     (case sock_typed desc SOCK_DGRAM s of
        None \<Rightarrow> (Err, s)
      | Some k \<Rightarrow>
          (case to_endp a of
             Err \<Rightarrow> (Err, s)
           | Ok endp \<Rightarrow> on_udp (udp_sendto (so_desc k) data endp) s))"

definition sock_recvfrom ::
  "nat \<Rightarrow> nat \<Rightarrow> (wait_result \<times> stack) list \<Rightarrow> stack \<Rightarrow> ((bytes \<times> socket_addr) result \<times> stack) option" where
  "sock_recvfrom desc buf_len wakes s =
     (case sock_typed desc SOCK_DGRAM s of
        None \<Rightarrow> Some (Err, s)
      | Some k \<Rightarrow>
          (case blocking (on_udp (recvfrom_pass (so_desc k) buf_len))
                  (\<lambda>s. (Inl RecvInterrupted, s)) wakes s of
             None \<Rightarrow> None
           | Some (Inl _, s1) \<Rightarrow> Some (Err, s1)
           | Some (Inr (remote, data), s1) \<Rightarrow> Some (Ok (data, from_endp remote), s1)))"

section \<open>Properties of the table and of addresses\<close>

interpretation sock_tab: slot_alloc st_socks "\<lambda>_. k" "\<lambda>s. map_prod Some id (sock_alloc k s)" "\<lambda>_. True"
  for k
  by unfold_locales (simp_all add: sock_alloc_def)

lemma sock_alloc_get:
  "slot_get (st_socks (snd (sock_alloc k s))) e =
     (if e = fst (sock_alloc k s) then Some k else slot_get (st_socks s) e)"
  and sock_alloc_free: "slot_get (st_socks s) (fst (sock_alloc k s)) = None"
  using sock_tab.alloc_slot [of k s "fst (sock_alloc k s)"] by simp_all

lemma from_to_endp: "to_endp (from_endp e) = Ok (ip_endp_new (addr e) (port e))"
  by (simp add: to_endp_def from_endp_def)

lemma sa_str_roundtrip: "sa_from_str (sa_to_str a) = Ok a"
proof -
  have "sa_to_str a = endp_to_str (ip_endp_new (sa_ip a) (sa_port a))"
    by (simp add: sa_to_str_def endp_to_str_def ip_endp_new_def)
  then show ?thesis
    by (cases a) (simp add: sa_from_str_def endp_from_to_str ip_endp_new_def)
qed

end
