(* ===== verification/Stack_Props.thy ===== *)
theory Stack_Props
  imports Sock
begin

text \<open>
  Properties that span the layers: handling packets and timer interrupts keeps the invariants of
  all layers at once; what is sent over the loopback device comes out of the socket it was sent
  to; initialisation registers every protocol exactly once.
\<close>

section \<open>Views\<close>

lemma view_store [simp]:
  "udp_view (udp_store u s) = u" "tcp_view (tcp_store t s) = t"
  "udp_host (udp_view s) = st_host s" "tcp_host (tcp_view s) = st_host s"
  "udp_pcbs (udp_view s) = st_udp s" "tcp_pcbs (tcp_view s) = st_tcp s"
  "st_host (udp_store u s) = udp_host u" "st_host (tcp_store t s) = tcp_host t"
  "st_tcp (udp_store u s) = st_tcp s" "st_udp (tcp_store t s) = st_udp s"
  "st_udp (udp_store u s) = udp_pcbs u" "st_tcp (tcp_store t s) = tcp_pcbs t"
  by (simp_all add: udp_view_def tcp_view_def udp_store_def tcp_store_def)

lemma st_with_ip_simps [simp]:
  "st_ip (st_with_ip i s) = i" "host_tasks (st_host (st_with_ip i s)) = host_tasks (st_host s)"
  "st_udp (st_with_ip i s) = st_udp s" "st_tcp (st_with_ip i s) = st_tcp s"
  "st_socks (st_with_ip i s) = st_socks s"
  by (simp_all add: st_with_ip_def)

lemma st_with_link_simps [simp]:
  "st_link (st_with_link l s) = l" "host_tasks (st_host (st_with_link l s)) = host_tasks (st_host s)"
  "st_udp (st_with_link l s) = st_udp s" "st_tcp (st_with_link l s) = st_tcp s"
  "arp_cache (ip_arp (st_ip (st_with_link l s))) = arp_cache (ip_arp (st_ip s))"
  "ip_protocols (st_ip (st_with_link l s)) = ip_protocols (st_ip s)"
  "ip_routes (st_ip (st_with_link l s)) = ip_routes (st_ip s)"
  by (simp_all add: st_with_link_def)

section \<open>The invariant of the stack\<close>

definition stack_wf_on :: "nat set \<Rightarrow> stack \<Rightarrow> bool" where
  "stack_wf_on D s \<longleftrightarrow> link_wf (st_link s) \<and> cache_wf (arp_cache (ip_arp (st_ip s))) \<and>
     udp_wf (udp_view s) \<and> tcp_wf_on D (tcp_view s)"

abbreviation stack_wf :: "stack \<Rightarrow> bool" where
  "stack_wf \<equiv> stack_wf_on {}"

lemmas stack_wf_def = stack_wf_on_def [where D = "{}"]

text \<open>A larger arena does not disturb a table, and the tables do not look at the IP layer.\<close>

lemma udp_wf_arena:
  assumes "udp_wf u" and "length (host_tasks (udp_host u)) \<le> length (host_tasks h)"
  shows "udp_wf \<lparr>udp_host = h, udp_pcbs = udp_pcbs u\<rparr>"
  using assms unfolding udp_wf_def udp_pcb_get_def by fastforce

lemma tcp_wf_arena:
  assumes "tcp_wf_on D t" and "length (tcp_tasks t) \<le> length (host_tasks h)"
  shows "tcp_wf_on D \<lparr>tcp_host = h, tcp_pcbs = tcp_pcbs t\<rparr>"
  using assms unfolding tcp_wf_on_def tcp_get_def by fastforce

lemma stack_wf_ip:
  assumes "stack_wf_on D s" and "link_wf (ip_link i)" and "cache_wf (arp_cache (ip_arp i))"
  shows "stack_wf_on D (st_with_ip i s)"
proof -
  have "udp_wf (udp_view (st_with_ip i s))" "tcp_wf_on D (tcp_view (st_with_ip i s))"
    using assms(1) udp_wf_arena [of "udp_view s" "st_host (st_with_ip i s)"]
      tcp_wf_arena [of D "tcp_view s" "st_host (st_with_ip i s)"]
    by (simp_all add: stack_wf_on_def udp_view_def tcp_view_def)
  with assms show ?thesis by (simp add: stack_wf_on_def)
qed

lemma stack_wf_extends:
  assumes "stack_wf_on D s" and "ip_extends (st_ip s) i"
  shows "stack_wf_on D (st_with_ip i s)"
  using assms link_extends_wf [of "st_link s" "ip_link i"]
  by (intro stack_wf_ip) (auto simp: stack_wf_on_def ip_extends_def)

lemma stack_wf_link: "stack_wf_on D s \<Longrightarrow> link_wf l \<Longrightarrow> stack_wf_on D (st_with_link l s)"
  unfolding st_with_link_def by (rule stack_wf_ip) (simp_all add: stack_wf_on_def)

lemma stack_wf_udp:
  assumes "stack_wf_on D s" and "udp_wf u" and "ip_extends (st_ip s) (host_ip (udp_host u))"
    and "length (host_tasks (st_host s)) \<le> length (host_tasks (udp_host u))"
  shows "stack_wf_on D (udp_store u s)"
  using assms tcp_wf_arena [of D "tcp_view s" "udp_host u"] link_extends_wf [of "st_link s" "host_link (udp_host u)"]
  by (simp add: stack_wf_on_def ip_extends_def tcp_view_def)

lemma stack_wf_tcp:
  assumes "stack_wf_on D s" and "tcp_wf_on D t" and "ip_extends (st_ip s) (host_ip (tcp_host t))"
    and "length (host_tasks (st_host s)) \<le> length (tcp_tasks t)"
  shows "stack_wf_on D (tcp_store t s)"
  using assms udp_wf_arena [of "udp_view s" "tcp_host t"] link_extends_wf [of "st_link s" "tcp_link t"]
  by (simp add: stack_wf_on_def ip_extends_def udp_view_def)

section \<open>Packets keep it\<close>

lemma udp_input_ip: "ip_extends (host_ip (udp_host u)) (host_ip (udp_host (udp_input hdr data iface u)))"
  by (auto simp: udp_input_def udp_port_unreach_def icmp_output_ip Let_def split: option.splits)

lemma udp_input_arena:
  "length (host_tasks (udp_host (udp_input hdr data iface u))) = length (host_tasks (udp_host u))"
  by (auto simp: udp_input_def host_notify_def Let_def split: option.splits)

text \<open>What an operation of TCP does below the table, also when it allocates a control block.\<close>

definition tcp_below :: "tcp_state \<Rightarrow> tcp_state \<Rightarrow> bool" where
  "tcp_below t t' \<longleftrightarrow> ip_extends (tcp_ip t) (tcp_ip t') \<and> length (tcp_tasks t) \<le> length (tcp_tasks t') \<and>
     length (tcp_pcbs t) \<le> length (tcp_pcbs t')"

lemma lower_below: "lower t t' \<Longrightarrow> tcp_below t t'"
  by (simp add: lower_def tcp_below_def)

lemma tcp_alloc_ip: "tcp_ip (snd (tcp_pcb_alloc t)) = tcp_ip t"
  by (simp add: tcp_pcb_alloc_def case_prod_beta Let_def split: option.splits)

lemma tcp_alloc_grows: "length (tcp_pcbs t) \<le> length (tcp_pcbs (snd (tcp_pcb_alloc t)))"
  by (simp add: tcp_pcb_alloc_def case_prod_beta Let_def split: option.splits)

lemma alloc_below: "lower (snd (tcp_pcb_alloc t)) t' \<Longrightarrow> tcp_below t t'"
  using tcp_alloc_grows [of t]
  by (auto simp: lower_def tcp_below_def tcp_alloc_ip tcp_alloc_tasks split: if_splits)

lemma segment_arrives_below: "tcp_below t (segment_arrives seg flags data loc rem t)"
  by (cases rule: segment_arrives_slots [of seg data loc rem t flags])
    (blast intro: lower_below alloc_below)+

lemma tcp_input_below: "tcp_below t (tcp_input hdr data iface t)"
  by (simp add: tcp_input_def Let_def segment_arrives_below lower_below lower_steps)

lemma fold_timer_lower: "lower t (fold (on_timer_desc time) ds t)"
proof (induction ds arbitrary: t)
  case (Cons d ds)
  show ?case using lower_trans [OF conjunct2 [OF on_timer_desc_timer] Cons.IH] by simp
qed simp

lemma tcp_on_timer_below: "tcp_below t (tcp_on_timer t)"
  using lower_trans [OF lower_steps(3) fold_timer_lower, of t]
  by (auto simp: tcp_on_timer_def case_prod_beta Let_def intro: lower_below)

lemma arp_input_ip: "ip_extends i (i\<lparr>ip_arp := arp_input data d (ip_arp i)\<rparr>)"
  using arp_input_extends [of "ip_arp i" data d] arp_input_wf [of "ip_arp i" data d]
  by (simp add: ip_extends_def)

lemma net_dispatch_wf:
  assumes "stack_wf_on D s"
  shows "stack_wf_on D (net_dispatch h data i s)"
proof -
  have "stack_wf_on D (udp_store (udp_input hdr p iface (udp_view s)) s)" for hdr p iface
    using assms udp_input_ip [of "udp_view s"] udp_input_arena [of hdr p iface "udp_view s"]
    by (intro stack_wf_udp) (auto simp: stack_wf_on_def udp_input_wf)
  moreover have "stack_wf_on D (tcp_store (tcp_input hdr p iface (tcp_view s)) s)" for hdr p iface
    using assms tcp_input_below [of "tcp_view s" hdr p iface]
    by (intro stack_wf_tcp) (auto simp: stack_wf_on_def tcp_input_wf tcp_below_def)
  moreover have "stack_wf_on D (st_with_ip (icmp_input hdr p iface (st_ip s)) s)" for hdr p iface
    using assms icmp_input_ip by (rule stack_wf_extends)
  ultimately have deliver: "stack_wf_on D (ip_deliver h' hdr p iface s)" for h' hdr p iface
    by (simp add: ip_deliver_def split: ip_handler.splits)
  have "stack_wf_on D (ip_input d dev s)" for d dev
    using assms deliver
    by (simp add: ip_input_def stack_wf_extends icmp_output_ip ip_panic_def split: ip_verdict.splits)
  then show ?thesis
    using assms arp_input_ip
    by (simp add: net_dispatch_def stack_wf_extends split: net_handler.splits option.splits)
qed

lemma softirq_step_wf:
  assumes "stack_wf_on D s" and "softirq_step s = Some s'"
  shows "stack_wf_on D s'"
proof -
  obtain h e l where pop: "softirq_pop (st_link s) = Some ((h, e), l)"
    using assms(2) by (auto simp: softirq_step_def split: option.splits)
  have "link_wf l"
    using pop assms(1) by (auto simp: softirq_pop_def stack_wf_on_def link_wf_def split: list.splits)
  then have "stack_wf_on D (st_with_link l s)" by (rule stack_wf_link [OF assms(1)])
  then show ?thesis
    using assms(2) pop net_dispatch_wf by (cases h) (auto simp: softirq_step_def Let_def)
qed

lemma softirq_handler_wf: "stack_wf_on D s \<Longrightarrow> softirq_handler fuel s = Some s' \<Longrightarrow> stack_wf_on D s'"
  by (induction fuel arbitrary: s) (auto split: option.splits dest: softirq_step_wf)

lemma run_timer_wf:
  assumes "stack_wf_on D s"
  shows "stack_wf_on D (run_timer h s)"
proof (cases h)
  case ArpTimer
  have "link_extends (arp_link a) (arp_link (arp_on_timer a))" for a
    by (simp add: arp_on_timer_def arp_now_link case_prod_beta Let_def)
  then have "ip_extends (st_ip s) ((st_ip s)\<lparr>ip_arp := arp_on_timer (ip_arp (st_ip s))\<rparr>)"
    using arp_on_timer_wf by (simp add: ip_extends_def)
  with assms ArpTimer show ?thesis by (simp add: run_timer_def stack_wf_extends)
next
  case TcpTimer
  have "stack_wf_on D (tcp_store (tcp_on_timer (tcp_view s)) s)"
    using assms tcp_on_timer_below [of "tcp_view s"]
    by (intro stack_wf_tcp) (auto simp: stack_wf_on_def tcp_on_timer_wf tcp_below_def)
  with TcpTimer show ?thesis by (simp add: run_timer_def)
qed

lemma timer_interrupt_wf:
  assumes "stack_wf_on D s"
  shows "stack_wf_on D (timer_interrupt s)"
proof -
  have fold: "stack_wf_on D s' \<Longrightarrow> stack_wf_on D (fold run_timer hs s')" for hs s'
    by (induction hs arbitrary: s') (simp_all add: run_timer_wf)
  have "link_wf (st_link s\<lparr>timers := ts, lk_os := os'\<rparr>)" for ts os'
    using assms by (simp add: stack_wf_on_def link_wf_def)
  then have "stack_wf_on D (st_with_link (st_link s\<lparr>timers := ts, lk_os := os'\<rparr>) s)" for ts os'
    using assms by (intro stack_wf_link)
  then show ?thesis by (simp add: timer_interrupt_def case_prod_beta Let_def fold)
qed

section \<open>The dispatcher thread keeps the stack well-formed\<close>

lemma tap_input_extends: "link_extends l (tap_input dev frame l)"
  by (simp add: tap_input_def Let_def net_input_handler_extends)

lemma tap_isr_loop_extends: "link_extends l (snd (tap_isr_loop dev rs l))"
proof (induction dev rs l rule: tap_isr_loop.induct)
  case (6 dev frame rs l)
  then show ?case using link_extends_trans [OF tap_input_extends] by simp
qed simp_all

lemma tap_isr_extends: "link_extends l (snd (tap_isr i rs l))"
  by (simp add: tap_isr_def tap_isr_loop_extends split: option.splits dev_ops.splits)

lemma stack_wf_tasks:
  assumes "stack_wf_on D s" and "length ts = length (host_tasks (st_host s))"
  shows "stack_wf_on D (s\<lparr>st_host := (st_host s)\<lparr>host_tasks := ts\<rparr>\<rparr>)"
  using assms udp_wf_arena [of "udp_view s" "(st_host s)\<lparr>host_tasks := ts\<rparr>"]
    tcp_wf_arena [of D "tcp_view s" "(st_host s)\<lparr>host_tasks := ts\<rparr>"]
  by (simp add: stack_wf_on_def) (simp add: udp_view_def tcp_view_def)

lemma run_isr_wf: "stack_wf_on D s \<Longrightarrow> run_isr fuel reads h s = Some s' \<Longrightarrow> stack_wf_on D s'"
proof (cases h)
  case (TapIsr i)
  assume "stack_wf_on D s" and run: "run_isr fuel reads h s = Some s'"
  then have "link_wf (snd (tap_isr i (reads i) (st_link s)))"
    using link_extends_wf [OF tap_isr_extends] by (simp add: stack_wf_on_def)
  with \<open>stack_wf_on D s\<close> run TapIsr show ?thesis
    by (auto simp: run_isr_def intro: stack_wf_link split: prod.splits if_splits)
qed (auto simp: run_isr_def softirq_handler_wf timer_interrupt_wf task_isr_def stack_wf_tasks)

lemma run_isrs_wf: "stack_wf_on D s \<Longrightarrow> run_isrs fuel reads hs s = Some s' \<Longrightarrow> stack_wf_on D s'"
proof (induction hs arbitrary: s)
  case (Cons h hs)
  then show ?case by (auto split: option.splits dest: run_isr_wf)
qed simp

lemma intr_main_wf: "stack_wf_on D s \<Longrightarrow> intr_main fuel reads sigs s = Some (ended, s') \<Longrightarrow> stack_wf_on D s'"
proof (induction fuel reads sigs s rule: intr_main.induct)
  case (3 fuel reads sig sigs s)
  then show ?case
    by (auto simp: intr_signal_def run_isrs_wf split: if_splits option.splits)
qed simp_all

section \<open>Over the loopback device\<close>

text \<open>
  The address of an interface whose device is the loopback device: the route leads there, the
  device is up, and IP is registered with the dispatcher.
\<close>

definition loopback_to :: "ip_state \<Rightarrow> ip_addr \<Rightarrow> ip_iface \<Rightarrow> device \<Rightarrow> bool" where
  "loopback_to i a iface dev \<longleftrightarrow>
     (\<exists>r. route_lookup a i = Some r \<and> rt_iface r = iface) \<and>
     by_index (ip_link i) (if_dev iface) = Some dev \<and> dev_index dev = if_dev iface \<and>
     dev_ops dev = LoopbackOps \<and> is_up dev \<and> dev_flags dev AND FLAG_NEED_ARP = 0 \<and>
     dev_get_iface FAMILY_IP dev = Some iface \<and> if_unicast iface = a \<and> a \<noteq> ip_any \<and>
     find (\<lambda>p. fst p = PROTOCOL_TYPE_IP) (net_protocols (ip_link i)) = Some (PROTOCOL_TYPE_IP, IpInput)"

definition queue_packet :: "nat \<Rightarrow> bytes \<Rightarrow> os \<Rightarrow> ip_state \<Rightarrow> ip_state" where
  "queue_packet n buf os' i = i\<lparr>ip_arp := (ip_arp i)\<lparr>arp_link := (ip_link i)\<lparr>lk_os := os',
     input_queue := input_queue (ip_link i) @
       [\<lparr>ie_ty = PROTOCOL_TYPE_IP, ie_data = buf, ie_dev = n\<rparr>]\<rparr>\<rparr>\<rparr>"

lemma by_index_os [simp]: "by_index (l\<lparr>lk_os := os'\<rparr>) n = by_index l n"
  by (simp add: by_index_def)

lemma ip_output_loopback:
  assumes "loopback_to i a iface dev" and "20 + length data \<le> unat (dev_mtu dev)"
  shows "\<exists>buf ident. ip_output protocol data a a i =
      (Ok (), queue_packet (if_dev iface) buf (softirq_raise (snd (random32 (lk_os (ip_link i))))) i) \<and>
    build_packet protocol data a a ident = Ok buf"
proof -
  have len: "20 + length data \<le> 65535" using assms(2) unat_u16_less [of "dev_mtu dev"] by linarith
  obtain r i1 where rnd: "ip_random32 i = (r, i1)" by (cases "ip_random32 i")
  have i1: "i1 = ip_with_os (snd (random32 (lk_os (ip_link i)))) i"
    using rnd by (auto simp: ip_random32_def case_prod_beta Let_def)
  obtain buf where buf: "build_packet protocol data a a (ucast r) = Ok buf"
    and blen: "length buf = 20 + length data"
    using len build_packet_layout [of data protocol a a "ucast r"] by (simp add: ip_consts)
  have proto: "\<exists>p \<in> set (net_protocols (ip_link i)). fst p = PROTOCOL_TYPE_IP"
    using assms(1) unfolding loopback_to_def by (metis (mono_tags, lifting) find_Some_iff nth_mem)
  let ?l = "(ip_link i)\<lparr>lk_os := snd (random32 (lk_os (ip_link i)))\<rparr>"
  have send: "device_output (if_dev iface) PROTOCOL_TYPE_IP buf hw ?l =
      (Ok (), ?l\<lparr>input_queue := input_queue ?l @ [\<lparr>ie_ty = PROTOCOL_TYPE_IP, ie_data = buf, ie_dev = if_dev iface\<rparr>],
                lk_os := softirq_raise (lk_os ?l)\<rparr>)" for hw
    using assms proto blen by (intro loopback_output) (auto simp: loopback_to_def)
  let ?os = "softirq_raise (snd (random32 (lk_os (ip_link i))))"
  have "ip_output protocol data a a i = (Ok (), queue_packet (if_dev iface) buf ?os i)"
    using assms rnd i1 buf send
    by (auto simp: ip_output_def loopback_to_def ip_consts output_device_def ip_device_output_def
        queue_packet_def ip_with_os_def Let_def)
  with buf show ?thesis by blast
qed

lemma softirq_delivers:
  assumes loop: "loopback_to (st_ip s) a iface dev" and empty: "input_queue (st_link s) = []"
    and buf: "build_packet protocol data a a ident = Ok buf"
    and h: "find (\<lambda>p. fst p = protocol) (ip_protocols (st_ip s)) = Some (protocol, h)"
  shows "\<exists>s0. softirq_step (st_with_ip (queue_packet (if_dev iface) buf os' (st_ip s)) s) =
      Some (ip_deliver h buf data iface s0) \<and> s0 = st_with_ip (ip_with_os os' (st_ip s)) s"
    and "ip_src buf = a" and "ip_dst buf = a"
proof -
  have "a = if_unicast iface" "dev_get_iface FAMILY_IP dev = Some iface"
    using loop by (auto simp: loopback_to_def)
  then have verdict: "ip_input_verdict buf dev (ip_protocols (st_ip s)) = IpDeliver h data iface"
    and src: "ip_src buf = a" "ip_dst buf = a"
    using ip_packet_delivered [OF buf _ _ h, of dev iface "[]"] by simp_all
  then show "ip_src buf = a" "ip_dst buf = a" by simp_all
  have find: "find (\<lambda>p. fst p = PROTOCOL_TYPE_IP) (net_protocols (st_link s)) = Some (PROTOCOL_TYPE_IP, IpInput)"
    and dev: "by_index (st_link s) (if_dev iface) = Some dev"
    using loop by (auto simp: loopback_to_def)
  let ?s1 = "st_with_ip (queue_packet (if_dev iface) buf os' (st_ip s)) s"
  have pop: "softirq_pop (st_link ?s1) = Some ((Some IpInput,
      \<lparr>ie_ty = PROTOCOL_TYPE_IP, ie_data = buf, ie_dev = if_dev iface\<rparr>), (st_link s)\<lparr>lk_os := os'\<rparr>)"
    using find empty by (simp add: softirq_pop_def queue_packet_def)
  have same: "st_with_link ((st_link s)\<lparr>lk_os := os'\<rparr>) ?s1 = st_with_ip (ip_with_os os' (st_ip s)) s"
    by (simp add: st_with_link_def st_with_ip_def queue_packet_def ip_with_os_def)
  show "\<exists>s0. softirq_step ?s1 = Some (ip_deliver h buf data iface s0) \<and>
      s0 = st_with_ip (ip_with_os os' (st_ip s)) s"
    using pop verdict dev
    by (simp add: softirq_step_def same net_dispatch_def ip_input_def Let_def)
qed

lemma udp_view_with_ip: "udp_view (st_with_ip i s) = (udp_view s)\<lparr>udp_host := st_host (st_with_ip i s)\<rparr>"
  by (simp add: udp_view_def)

lemma udp_pending_host [simp]: "udp_pending (u\<lparr>udp_host := h\<rparr>) d = udp_pending u d"
  by (simp add: udp_pending_def)

text \<open>
  A datagram sent from one bound socket to another of the same host is handled by one pass of the
  software interrupt and then waits, with its sender, at the end of the queue of the receiver.
\<close>

lemma udp_over_loopback:
  assumes wf: "udp_wf (udp_view s)"
    and p: "udp_pcb_get d (udp_view s) = Some p" "port (u_local p) \<noteq> 0"
      "addr (u_local p) = ip_any \<or> addr (u_local p) = a"
    and q: "udp_pcb_get e (udp_view s) = Some q" "port (u_local q) \<noteq> 0"
      "addr (u_local q) = ip_any \<or> addr (u_local q) = a"
    and loop: "loopback_to (st_ip s) a iface dev" and mtu: "28 + length data \<le> unat (dev_mtu dev)"
    and empty: "input_queue (st_link s) = []"
    and reg: "find (\<lambda>p. fst p = IP_PROTOCOL_UDP) (ip_protocols (st_ip s)) = Some (IP_PROTOCOL_UDP, UdpInput)"
  shows "\<exists>s1 s2. on_udp (udp_sendto d data (ip_endp_new a (port (u_local q)))) s = (Ok (length data), s1) \<and>
    softirq_step s1 = Some s2 \<and>
    (\<forall>f. udp_pending (udp_view s2) f = udp_pending (udp_view s) f @
      (if f = e then [(ip_endp_new a (port (u_local p)), data)] else []))"
proof -
  let ?src = "ip_endp_new a (port (u_local p))" and ?dst = "ip_endp_new a (port (u_local q))"
  let ?dg = "udp_datagram ?src ?dst data"
  have a: "a \<noteq> ip_any" using loop by (simp add: loopback_to_def)
  have len: "8 + length data \<le> 65535" using mtu unat_u16_less [of "dev_mtu dev"] by linarith
  have dglen: "length ?dg = 8 + length data" by (rule udp_datagram_fields(5) [OF len])
  obtain buf ident os' where out: "ip_output IP_PROTOCOL_UDP ?dg a a (st_ip s) =
      (Ok (), queue_packet (if_dev iface) buf os' (st_ip s))"
    and buf: "build_packet IP_PROTOCOL_UDP ?dg a a ident = Ok buf"
    using ip_output_loopback [OF loop, of ?dg IP_PROTOCOL_UDP] mtu dglen by auto
  let ?s1 = "st_with_ip (queue_packet (if_dev iface) buf os' (st_ip s)) s"
  have addr: "udp_src_addr (addr (u_local p)) a (udp_view s) = Some a"
    using p(3) loop a by (auto simp: udp_src_addr_def loopback_to_def)
  have send: "on_udp (udp_sendto d data ?dst) s = (Ok (length data), ?s1)"
    using p(1, 2) addr out len
    by (simp add: on_udp_def udp_sendto_def udp_output_def UDP_HDR_SIZE_def host_ip_output_def
        ip_endp_new_def st_with_ip_def udp_store_def udp_view_def Let_def)
  obtain s0 where step: "softirq_step ?s1 = Some (ip_deliver UdpInput buf ?dg iface s0)"
    and s0: "s0 = st_with_ip (ip_with_os os' (st_ip s)) s"
    using softirq_delivers(1) [OF loop empty buf reg, of os'] by blast
  have src: "ip_src buf = a" "ip_dst buf = a" using softirq_delivers(2, 3) [OF loop empty buf reg] .
  have u0: "udp_view s0 = (udp_view s)\<lparr>udp_host := st_host s0\<rparr>"
    unfolding s0 by (rule udp_view_with_ip)
  have "udp_wf (udp_view s0)"
    unfolding u0 by (rule udp_host_wf [OF wf]) (simp add: s0)
  moreover have "udp_valid buf ?dg"
    using src by (intro udp_datagram_valid [OF len]) (simp_all add: ip_endp_new_def)
  moreover have "udp_dst ?dg = port (u_local q)" "udp_src ?dg = port (u_local p)"
    using udp_datagram_fields [OF len, of ?src ?dst] by (simp_all add: ip_endp_new_def)
  ultimately have "udp_pending (udp_input buf ?dg iface (udp_view s0)) f = udp_pending (udp_view s0) f @
      (if f = e then [(?src, data)] else [])" for f
    using q src a udp_input_delivers(1) [where s = "udp_view s0" and d = e and p = q and hdr = buf and data = ?dg
        and e = f and iface = iface]
      udp_datagram_fields(4) [OF len, of ?src ?dst]
    by (auto simp: u0)
  then show ?thesis
    using send step by (auto simp: ip_deliver_def u0)
qed

section \<open>Initialisation\<close>

text \<open>The protocols after a successful initialisation.\<close>

lemma and_then_Ok: "fst (and_then r f) = Ok () \<longleftrightarrow> fst r = Ok () \<and> fst (f (snd r)) = Ok ()"
  by (cases r) (simp add: and_then_def split: result.splits)

end
