(* ===== verification/Example.thy ===== *)
theory Example
  imports Stack_Props
begin

text \<open>
  A small machine on which the theorems are instantiated: the loopback device with the interface
  127.0.0.1, a TAP device with the interface 192.0.2.2, UDP and TCP control blocks in several
  states.
\<close>

section \<open>Lower layers\<close>

definition ex_os :: os where
  "ex_os = \<lparr>clock = (\<lambda>n. 1000 * n), clock_reads = 0, rand = (\<lambda>n. 7), rand_reads = 0, sys_ret = (\<lambda>n. 0),
     sys_calls = 0, hwaddr = [2, 0, 0, 0, 0, 1], open_fds = [], wire = [], softirqs = 0, panicked = False\<rparr>"

definition ex_lo :: ip_iface where
  "ex_lo = \<lparr>if_dev = 0, if_unicast = IpAddr 127 0 0 1, if_netmask = IpAddr 255 0 0 0,
     if_broadcast = IpAddr 127 255 255 255\<rparr>"

definition ex_if :: ip_iface where
  "ex_if = \<lparr>if_dev = 1, if_unicast = IpAddr 192 0 2 2, if_netmask = IpAddr 255 255 255 0,
     if_broadcast = IpAddr 192 0 2 255\<rparr>"

definition ex_lo_dev :: device where
  "ex_lo_dev = (device_new TYPE_LOOPBACK 0xffff (FLAG_LOOPBACK OR FLAG_UP) LoopbackOps)\<lparr>dev_ifaces := [ex_lo]\<rparr>"

definition ex_mac :: bytes where
  "ex_mac = [2, 0, 0, 0, 0, 1, 0, 0, 0, 0, 0, 0, 0, 0, 0, 0]"

definition ex_tap_dev :: device where
  "ex_tap_dev = (device_new TYPE_ETHERNET 1500 (FLAG_BROADCAST OR FLAG_NEED_ARP OR FLAG_UP)
       (EtherTapOps \<lparr>tap_name = ''tap0'', configured_addr = None, tap_fd = 3, tap_irq = 35\<rparr>))
     \<lparr>dev_index := 1, dev_addr := ex_mac, dev_alen := 6, dev_ifaces := [ex_if]\<rparr>"

definition ex_link :: link where
  "ex_link = \<lparr>lk_os = ex_os, devices = [ex_lo_dev, ex_tap_dev],
     net_protocols = [(ETHER_TYPE_ARP, ArpInput), (PROTOCOL_TYPE_IP, IpInput)],
     input_queue = [], irqs = [], timers = [],
     timer_created = False, dispatcher = None\<rparr>"

definition ex_arp :: arp_state where
  "ex_arp = \<lparr>arp_link = ex_link, arp_cache = []\<rparr>"

definition ex_ip :: ip_state where
  "ex_ip = \<lparr>ip_arp = ex_arp,
     ip_protocols = [(IP_PROTOCOL_ICMP, IcmpInput), (IP_PROTOCOL_UDP, UdpInput), (IP_PROTOCOL_TCP, TcpInput)],
     ip_ifaces = [ex_lo, ex_if],
     ip_routes = [\<lparr>rt_network = IpAddr 127 0 0 0, rt_netmask = IpAddr 255 0 0 0, rt_nexthop = ip_any, rt_iface = ex_lo\<rparr>,
       \<lparr>rt_network = IpAddr 192 0 2 0, rt_netmask = IpAddr 255 255 255 0, rt_nexthop = ip_any, rt_iface = ex_if\<rparr>]\<rparr>"

lemmas ex_lower = ex_os_def ex_lo_def ex_if_def ex_lo_dev_def ex_mac_def ex_tap_dev_def ex_link_def
  ex_arp_def ex_ip_def device_new_def

definition ex_host :: host where
  "ex_host = \<lparr>host_ip = ex_ip, host_tasks = [task_init, task_init, task_init, task_init]\<rparr>"

lemma ex_link_wf: "link_wf ex_link"
  by (simp add: link_wf_def ex_lower less_Suc_eq device_wf_def ADDR_LEN_def irqs_wf_def)

lemma ex_cache_wf: "cache_wf (arp_cache ex_arp)"
  by (simp add: ex_arp_def cache_wf_def CACHE_SIZE_def)

lemma ex_loopback: "loopback_to ex_ip (IpAddr 127 0 0 1) ex_lo ex_lo_dev"
proof -
  have "route_lookup (IpAddr 127 0 0 1) ex_ip =
      Some \<lparr>rt_network = IpAddr 127 0 0 0, rt_netmask = IpAddr 255 0 0 0, rt_nexthop = ip_any, rt_iface = ex_lo\<rparr>"
    by (simp add: route_lookup_def ex_ip_def route_matches_def route_prefix_def)
  moreover have "is_up ex_lo_dev" "dev_flags ex_lo_dev AND FLAG_NEED_ARP = 0"
    by (simp_all add: ex_lower is_up_def FLAG_UP_def FLAG_LOOPBACK_def FLAG_NEED_ARP_def)
  ultimately show ?thesis
    by (simp add: loopback_to_def ex_ip_def ex_arp_def ex_link_def by_index_def ex_lo_dev_def device_new_def
        ex_lo_def dev_get_iface_def iface_family_def FAMILY_IP_def ip_any_def PROTOCOL_TYPE_IP_def
        ETHER_TYPE_ARP_def)
qed

definition ex_hdr :: "u8 \<Rightarrow> ip_addr \<Rightarrow> ip_addr \<Rightarrow> bytes" where
  "ex_hdr protocol src dst = ip_header protocol 20 0 src dst 0"

lemma ex_hdr_addr [simp]: "ip_src (ex_hdr protocol src dst) = src" "ip_dst (ex_hdr protocol src dst) = dst"
  using ip_header_fields(7, 8) [where rest = "[]" and tot = 20] by (simp_all add: ex_hdr_def)

section \<open>UDP\<close>

definition ex_udp_pcb :: udp_pcb where
  "ex_udp_pcb = \<lparr>u_local = ip_endp_new ip_any 7, u_queue = [], u_task = 0\<rparr>"

definition ex_udp_pcb2 :: udp_pcb where
  "ex_udp_pcb2 = \<lparr>u_local = ip_endp_new ip_any 9, u_queue = [], u_task = 1\<rparr>"

definition ex_udp :: udp_state where
  "ex_udp = \<lparr>udp_host = ex_host, udp_pcbs = [Some ex_udp_pcb, Some ex_udp_pcb2]\<rparr>"

lemma ex_udp_get: "udp_pcb_get d ex_udp =
    (if d = 0 then Some ex_udp_pcb else if d = 1 then Some ex_udp_pcb2 else None)"
  by (auto simp: udp_pcb_get_def ex_udp_def slot_get_def less_Suc_eq nth_Cons split: nat.splits)

lemma ex_udp_wf: "udp_wf ex_udp"
proof -
  have "u_task ex_udp_pcb = 0" "u_task ex_udp_pcb2 = 1" "\<not> udp_match (u_local ex_udp_pcb) ex_udp_pcb2"
    "\<not> udp_match (u_local ex_udp_pcb2) ex_udp_pcb"
    by (simp_all add: ex_udp_pcb_def ex_udp_pcb2_def udp_match_def ip_endp_new_def)
  moreover have "length (udp_pcbs ex_udp) \<le> UDP_PCB_SIZE_MAX" "length (host_tasks (udp_host ex_udp)) = 4"
    by (simp_all add: ex_udp_def ex_host_def UDP_PCB_SIZE_MAX_def)
  ultimately show ?thesis
    by (intro udp_wfI) (auto simp: ex_udp_get split: if_splits)
qed

section \<open>TCP\<close>

definition ex_peer :: ip_endp where "ex_peer = ip_endp_new (IpAddr 192 0 2 1) 40000"
definition ex_local :: ip_endp where "ex_local = ip_endp_new (IpAddr 192 0 2 2) 80"

definition ex_established :: tcp_pcb where
  "ex_established = (tcp_pcb_empty 0)\<lparr>t_state := Established, t_local := ex_local, t_remote := ex_peer,
     snd_nxt := 101, snd_una := 101, snd_wnd := 1000, t_iss := 100, rcv_nxt := 501, rcv_wnd := 65533,
     t_irs := 500, t_mss := 536, t_buf := [1, 2]\<rparr>"

definition ex_listen :: tcp_pcb where
  "ex_listen = (tcp_pcb_empty 1)\<lparr>t_state := Listen, t_mode := Socket, t_local := ip_endp_new ip_any 80,
     backlog_max := 4\<rparr>"

definition ex_child :: tcp_pcb where
  "ex_child = (tcp_pcb_empty 2)\<lparr>t_state := SynReceived, t_local := ex_local,
     t_remote := ip_endp_new (IpAddr 192 0 2 1) 40001, snd_nxt := 301, snd_una := 300, t_iss := 300,
     rcv_nxt := 701, rcv_wnd := 65535, t_irs := 700, parent_desc := Some 1\<rparr>"

definition ex_bound :: tcp_pcb where
  "ex_bound = (tcp_pcb_empty 3)\<lparr>t_mode := Socket, t_local := ip_endp_new ip_any 8080\<rparr>"

definition ex_tcp :: tcp_state where
  "ex_tcp = \<lparr>tcp_host = ex_host, tcp_pcbs = [Some ex_established, Some ex_listen, Some ex_child, Some ex_bound]\<rparr>"

lemmas ex_pcbs = ex_established_def ex_listen_def ex_child_def ex_bound_def ex_peer_def ex_local_def
  tcp_pcb_empty_def ip_endp_new_def

lemma ex_tcp_get: "tcp_get d ex_tcp =
    (if d = 0 then Some ex_established else if d = 1 then Some ex_listen
     else if d = 2 then Some ex_child else if d = 3 then Some ex_bound else None)"
  by (auto simp: tcp_get_def ex_tcp_def slot_get_def less_Suc_eq nth_Cons split: nat.splits)

lemma ex_tcp_wf: "tcp_wf ex_tcp"
proof -
  have "win_ok ex_established" "win_ok ex_listen" "win_ok ex_child" "win_ok ex_bound"
    by (simp_all add: win_ok_def ex_pcbs RECV_BUF_SIZE_def)
  moreover have "t_task ex_established = 0" "t_task ex_listen = 1" "t_task ex_child = 2" "t_task ex_bound = 3"
    by (simp_all add: ex_pcbs)
  moreover have "length (tcp_pcbs ex_tcp) \<le> TCP_PCB_SIZE_MAX" "length (tcp_tasks ex_tcp) = 4"
    by (simp_all add: ex_tcp_def ex_host_def TCP_PCB_SIZE_MAX_def)
  ultimately show ?thesis
    unfolding tcp_wf_def by (auto simp: ex_tcp_get split: if_splits)
qed

lemma ex_select:
  "tcp_pcb_select ex_local ex_peer ex_tcp = Some 0"
  "tcp_pcb_select ex_local (ip_endp_new (IpAddr 192 0 2 1) 40001) ex_tcp = Some 2"
  "tcp_pcb_select ex_local (ip_endp_new (IpAddr 192 0 2 1) 40002) ex_tcp = Some 1"
  by (simp_all add: tcp_pcb_select_def ex_tcp_def tcp_match_def ex_pcbs endp_none_def ip_any_def)

lemma ex_alloc: "fst (tcp_pcb_alloc ex_tcp) = Some 4"
  by (simp add: tcp_pcb_alloc_def ex_tcp_def TCP_PCB_SIZE_MAX_def host_new_task_def Let_def case_prod_beta)

section \<open>The whole stack\<close>

definition ex_stack :: stack where
  "ex_stack = \<lparr>st_host = ex_host, st_udp = udp_pcbs ex_udp, st_tcp = tcp_pcbs ex_tcp, st_socks = []\<rparr>"

lemma ex_views: "udp_view ex_stack = ex_udp" "tcp_view ex_stack = ex_tcp"
  by (simp_all add: udp_view_def tcp_view_def ex_stack_def ex_udp_def ex_tcp_def)

lemma ex_stack_wf: "stack_wf ex_stack"
  using ex_link_wf ex_cache_wf ex_udp_wf ex_tcp_wf
  by (simp add: stack_wf_def ex_views) (simp add: ex_stack_def ex_host_def ex_ip_def ex_arp_def)

end
