(* ===== verification/Loopback.thy ===== *)
theory Loopback
  imports Stack_Props
begin

text \<open>
  TCP between two control blocks of the same host, over the loopback device: what one side sends
  waits in the input queue of the link layer as one packet, and one pass of the software interrupt
  handler hands exactly that segment to \<open>segment_arrives\<close>. On top of it: the three-way handshake of
  \<open>connect\<close> with a listening socket, the relation between the two ends of a connection at rest, and
  the transfer of data that keeps it.
\<close>

section \<open>Facts on segments\<close>

text \<open>A segment that was built passes the checks of \<open>input\<close> at the other end.\<close>

definition sent_seg :: "u32 \<Rightarrow> u32 \<Rightarrow> u8 \<Rightarrow> u16 \<Rightarrow> bytes \<Rightarrow> seg_info" where
  "sent_seg seq ack flg wnd data = \<lparr>seg_seq = seq, seg_ack = ack,
     seg_len = of_nat (length data) + (if flag_isset flg TCP_FLG_SYN then 1 else 0) +
       (if flag_isset flg TCP_FLG_FIN then 1 else 0), seg_wnd = wnd, seg_up = 0\<rparr>"

lemma sent_seg_simps [simp]:
  "seg_seq (sent_seg seq ack flg wnd data) = seq" "seg_ack (sent_seg seq ack flg wnd data) = ack"
  "seg_wnd (sent_seg seq ack flg wnd data) = wnd"
  by (simp_all add: sent_seg_def)

lemma sent_ack_len [simp]: "seg_len (sent_seg seq ack TCP_FLG_ACK wnd []) = 0"
  by (simp add: sent_seg_def flag_isset_def tcp_flags)

lemma tcp_input_segment:
  assumes "20 + length data \<le> 65535" and "ip_src hdr = addr loc" and "ip_dst hdr = addr rem"
    and "addr loc \<notin> {ip_broadcast, if_broadcast iface}" and "addr rem \<notin> {ip_broadcast, if_broadcast iface}"
  shows "tcp_input hdr (tcp_segment seq ack flg wnd data loc rem) iface s =
    segment_arrives (sent_seg seq ack flg wnd data) flg data rem loc s"
proof -
  let ?t = "tcp_segment seq ack flg wnd data loc rem"
  have endp: "ip_endp_new (addr e) (port e) = e" for e by (simp add: ip_endp_new_def)
  have "tcp_up ?t = 0"
    unfolding tcp_segment_layout by (simp add: Let_def tcp_up_def u16_to_be_def u32_to_be_def u16_to_ne_def u16_from_be_def)
  then have "tcp_seg_info ?t = sent_seg seq ack flg wnd data"
    by (simp add: tcp_seg_info_def sent_seg_def tcp_segment_fields Let_def)
  with assms tcp_segment_sum [OF assms(1), of seq ack flg wnd loc rem] show ?thesis
    by (simp add: tcp_input_def tcp_segment_fields Let_def TCP_HDR_SIZE_def endp)
qed

section \<open>The queue below TCP\<close>

abbreviation tcp_pending :: "tcp_state \<Rightarrow> input_entry list" where
  "tcp_pending t \<equiv> input_queue (tcp_link t)"

text \<open>The random numbers still to come.\<close>

definition tcp_rand :: "tcp_state \<Rightarrow> nat \<Rightarrow> u32" where
  "tcp_rand t n = rand (lk_os (tcp_link t)) (rand_reads (lk_os (tcp_link t)) + n)"

text \<open>A packet of the input queue that holds the given segment.\<close>

definition holds_segment ::
  "nat \<Rightarrow> u32 \<Rightarrow> u32 \<Rightarrow> u8 \<Rightarrow> u16 \<Rightarrow> bytes \<Rightarrow> ip_endp \<Rightarrow> ip_endp \<Rightarrow> input_entry \<Rightarrow> bool" where
  "holds_segment i seq ack flg wnd data loc rem e \<longleftrightarrow>
     ie_ty e = PROTOCOL_TYPE_IP \<and> ie_dev e = i \<and>
     (\<exists>ident. build_packet IP_PROTOCOL_TCP (tcp_segment seq ack flg wnd data loc rem)
        (addr loc) (addr rem) ident = Ok (ie_data e))"

lemma tcp_below_same [simp]:
  "tcp_ip (tcp_notify d t) = tcp_ip t" "tcp_ip (transition d st t) = tcp_ip t"
  "tcp_ip (tcp_mod d f t) = tcp_ip t" "tcp_ip (retrans_queue_cleanup d t) = tcp_ip t"
  by (simp_all add: tcp_notify_def split: option.splits)

lemma tcp_rand_ip: "tcp_ip t = tcp_ip t' \<Longrightarrow> tcp_rand t = tcp_rand t'"
  by (simp add: tcp_rand_def fun_eq_iff)

lemma tcp_pending_steps [simp]:
  "tcp_pending (snd (tcp_now t)) = tcp_pending t" "tcp_pending (snd (tcp_random32 t)) = tcp_pending t"
  "tcp_rand (snd (tcp_now t)) = tcp_rand t" "tcp_rand (snd (tcp_random32 t)) n = tcp_rand t (Suc n)"
  "fst (tcp_random32 t) = tcp_rand t 0"
  by (simp_all add: tcp_now_def tcp_random32_def ip_random32_def random32_def ip_now_def now_def
      ip_with_os_def tcp_rand_def case_prod_beta Let_def fun_eq_iff)

section \<open>Sending to oneself\<close>

text \<open>
  The host can reach its own address \<open>a\<close> over the loopback device, and TCP is registered with IP.
\<close>

definition tcp_loop :: "tcp_state \<Rightarrow> ip_addr \<Rightarrow> ip_iface \<Rightarrow> device \<Rightarrow> bool" where
  "tcp_loop t a iface dev \<longleftrightarrow> loopback_to (tcp_ip t) a iface dev \<and> 40 \<le> unat (dev_mtu dev) \<and>
     a \<notin> {ip_broadcast, if_broadcast iface} \<and>
     find (\<lambda>p. fst p = IP_PROTOCOL_TCP) (ip_protocols (tcp_ip t)) = Some (IP_PROTOCOL_TCP, TcpInput)"

lemma by_index_devices: "devices l' = devices l \<Longrightarrow> by_index l' = by_index l"
  by (simp add: by_index_def fun_eq_iff)

lemma loopback_extends: "ip_extends i i' \<Longrightarrow> loopback_to i a iface dev \<Longrightarrow> loopback_to i' a iface dev"
  using by_index_devices [of "ip_link i'" "ip_link i"]
  by (simp add: loopback_to_def ip_extends_def link_extends_def route_lookup_def)

lemma tcp_loop_extends: "tcp_loop t a iface dev \<Longrightarrow> ip_extends (tcp_ip t) (tcp_ip t') \<Longrightarrow> tcp_loop t' a iface dev"
  using loopback_extends [of "tcp_ip t" "tcp_ip t'" a iface dev]
  unfolding tcp_loop_def by (simp add: ip_extends_def)

lemma output_segment_loop:
  assumes loop: "tcp_loop t a iface dev" and addr: "addr loc = a" "addr rem = a"
    and mtu: "40 + length data \<le> unat (dev_mtu dev)"
  shows "\<exists>e. fst (tcp_output_segment seq ack flg wnd data loc rem t) = Ok (length data) \<and>
    tcp_pending (snd (tcp_output_segment seq ack flg wnd data loc rem t)) = tcp_pending t @ [e] \<and>
    holds_segment (if_dev iface) seq ack flg wnd data loc rem e \<and>
    (\<forall>n. tcp_rand (snd (tcp_output_segment seq ack flg wnd data loc rem t)) n = tcp_rand t (Suc n))"
proof -
  let ?g = "tcp_segment seq ack flg wnd data loc rem"
  have lb: "loopback_to (tcp_ip t) a iface dev" using loop by (simp add: tcp_loop_def)
  have len: "20 + length ?g \<le> unat (dev_mtu dev)" using mtu by (simp add: tcp_segment_fields)
  let ?os = "softirq_raise (snd (random32 (lk_os (tcp_link t))))"
  obtain buf ident where out: "ip_output IP_PROTOCOL_TCP ?g a a (tcp_ip t) =
      (Ok (), queue_packet (if_dev iface) buf ?os (tcp_ip t))"
    and buf: "build_packet IP_PROTOCOL_TCP ?g a a ident = Ok buf"
    using ip_output_loopback [OF lb len] by blast
  have "tcp_output_segment seq ack flg wnd data loc rem t =
      (Ok (length data), t\<lparr>tcp_host := (tcp_host t)\<lparr>host_ip := queue_packet (if_dev iface) buf ?os (tcp_ip t)\<rparr>\<rparr>)"
    using out addr by (simp add: tcp_output_segment_def output_segment_def host_ip_output_def)
  moreover have "holds_segment (if_dev iface) seq ack flg wnd data loc rem
      \<lparr>ie_ty = PROTOCOL_TYPE_IP, ie_data = buf, ie_dev = if_dev iface\<rparr>"
    using buf addr by (auto simp: holds_segment_def)
  ultimately show ?thesis
    by (simp add: queue_packet_def tcp_rand_def softirq_raise_def random32_def)
qed

section \<open>Receiving from oneself\<close>

definition tcp_drained :: "tcp_state \<Rightarrow> tcp_state" where
  "tcp_drained t = t\<lparr>tcp_host := (tcp_host t)\<lparr>host_ip := (tcp_ip t)\<lparr>ip_arp := (ip_arp (tcp_ip t))
     \<lparr>arp_link := (tcp_link t)\<lparr>input_queue := []\<rparr>\<rparr>\<rparr>\<rparr>\<rparr>"

lemma tcp_drained_simps [simp]:
  "tcp_get d (tcp_drained t) = tcp_get d t" "tcp_pending (tcp_drained t) = []"
  "tcp_pcbs (tcp_drained t) = tcp_pcbs t" "tcp_tasks (tcp_drained t) = tcp_tasks t"
  "tcp_pcb_select loc rem (tcp_drained t) = tcp_pcb_select loc rem t"
  "tcp_rand (tcp_drained t) = tcp_rand t" "tcp_loop (tcp_drained t) = tcp_loop t"
  by (simp_all add: tcp_drained_def tcp_rand_def tcp_pcb_select_def fun_eq_iff tcp_loop_def loopback_to_def
      route_lookup_def by_index_def)

text \<open>The first packet taken out of the queue.\<close>

definition tcp_rest :: "tcp_state \<Rightarrow> tcp_state" where
  "tcp_rest t = t\<lparr>tcp_host := (tcp_host t)\<lparr>host_ip := (tcp_ip t)\<lparr>ip_arp := (ip_arp (tcp_ip t))
     \<lparr>arp_link := (tcp_link t)\<lparr>input_queue := tl (tcp_pending t)\<rparr>\<rparr>\<rparr>\<rparr>\<rparr>"

lemma tcp_rest_simps [simp]:
  "tcp_get d (tcp_rest t) = tcp_get d t" "tcp_pending (tcp_rest t) = tl (tcp_pending t)"
  "tcp_pcb_select loc rem (tcp_rest t) = tcp_pcb_select loc rem t" "tcp_loop (tcp_rest t) = tcp_loop t"
  by (simp_all add: tcp_rest_def tcp_pcb_select_def fun_eq_iff tcp_loop_def loopback_to_def route_lookup_def by_index_def)

lemma tcp_store_store [simp]: "tcp_store t (tcp_store t' s) = tcp_store t s"
  by (simp add: tcp_store_def)

text \<open>One pass of the software interrupt handler delivers the first segment that waits.\<close>

lemma softirq_head:
  assumes loop: "tcp_loop (tcp_view s) a iface dev" and addr: "addr loc = a" "addr rem = a"
    and one: "input_queue (st_link s) = e # es"
    and e: "holds_segment (if_dev iface) seq ack flg wnd data loc rem e"
  shows "softirq_step s = Some (tcp_store (segment_arrives (sent_seg seq ack flg wnd data) flg data rem loc
    (tcp_rest (tcp_view s))) s)"
proof -
  let ?g = "tcp_segment seq ack flg wnd data loc rem" and ?s0 = "st_with_link ((st_link s)\<lparr>input_queue := es\<rparr>) s"
  obtain ident where buf: "build_packet IP_PROTOCOL_TCP ?g a a ident = Ok (ie_data e)"
    and ty: "ie_ty e = PROTOCOL_TYPE_IP" "ie_dev e = if_dev iface"
    using e addr by (auto simp: holds_segment_def)
  have lb: "loopback_to (st_ip s) a iface dev"
    and tcp: "find (\<lambda>p. fst p = IP_PROTOCOL_TCP) (ip_protocols (st_ip s)) = Some (IP_PROTOCOL_TCP, TcpInput)"
    and bc: "a \<notin> {ip_broadcast, if_broadcast iface}"
    using loop by (simp_all add: tcp_loop_def)
  have dev: "dev_get_iface FAMILY_IP dev = Some iface" "a = if_unicast iface" "by_index (st_link s) (if_dev iface) = Some dev"
    "find (\<lambda>p. fst p = PROTOCOL_TYPE_IP) (net_protocols (st_link s)) = Some (PROTOCOL_TYPE_IP, IpInput)"
    using lb by (auto simp: loopback_to_def)
  have verdict: "ip_input_verdict (ie_data e) dev (ip_protocols (st_ip s)) = IpDeliver TcpInput ?g iface"
    and src: "ip_src (ie_data e) = a" "ip_dst (ie_data e) = a"
    using ip_packet_delivered [OF buf dev(1) _ tcp, of "[]"] dev(2) by simp_all
  have "length ?g \<le> 65535" using buf by (auto simp: build_packet_def Let_def split: if_splits)
  then have len: "20 + length data \<le> 65535" by (simp add: tcp_segment_fields)
  have pop: "softirq_pop (st_link s) = Some ((Some IpInput, e), (st_link s)\<lparr>input_queue := es\<rparr>)"
    using one ty dev(4) by (simp add: softirq_pop_def)
  have by0: "by_index (st_link ?s0) (if_dev iface) = Some dev" using dev(3) by_index_devices [of "st_link ?s0" "st_link s"] by simp
  have "softirq_step s = Some (tcp_store (tcp_input (ie_data e) ?g iface (tcp_view ?s0)) ?s0)"
    using pop verdict by0 ty by (simp add: softirq_step_def net_dispatch_def ip_input_def ip_deliver_def Let_def)
  also have "tcp_view ?s0 = tcp_rest (tcp_view s)"
    using one by (simp add: tcp_view_def tcp_rest_def st_with_link_def st_with_ip_def)
  also have "tcp_input (ie_data e) ?g iface (tcp_rest (tcp_view s)) =
      segment_arrives (sent_seg seq ack flg wnd data) flg data rem loc (tcp_rest (tcp_view s))"
    using src bc addr by (intro tcp_input_segment [OF len]) auto
  finally show ?thesis by (simp add: tcp_store_def st_with_link_def st_with_ip_def)
qed

lemma softirq_segment:
  assumes "tcp_loop (tcp_view s) a iface dev" and "addr loc = a" "addr rem = a" and "input_queue (st_link s) = [e]"
    and "holds_segment (if_dev iface) seq ack flg wnd data loc rem e"
  shows "softirq_step s = Some (tcp_store (segment_arrives (sent_seg seq ack flg wnd data) flg data rem loc
    (tcp_drained (tcp_view s))) s)"
  using softirq_head [OF assms] assms(4) by (simp add: tcp_rest_def tcp_drained_def)

section \<open>Selection by uniqueness\<close>

text \<open>The segments of a pair of endpoints select the only connection that matches it.\<close>

definition only_match :: "ip_endp \<Rightarrow> ip_endp \<Rightarrow> nat \<Rightarrow> tcp_state \<Rightarrow> bool" where
  "only_match loc rem c t \<longleftrightarrow>
     (\<forall>e r. tcp_get e t = Some r \<longrightarrow> tcp_match loc rem r \<longrightarrow> t_state r \<noteq> Listen \<longrightarrow> e = c)"

lemma select_only:
  assumes "tcp_get c t = Some p" and "t_local p = loc" and "t_remote p = rem" and "t_state p \<noteq> Listen"
    and "only_match loc rem c t"
  shows "tcp_pcb_select loc rem t = Some c"
proof -
  have m: "tcp_match loc rem p" using assms by (simp add: tcp_match_def)
  then obtain d where d: "tcp_pcb_select loc rem t = Some d"
    using assms(1) tcp_select_None [of loc rem t] by (cases "tcp_pcb_select loc rem t") auto
  from tcp_select_Some [OF this] m assms(1, 4, 5) d show ?thesis
    unfolding only_match_def by (metis (full_types))
qed

lemma select_listener:
  assumes "tcp_get l t = Some lp" and "tcp_match loc rem lp" and "t_state lp = Listen"
    and "\<And>e r. tcp_get e t = Some r \<Longrightarrow> tcp_match loc rem r \<Longrightarrow> t_state r = Listen \<and> e \<le> l"
  shows "tcp_pcb_select loc rem t = Some l"
proof -
  obtain d where d: "tcp_pcb_select loc rem t = Some d"
    using assms(1, 2) tcp_select_None [of loc rem t] by (cases "tcp_pcb_select loc rem t") auto
  from tcp_select_Some [OF this] obtain r where r: "tcp_get d t = Some r" "tcp_match loc rem r"
    and rest: "t_state r = Listen \<longrightarrow> (\<forall>e q. tcp_get e t = Some q \<longrightarrow> tcp_match loc rem q \<longrightarrow> e \<le> d)"
    by (auto split: if_splits)
  with assms have "d \<le> l" "l \<le> d" by blast+
  with d show ?thesis by simp
qed

lemma listener_selected:
  assumes "tcp_pcb_select loc rem t = Some l" and "tcp_get l t = Some lp" and "t_state lp = Listen"
  shows "tcp_match loc rem lp"
    and "tcp_get e t = Some r \<Longrightarrow> tcp_match loc rem r \<Longrightarrow> t_state r = Listen \<and> e \<le> l"
  using tcp_select_Some [OF assms(1)] assms(2, 3) by auto

section \<open>The three segments of the handshake\<close>

lemma output_loop:
  assumes loop: "tcp_loop t a iface dev" and p: "tcp_get d t = Some p"
    and addr: "addr (t_local p) = a" "addr (t_remote p) = a"
    and mtu: "40 + length data \<le> unat (dev_mtu dev)"
  shows "\<exists>e. fst (tcp_output d flg data t) = Ok (length data) \<and>
    tcp_pending (snd (tcp_output d flg data t)) = tcp_pending t @ [e] \<and>
    holds_segment (if_dev iface) (output_seq flg p) (rcv_nxt p) flg (rcv_wnd p) data (t_local p) (t_remote p) e \<and>
    (\<forall>n. tcp_rand (snd (tcp_output d flg data t)) n = tcp_rand t (Suc n))"
proof -
  let ?t1 = "if flag_isset flg (TCP_FLG_SYN OR TCP_FLG_FIN) \<or> data \<noteq> []
    then retrans_queue_add d (output_seq flg p) flg data t else t"
  have add: "tcp_ip (retrans_queue_add d q flg data t) = tcp_ip (snd (tcp_now t))" for q
    by (simp add: retrans_queue_add_def case_prod_beta Let_def)
  have now: "ip_extends (tcp_ip t) (tcp_ip (snd (tcp_now t)))"
    using lower_steps(3) by (simp add: lower_def)
  have "tcp_loop ?t1 a iface dev" using tcp_loop_extends [OF loop, of ?t1] now loop by (simp add: add)
  moreover have "tcp_pending ?t1 = tcp_pending t" "tcp_rand ?t1 = tcp_rand t"
    using tcp_rand_ip [OF add] by (simp_all add: add)
  moreover have "tcp_output d flg data t =
      tcp_output_segment (output_seq flg p) (rcv_nxt p) flg (rcv_wnd p) data (t_local p) (t_remote p) ?t1"
    using p by (simp add: tcp_output_def output_seq_def Let_def)
  ultimately show ?thesis
    using output_segment_loop [OF _ addr mtu, of ?t1 iface "output_seq flg p" "rcv_nxt p" flg "rcv_wnd p"] by simp
qed

text \<open>The entry of a SYN leaves the retransmission queue with its acknowledgment.\<close>

lemma syn_acked:
  assumes "t_queue p = []" and "flag_isset flg TCP_FLG_SYN" and "t_iss p = r"
  shows "drop_acked (r + 1) (t_queue (queued now' flg [] p)) = []"
  using assms by (auto simp: queued_def output_seq_def q_consume_def takes_sequence_def flag_isset_def
      bit.conj_disj_distrib)

lemma send_syn_loop:
  assumes loop: "tcp_loop t a iface dev" and p: "tcp_get c t = Some p" "t_queue p = []"
    and addr: "addr loc = a" "addr rem = a" and r: "r = tcp_rand t 0"
  shows "\<exists>t' e q. send_syn c loc rem t = (Ok (), t') \<and> tcp_pending t' = tcp_pending t @ [e] \<and>
    holds_segment (if_dev iface) r (rcv_nxt p) TCP_FLG_SYN 65535 [] loc rem e \<and>
    (\<forall>n. tcp_rand t' n = tcp_rand t (n + 2)) \<and> lower t t' \<and>
    (\<forall>d. tcp_get d t' = (if d = c then Some q else tcp_get d t)) \<and>
    t_state q = SynSent \<and> t_local q = loc \<and> t_remote q = rem \<and> t_iss q = r \<and> snd_una q = r \<and>
    snd_nxt q = r + 1 \<and> rcv_wnd q = 65535 \<and> drop_acked (r + 1) (t_queue q) = []"
proof -
  let ?t1 = "tcp_mod c (\<lambda>p. p\<lparr>t_local := loc, t_remote := rem, rcv_wnd := 65535\<rparr>) t"
  let ?t3 = "tcp_mod c (\<lambda>p. p\<lparr>t_iss := r\<rparr>) (snd (tcp_random32 ?t1))"
  let ?p3 = "p\<lparr>t_local := loc, t_remote := rem, rcv_wnd := 65535, t_iss := r\<rparr>"
  let ?t4 = "snd (tcp_output c TCP_FLG_SYN [] ?t3)"
  let ?t' = "transition c SynSent (tcp_mod c (\<lambda>p. p\<lparr>snd_una := t_iss p, snd_nxt := t_iss p + 1\<rparr>) ?t4)"
  let ?q = "(queued (fst (tcp_now ?t3)) TCP_FLG_SYN [] ?p3)\<lparr>snd_una := r, snd_nxt := r + 1, t_state := SynSent\<rparr>"
  have r1: "tcp_rand ?t1 = tcp_rand t" by (rule tcp_rand_ip) simp
  have ext: "ip_extends (tcp_ip t) (tcp_ip ?t3)" using lower_steps(4) [of ?t1] by (simp add: lower_def)
  have p3: "tcp_get c ?t3 = Some ?p3" by (simp add: p)
  obtain e where out: "fst (tcp_output c TCP_FLG_SYN [] ?t3) = Ok 0" "tcp_pending ?t4 = tcp_pending ?t3 @ [e]"
    "holds_segment (if_dev iface) r (rcv_nxt p) TCP_FLG_SYN 65535 [] loc rem e"
    "\<And>n. tcp_rand ?t4 n = tcp_rand ?t3 (Suc n)"
    using output_loop [OF tcp_loop_extends [OF loop ext] p3, of "[]" TCP_FLG_SYN] addr loop
    by (auto simp: output_seq_def tcp_loop_def)
  have r3: "tcp_rand ?t3 n = tcp_rand t (Suc n)" for n
    using tcp_rand_ip [of ?t3 "snd (tcp_random32 ?t1)"] r1 by simp
  have r': "tcp_rand ?t' n = tcp_rand t (n + 2)" for n
    using tcp_rand_ip [of ?t' ?t4] out(4) r3 by simp
  have send: "send_syn c loc rem t = (Ok (), ?t')"
    using out(1) r1 r by (simp add: send_syn_def case_prod_beta Let_def RECV_BUF_SIZE_def split: result.splits prod.splits)
  have "lower t ?t'" by simp
  moreover have "\<forall>d. tcp_get d ?t' = (if d = c then Some ?q else tcp_get d t)"
    by (simp add: p)
  moreover have "drop_acked (r + 1) (t_queue ?q) = []"
    using syn_acked [of ?p3 TCP_FLG_SYN r] p(2) by simp
  ultimately show ?thesis
    using send out(2, 3) r' by (intro exI [of _ ?t'] exI [of _ e] exI [of _ ?q]) simp
qed

lemma listen_syn_eq:
  assumes "tcp_pcb_select loc rem s = Some l" and "tcp_get l s = Some lp" and "t_state lp = Listen"
    and "t_mode lp = Socket" and "length (t_backlog lp) < backlog_max lp"
    and "fst (tcp_pcb_alloc s) = Some c"
  shows "segment_arrives seg TCP_FLG_SYN data loc rem s = syn_received c seg loc rem
      (tcp_mod c (\<lambda>q. q\<lparr>parent_desc := Some l\<rparr>) (snd (tcp_pcb_alloc s)))"
proof -
  have "\<not> flag_isset TCP_FLG_SYN TCP_FLG_RST" "\<not> flag_isset TCP_FLG_SYN TCP_FLG_ACK"
    by (simp_all add: flag_isset_def tcp_flags)
  moreover obtain s1 where "tcp_pcb_alloc s = (Some c, s1)" using assms(6) by (cases "tcp_pcb_alloc s") auto
  ultimately show ?thesis
    using assms by (simp add: segment_arrives_def seg_listen_def listen_target_def)
qed

lemma syn_received_loop:
  assumes loop: "tcp_loop t a iface dev" and p: "tcp_get c t = Some p" "t_queue p = []"
    and addr: "addr loc = a" "addr rem = a" and r: "r = tcp_rand t 0"
  shows "\<exists>e q. tcp_pending (syn_received c seg loc rem t) = tcp_pending t @ [e] \<and>
    holds_segment (if_dev iface) r (seg_seq seg + 1) (TCP_FLG_SYN OR TCP_FLG_ACK) 65535 [] loc rem e \<and>
    (\<forall>d. tcp_get d (syn_received c seg loc rem t) = (if d = c then Some q else tcp_get d t)) \<and>
    t_state q = SynReceived \<and> t_local q = loc \<and> t_remote q = rem \<and> snd_una q = r \<and> snd_nxt q = r + 1 \<and>
    rcv_nxt q = seg_seq seg + 1 \<and> rcv_wnd q = 65535 \<and> parent_desc q = parent_desc p \<and>
    snd_wl1 q = snd_wl1 p \<and> snd_wl2 q = snd_wl2 p \<and> drop_acked (r + 1) (t_queue q) = []"
proof -
  let ?SA = "TCP_FLG_SYN OR TCP_FLG_ACK"
  let ?t1 = "tcp_mod c (\<lambda>p. p\<lparr>t_local := loc, t_remote := rem, rcv_wnd := 65535, rcv_nxt := seg_seq seg + 1,
    t_irs := seg_seq seg\<rparr>) t"
  let ?t3 = "tcp_mod c (\<lambda>p. p\<lparr>t_iss := r\<rparr>) (snd (tcp_random32 ?t1))"
  let ?p3 = "p\<lparr>t_local := loc, t_remote := rem, rcv_wnd := 65535, rcv_nxt := seg_seq seg + 1,
    t_irs := seg_seq seg, t_iss := r\<rparr>"
  let ?t4 = "snd (tcp_output c ?SA [] ?t3)"
  let ?q = "(queued (fst (tcp_now ?t3)) ?SA [] ?p3)\<lparr>snd_nxt := r + 1, snd_una := r, t_state := SynReceived\<rparr>"
  have r1: "tcp_rand ?t1 = tcp_rand t" by (rule tcp_rand_ip) simp
  have eq: "syn_received c seg loc rem t =
      transition c SynReceived (tcp_mod c (\<lambda>p. p\<lparr>snd_nxt := t_iss p + 1, snd_una := t_iss p\<rparr>) ?t4)"
    using r r1 by (simp add: syn_received_def case_prod_beta Let_def RECV_BUF_SIZE_def)
  have ext: "ip_extends (tcp_ip t) (tcp_ip ?t3)" using lower_steps(4) [of ?t1] by (simp add: lower_def)
  have p3: "tcp_get c ?t3 = Some ?p3" by (simp add: p)
  obtain e where out: "tcp_pending ?t4 = tcp_pending ?t3 @ [e]"
    "holds_segment (if_dev iface) r (seg_seq seg + 1) ?SA 65535 [] loc rem e"
    using output_loop [OF tcp_loop_extends [OF loop ext] p3, of "[]" ?SA] addr loop
    by (auto simp: output_seq_def tcp_loop_def)
  have "drop_acked (r + 1) (t_queue ?q) = []"
    using syn_acked [of ?p3 ?SA r] p(2) by simp
  moreover have "snd_wl1 ?q = snd_wl1 p" "snd_wl2 ?q = snd_wl2 p" by (simp_all add: queued_def)
  moreover have "\<forall>d. tcp_get d (syn_received c seg loc rem t) = (if d = c then Some ?q else tcp_get d t)"
    by (simp add: eq p)
  ultimately show ?thesis
    using out by (intro exI [of _ e] exI [of _ ?q]) (simp add: eq)
qed

text \<open>The answer to our SYN establishes the connection and sends the acknowledgment.\<close>

lemma syn_ack_loop:
  assumes loop: "tcp_loop t a iface dev" and p: "tcp_get c t = Some p" "t_state p = SynSent"
    and sel: "tcp_pcb_select loc rem t = Some c"
    and addr: "t_local p = loc" "t_remote p = rem" "addr loc = a" "addr rem = a"
    and num: "t_iss p = r" "snd_una p = r" "snd_nxt p = r + 1" "r < r + 1" "drop_acked (r + 1) (t_queue p) = []"
    and seg: "seg_ack seg = r + 1"
  shows "\<exists>e q. tcp_pending (segment_arrives seg (TCP_FLG_SYN OR TCP_FLG_ACK) [] loc rem t) = tcp_pending t @ [e] \<and>
    holds_segment (if_dev iface) (r + 1) (seg_seq seg + 1) TCP_FLG_ACK (rcv_wnd p) [] loc rem e \<and>
    (\<forall>d. tcp_get d (segment_arrives seg (TCP_FLG_SYN OR TCP_FLG_ACK) [] loc rem t) =
      (if d = c then Some q else tcp_get d t)) \<and>
    t_state q = Established \<and> t_local q = loc \<and> t_remote q = rem \<and> snd_una q = r + 1 \<and> snd_nxt q = r + 1 \<and>
    rcv_nxt q = seg_seq seg + 1 \<and> rcv_wnd q = rcv_wnd p \<and> t_queue q = [] \<and> snd_wnd q = seg_wnd seg \<and>
    snd_wl1 q = seg_seq seg \<and> snd_wl2 q = r + 1"
proof -
  let ?SA = "TCP_FLG_SYN OR TCP_FLG_ACK"
  have flags: "flag_isset ?SA TCP_FLG_ACK" "\<not> flag_isset ?SA TCP_FLG_RST" "flag_isset ?SA TCP_FLG_SYN"
    by (simp_all add: flag_isset_def tcp_flags)
  let ?t1 = "transition c Established (retrans_queue_cleanup c (tcp_mod c (\<lambda>p. p\<lparr>snd_una := r + 1\<rparr>)
    (tcp_mod c (\<lambda>p. p\<lparr>rcv_nxt := seg_seq seg + 1, t_irs := seg_seq seg\<rparr>) t)))"
  let ?p1 = "p\<lparr>rcv_nxt := seg_seq seg + 1, t_irs := seg_seq seg, snd_una := r + 1, t_queue := [], t_state := Established\<rparr>"
  let ?t2 = "snd (tcp_output c TCP_FLG_ACK [] ?t1)"
  let ?q = "?p1\<lparr>snd_wnd := seg_wnd seg, snd_wl1 := seg_seq seg, snd_wl2 := r + 1\<rparr>"
  have eq: "segment_arrives seg ?SA [] loc rem t =
      tcp_notify c (tcp_mod c (\<lambda>p. p\<lparr>snd_wnd := seg_wnd seg, snd_wl1 := seg_seq seg, snd_wl2 := r + 1\<rparr>) ?t2)"
    using p sel num seg flags
    by (simp add: segment_arrives_def seg_syn_sent_def syn_sent_established_def not_le less_imp_le Let_def)
  have p1: "tcp_get c ?t1 = Some ?p1" by (simp add: p num)
  have "tcp_loop ?t1 a iface dev" by (rule tcp_loop_extends [OF loop]) simp
  then obtain e where out: "tcp_pending ?t2 = tcp_pending t @ [e]"
    "holds_segment (if_dev iface) (r + 1) (seg_seq seg + 1) TCP_FLG_ACK (rcv_wnd p) [] loc rem e"
    using output_loop [OF _ p1, of a iface dev "[]" TCP_FLG_ACK] addr loop num
    by (auto simp: output_seq_def tcp_loop_def)
  moreover have "\<forall>d. tcp_get d (segment_arrives seg ?SA [] loc rem t) = (if d = c then Some ?q else tcp_get d t)"
    by (simp add: eq p num queued_control)
  ultimately show ?thesis
    using addr num by (intro exI [of _ e] exI [of _ ?q]) (simp add: eq)
qed

text \<open>The acknowledgment of its SYN establishes the child and queues it at its listener.\<close>

lemma child_ack_loop:
  assumes p: "tcp_get d t = Some p" "t_state p = SynReceived" "parent_desc p = Some l"
    and lp: "tcp_get l t = Some lp" "l \<noteq> d" and sel: "tcp_pcb_select loc rem t = Some d"
    and num: "snd_una p = r" "snd_nxt p = r + 1" "r < r + 1" "drop_acked (r + 1) (t_queue p) = []"
    and seg: "seg_ack seg = r + 1" "seg_seq seg = rcv_nxt p" "rcv_wnd p \<noteq> 0"
      "snd_wl1 p < seg_seq seg \<or> snd_wl1 p = seg_seq seg \<and> snd_wl2 p \<le> r + 1"
    and wrap: "unat (rcv_nxt p) + unat (rcv_wnd p) < 2 ^ 32"
  shows "tcp_get e (segment_arrives seg TCP_FLG_ACK [] loc rem t) =
      (if e = d then Some (p\<lparr>t_state := Established, snd_una := r + 1, t_queue := [], snd_wnd := seg_wnd seg,
         snd_wl1 := seg_seq seg, snd_wl2 := r + 1\<rparr>)
       else if e = l then Some (lp\<lparr>t_backlog := t_backlog lp @ [d]\<rparr>) else tcp_get e t)"
    and "tcp_pending (segment_arrives seg TCP_FLG_ACK [] loc rem t) = tcp_pending t"
proof -
  have flags: "plain_ack TCP_FLG_ACK" by (simp add: plain_ack_def flag_isset_def tcp_flags)
  have "seg_acceptable p seg" using wrap seg(2, 3) by (intro in_order_acceptable)
  then have check: "seg_check d p seg TCP_FLG_ACK t = Next () t"
    using flags by (simp add: seg_check_def plain_ack_def)
  let ?t1 = "tcp_notify d (transition d Established t)" and ?p1 = "p\<lparr>t_state := Established\<rparr>"
  let ?t2 = "tcp_mod d (\<lambda>p. p\<lparr>snd_wnd := seg_wnd seg, snd_wl1 := seg_seq seg, snd_wl2 := r + 1\<rparr>)
    (retrans_queue_cleanup d (tcp_mod d (\<lambda>p. p\<lparr>snd_una := r + 1\<rparr>) ?t1))"
  have upd: "ack_update d ?p1 seg ?t1 = Next () ?t2"
    using num seg by (auto simp: ack_update_def Let_def)
  have eq: "segment_arrives seg TCP_FLG_ACK [] loc rem t = notify_parent d (Some l) ?t2"
    using sel p lp num seg check upd flags
    by (simp add: segment_sections less_imp_le plain_ack_def seg_text_def)
  show "tcp_get e (segment_arrives seg TCP_FLG_ACK [] loc rem t) =
      (if e = d then Some (p\<lparr>t_state := Established, snd_una := r + 1, t_queue := [], snd_wnd := seg_wnd seg,
         snd_wl1 := seg_seq seg, snd_wl2 := r + 1\<rparr>)
       else if e = l then Some (lp\<lparr>t_backlog := t_backlog lp @ [d]\<rparr>) else tcp_get e t)"
    using p lp num by (simp add: eq notify_parent_def)
  show "tcp_pending (segment_arrives seg TCP_FLG_ACK [] loc rem t) = tcp_pending t"
    using lp by (simp add: eq notify_parent_def)
qed

section \<open>Two ends at rest\<close>

text \<open>
  The two control blocks of an established connection of the host with itself: each expects the
  byte the other sends next, everything sent is acknowledged, and neither believes the other's
  window to be larger than it is.
\<close>

definition end_ok :: "tcp_pcb \<Rightarrow> bool" where
  "end_ok p \<longleftrightarrow> t_state p = Established \<and> t_queue p = [] \<and> snd_una p = snd_nxt p \<and>
     snd_wl1 p \<le> rcv_nxt p \<and> snd_wl2 p \<le> snd_una p"

definition mirrors :: "tcp_pcb \<Rightarrow> tcp_pcb \<Rightarrow> bool" where
  "mirrors p q \<longleftrightarrow> t_remote p = t_local q \<and> snd_nxt p = rcv_nxt q \<and> snd_wnd p \<le> rcv_wnd q"

definition tcp_linked :: "tcp_state \<Rightarrow> ip_addr \<Rightarrow> nat \<Rightarrow> nat \<Rightarrow> bool" where
  "tcp_linked t a c d \<longleftrightarrow> c \<noteq> d \<and> (\<exists>p q. tcp_get c t = Some p \<and> tcp_get d t = Some q \<and>
     end_ok p \<and> end_ok q \<and> mirrors p q \<and> mirrors q p \<and> addr (t_local p) = a \<and> addr (t_local q) = a \<and>
     only_match (t_local p) (t_remote p) c t \<and> only_match (t_local q) (t_remote q) d t)"

lemma tcp_linked_sym: "tcp_linked t a c d \<Longrightarrow> tcp_linked t a d c"
  unfolding tcp_linked_def by blast

section \<open>The handshake\<close>

text \<open>The slot an allocation takes depends on which slots are in use only.\<close>

lemma tcp_alloc_occupied:
  assumes "fst (tcp_pcb_alloc t) = Some d" and "length (tcp_pcbs t') = length (tcp_pcbs t)"
    and "length (tcp_pcbs t) \<le> TCP_PCB_SIZE_MAX" and occ: "\<And>e. tcp_get e t' = None \<longleftrightarrow> tcp_get e t = None"
  shows "fst (tcp_pcb_alloc t') = Some d"
proof -
  have "fst (tcp_pcb_alloc t') \<noteq> None"
    using assms tcp_tab.alloc_fails_iff [of t] tcp_tab.alloc_fails_iff [of t'] by (auto simp: tcp_get_def)
  then obtain d' where d': "fst (tcp_pcb_alloc t') = Some d'" by blast
  have "e < d' \<Longrightarrow> tcp_get e t' \<noteq> None" "e < d \<Longrightarrow> tcp_get e t \<noteq> None" for e
    using tcp_tab.alloc_lowest [OF d'] tcp_tab.alloc_lowest [OF assms(1)] by (auto simp: tcp_get_def)
  with occ tcp_alloc_free [OF d'] tcp_alloc_free [OF assms(1)] have "\<not> d < d'" "\<not> d' < d" by blast+
  with d' show ?thesis by simp
qed

lemma choose_local_Ok:
  assumes "choose_local loc0 rem t = Ok loc" and "addr loc0 = ip_any" and "tcp_loop t (addr rem) iface dev"
  shows "addr loc = addr rem" and "tcp_pcb_select loc rem t = None"
  using assms by (auto simp: choose_local_def choose_addr_def choose_port_def tcp_loop_def loopback_to_def
      split: result.splits if_splits option.splits)

definition syn_sent_end :: "u32 \<Rightarrow> ip_endp \<Rightarrow> ip_endp \<Rightarrow> tcp_pcb \<Rightarrow> bool" where
  "syn_sent_end r loc rem p \<longleftrightarrow> t_state p = SynSent \<and> t_local p = loc \<and> t_remote p = rem \<and> t_iss p = r \<and>
     snd_una p = r \<and> snd_nxt p = r + 1 \<and> rcv_wnd p = 65535 \<and> drop_acked (r + 1) (t_queue p) = []"

definition syn_received_end :: "u32 \<Rightarrow> u32 \<Rightarrow> nat \<Rightarrow> ip_endp \<Rightarrow> ip_endp \<Rightarrow> tcp_pcb \<Rightarrow> bool" where
  "syn_received_end r n l loc rem p \<longleftrightarrow> t_state p = SynReceived \<and> t_local p = loc \<and> t_remote p = rem \<and>
     snd_una p = r \<and> snd_nxt p = r + 1 \<and> rcv_nxt p = n \<and> rcv_wnd p = 65535 \<and> parent_desc p = Some l \<and>
     snd_wl1 p = 0 \<and> snd_wl2 p = 0 \<and> drop_acked (r + 1) (t_queue p) = []"

text \<open>The endpoints \<open>connect\<close> chooses do not collide with the listener it connects to.\<close>

lemma connect_endpoints:
  assumes loop: "tcp_loop t a iface dev" and p: "addr (t_local p) = ip_any"
    and lp: "tcp_get l t = Some lp" "t_state lp = Listen" "endp_none (t_remote lp)"
    and loc: "choose_local (t_local p) rem t = Ok loc" "addr rem = a" "tcp_pcb_select rem loc t = Some l"
  shows "addr loc = a" and "port loc \<noteq> port rem" and "tcp_pcb_select loc rem t = None"
proof -
  show addr: "addr loc = a" and free: "tcp_pcb_select loc rem t = None"
    using choose_local_Ok [OF loc(1) p] loop loc(2) by auto
  have a: "a \<noteq> ip_any" using loop by (simp add: tcp_loop_def loopback_to_def)
  have m: "tcp_match rem loc lp" using listener_selected(1) [OF loc(3) lp(1, 2)] .
  show "port loc \<noteq> port rem"
  proof
    assume "port loc = port rem"
    then have "tcp_match loc rem lp" using m lp(3) addr a by (simp add: tcp_match_def)
    with free lp(1) show False by (simp add: tcp_select_None)
  qed
qed

text \<open>The SYN of \<open>connect\<close> waits for the listener.\<close>

lemma connect_sends_syn:
  assumes wf: "tcp_wf t" and loop: "tcp_loop t a iface dev" and empty: "tcp_pending t = []"
    and p: "tcp_get c t = Some p" "t_queue p = []" "addr (t_local p) = ip_any" "t_state p = Closed"
    and lp: "tcp_get l t = Some lp" "t_state lp = Listen" "endp_none (t_remote lp)"
    and loc: "choose_local (t_local p) rem t = Ok loc" "addr rem = a" "tcp_pcb_select rem loc t = Some l"
    and d: "fst (tcp_pcb_alloc t) = Some d" and r: "r = tcp_rand t 0"
  shows "\<exists>t1 e q. connect_start c rem t = (Ok (), t1) \<and> lower t t1 \<and> tcp_pending t1 = [e] \<and>
      holds_segment (if_dev iface) r (rcv_nxt p) TCP_FLG_SYN 65535 [] loc rem e \<and>
      tcp_rand t1 0 = tcp_rand t 2 \<and>
      tcp_pcb_select rem loc t1 = Some l \<and> fst (tcp_pcb_alloc t1) = Some d \<and> c \<noteq> l \<and> c \<noteq> d \<and> l \<noteq> d \<and>
      syn_sent_end r loc rem q \<and> (\<forall>f. tcp_get f t1 = (if f = c then Some q else tcp_get f t))"
proof -
  note endp = connect_endpoints [OF loop p(3) lp loc]
  obtain t1 e q where t1: "send_syn c loc rem t = (Ok (), t1)" "tcp_pending t1 = [e]"
    "holds_segment (if_dev iface) r (rcv_nxt p) TCP_FLG_SYN 65535 [] loc rem e"
    "\<And>n. tcp_rand t1 n = tcp_rand t (n + 2)" "lower t t1"
    and get: "\<And>f. tcp_get f t1 = (if f = c then Some q else tcp_get f t)" and q: "syn_sent_end r loc rem q"
    using send_syn_loop [OF loop p(1, 2) endp(1) loc(2) r] empty unfolding syn_sent_end_def by auto
  have ne: "c \<noteq> l" "c \<noteq> d" "l \<noteq> d"
    using p(1, 4) lp(1, 2) tcp_alloc_free [OF d] by auto
  have "tcp_pcb_select rem loc t1 = Some l"
  proof (rule select_listener)
    show "tcp_get l t1 = Some lp" using get [of l] ne lp(1) by simp
    show "tcp_match rem loc lp" by (rule listener_selected(1) [OF loc(3) lp(1, 2)])
    show "t_state r = Listen \<and> f \<le> l" if "tcp_get f t1 = Some r" "tcp_match rem loc r" for f r
      using that get [of f] q endp(2) listener_selected(2) [OF loc(3) lp(1, 2), of f r]
      by (auto simp: syn_sent_end_def tcp_match_def split: if_splits)
  qed (rule lp(2))
  moreover have "fst (tcp_pcb_alloc t1) = Some d"
    using wf t1(5) get p(1) by (intro tcp_alloc_occupied [OF d]) (auto simp: lower_def tcp_wf_def)
  moreover have "connect_start c rem t = (Ok (), t1)" using p(1) loc(1) t1(1) by (simp add: connect_start_def)
  ultimately show ?thesis
    using t1(2-5) q get ne by (intro exI [of _ t1] exI [of _ e] exI [of _ q]) (simp add: numeral_2_eq_2)
qed

text \<open>The SYN makes the listener open a child, and the answer of the child waits for us.\<close>

lemma tcp_alloc_drained [simp]: "fst (tcp_pcb_alloc (tcp_drained t)) = fst (tcp_pcb_alloc t)"
  by (simp add: tcp_pcb_alloc_def case_prod_beta Let_def split: option.splits)

lemma listener_opens_child:
  assumes loop: "tcp_loop t a iface dev" and lp: "tcp_get l t = Some lp" "t_state lp = Listen" "t_mode lp = Socket"
      "length (t_backlog lp) < backlog_max lp"
    and sel: "tcp_pcb_select loc rem t = Some l" and d: "fst (tcp_pcb_alloc t) = Some d"
    and addr: "addr loc = a" "addr rem = a" and r: "r = tcp_rand t 0"
    and t': "t' = segment_arrives seg TCP_FLG_SYN [] loc rem (tcp_drained t)"
  shows "\<exists>e q. tcp_pending t' = [e] \<and> syn_received_end r (seg_seq seg + 1) l loc rem q \<and>
    holds_segment (if_dev iface) r (seg_seq seg + 1) (TCP_FLG_SYN OR TCP_FLG_ACK) 65535 [] loc rem e \<and>
    (\<forall>f. tcp_get f t' = (if f = d then Some q else tcp_get f t))"
proof -
  let ?t0 = "tcp_drained t" and ?p = "(tcp_pcb_empty (length (tcp_tasks t)))\<lparr>parent_desc := Some l\<rparr>"
  define t1 where "t1 = tcp_mod d (\<lambda>q. q\<lparr>parent_desc := Some l\<rparr>) (snd (tcp_pcb_alloc ?t0))"
  have eq: "t' = syn_received d seg loc rem t1"
    unfolding t' t1_def using lp sel d by (intro listen_syn_eq) simp_all
  have get: "tcp_get f t1 = (if f = d then Some ?p else tcp_get f t)" for f
    using tcp_alloc_get [of ?t0 d] d by (simp add: t1_def)
  have ip: "tcp_ip t1 = tcp_ip ?t0" using tcp_alloc_ip [of ?t0] by (simp add: t1_def)
  have loop1: "tcp_loop t1 a iface dev" using tcp_loop_extends [of ?t0 a iface dev t1] ip loop by simp
  have p: "tcp_get d t1 = Some ?p" "t_queue ?p = []" by (simp_all add: get tcp_pcb_empty_def)
  have "r = tcp_rand t1 0" using tcp_rand_ip [OF ip] r by simp
  from syn_received_loop [OF loop1 p addr this, of seg, folded eq] obtain e q where "tcp_pending t' = [e]"
    "holds_segment (if_dev iface) r (seg_seq seg + 1) (TCP_FLG_SYN OR TCP_FLG_ACK) 65535 [] loc rem e"
    "\<And>f. tcp_get f t' = (if f = d then Some q else tcp_get f t1)" "syn_received_end r (seg_seq seg + 1) l loc rem q"
    unfolding syn_received_end_def by (auto simp: ip tcp_pcb_empty_def)
  with get show ?thesis by (intro exI [of _ e] exI [of _ q]) simp
qed

lemma segment_arrives_ip: "ip_extends (tcp_ip s) (tcp_ip (segment_arrives seg flags data loc rem s))"
  by (cases rule: segment_arrives_slots [of seg data loc rem s flags]) (auto simp: lower_def tcp_alloc_ip)

lemma segment_arrives_loop:
  "tcp_loop t a iface dev \<Longrightarrow> tcp_loop (segment_arrives seg flags data loc rem (tcp_drained t)) a iface dev"
  using tcp_loop_extends [OF _ segment_arrives_ip, of "tcp_drained t" a iface dev] by simp

lemma only_match_cong:
  assumes "only_match loc rem c t"
    and "\<And>f r. tcp_get f t' = Some r \<Longrightarrow> f \<noteq> c \<Longrightarrow> t_state r \<noteq> Listen \<Longrightarrow> tcp_match loc rem r \<Longrightarrow>
      \<exists>r'. tcp_get f t = Some r' \<and> t_state r' \<noteq> Listen \<and> tcp_match loc rem r'"
  shows "only_match loc rem c t'"
  using assms unfolding only_match_def by blast

lemma no_wrap_succ:
  fixes x :: u32
  assumes "x \<noteq> - 1"
  shows "x < x + 1" and "unat (x + 1) = Suc (unat x)"
proof -
  have "1 + x \<noteq> 0" using assms by (metis add_eq_0_iff)
  then show "unat (x + 1) = Suc (unat x)" using unatSuc [of x] by (simp add: add.commute)
  then show "x < x + 1" by (simp add: word_less_nat_alt)
qed

text \<open>The second and the third segment: both ends are established and at rest.\<close>

lemma handshake_links:
  assumes loop: "tcp_loop t a iface dev" and addr: "addr loc = a" "addr rem = a"
    and p: "tcp_get c t = Some p" "syn_sent_end r loc rem p" "only_match loc rem c t"
    and q: "tcp_get d t = Some q" "syn_received_end r' (r + 1) l rem loc q" "only_match rem loc d t"
    and lp: "tcp_get l t = Some lp" "t_state lp = Listen"
    and rnd: "unat r + 65536 < 2 ^ 32" "r' \<noteq> - 1"
    and t1: "t1 = segment_arrives (sent_seg r' (r + 1) (TCP_FLG_SYN OR TCP_FLG_ACK) 65535 [])
      (TCP_FLG_SYN OR TCP_FLG_ACK) [] loc rem (tcp_drained t)"
    and t2: "t2 = segment_arrives (sent_seg (r + 1) (r' + 1) TCP_FLG_ACK 65535 []) TCP_FLG_ACK [] rem loc (tcp_drained t1)"
  shows "(\<exists>e. tcp_pending t1 = [e] \<and> holds_segment (if_dev iface) (r + 1) (r' + 1) TCP_FLG_ACK 65535 [] loc rem e) \<and>
    tcp_pending t2 = [] \<and> tcp_linked t2 a c d \<and> tcp_get l t2 = Some (lp\<lparr>t_backlog := t_backlog lp @ [d]\<rparr>) \<and>
    (\<exists>q. tcp_get d t2 = Some q \<and> t_remote q = loc)"
proof -
  have ne: "c \<noteq> d" "l \<noteq> c" "l \<noteq> d" using p(1, 2) q(1, 2) lp by (auto simp: syn_sent_end_def syn_received_end_def)
  have r: "r \<noteq> - 1"
  proof
    assume "r = - 1"
    moreover have "- 1 = (4294967295 :: u32)" by simp
    ultimately have "r = 4294967295" by (rule trans)
    with rnd(1) show False by simp
  qed
  note r1 = no_wrap_succ [OF r] and r'1 = no_wrap_succ [OF rnd(2)]
  have sel: "tcp_pcb_select loc rem (tcp_drained t) = Some c"
    using select_only [OF p(1) _ _ _ p(3)] p(2) by (simp add: syn_sent_end_def)
  from syn_ack_loop [OF _ _ _ sel, of a iface dev p r "sent_seg r' (r + 1) (TCP_FLG_SYN OR TCP_FLG_ACK) 65535 []", folded t1]
  obtain e p1 where e: "tcp_pending t1 = [e]" "holds_segment (if_dev iface) (r + 1) (r' + 1) TCP_FLG_ACK 65535 [] loc rem e"
    and get1: "\<And>f. tcp_get f t1 = (if f = c then Some p1 else tcp_get f t)"
    and p1: "t_state p1 = Established" "t_local p1 = loc" "t_remote p1 = rem" "snd_una p1 = r + 1" "snd_nxt p1 = r + 1"
      "rcv_nxt p1 = r' + 1" "rcv_wnd p1 = 65535" "t_queue p1 = []" "snd_wnd p1 = 65535" "snd_wl1 p1 = r'" "snd_wl2 p1 = r + 1"
    using loop p(1, 2) addr r1(1) by (auto simp: syn_sent_end_def cong: if_cong)
  have only1: "only_match rem loc d t1"
    by (rule only_match_cong [OF q(3)]) (use get1 p(1, 2) p1 in \<open>auto simp: syn_sent_end_def tcp_match_def split: if_splits\<close>)
  have q1: "tcp_get d t1 = Some q" "tcp_get l t1 = Some lp" using get1 q(1) lp(1) ne by auto
  have qf: "t_state q = SynReceived" "t_local q = rem" "t_remote q = loc" "snd_una q = r'" "snd_nxt q = r' + 1"
    "rcv_nxt q = r + 1" "rcv_wnd q = 65535" "parent_desc q = Some l" "snd_wl1 q = 0" "drop_acked (r' + 1) (t_queue q) = []"
    using q(2) by (simp_all add: syn_received_end_def)
  have sel1: "tcp_pcb_select rem loc (tcp_drained t1) = Some d"
    using select_only [OF q1(1) qf(2, 3) _ only1] qf(1) by simp
  have pos: "0 < r + 1" using r1(2) by (simp add: word_less_nat_alt)
  note acked = child_ack_loop [OF _ qf(1, 8) _ ne(3) sel1 qf(4, 5) r'1(1) qf(10),
      where seg = "sent_seg (r + 1) (r' + 1) TCP_FLG_ACK 65535 []" and lp = lp, folded t2]
  have ack: "tcp_get f t2 = (if f = d then Some (q\<lparr>t_state := Established, snd_una := r' + 1, t_queue := [],
        snd_wnd := 65535, snd_wl1 := r + 1, snd_wl2 := r' + 1\<rparr>)
      else if f = l then Some (lp\<lparr>t_backlog := t_backlog lp @ [d]\<rparr>) else tcp_get f t1)"
    for f using acked(1) [where e = f] pos q1 qf rnd(1) r1(2) by simp
  have "tcp_pending t2 = []" using acked(2) pos q1 qf rnd(1) r1(2) by simp
  have "only_match loc rem c t2"
    by (rule only_match_cong [OF p(3)]) (use ack get1 q(1) qf ne lp in \<open>auto simp: tcp_match_def split: if_splits\<close>)
  moreover have "only_match rem loc d t2"
    by (rule only_match_cong [OF only1]) (use ack q1 lp in \<open>auto split: if_splits\<close>)
  ultimately have "tcp_linked t2 a c d"
    using ack ne get1 p1 qf addr r'1(1) unfolding tcp_linked_def end_ok_def mirrors_def by (auto simp: less_imp_le)
  with e ack \<open>tcp_pending t2 = []\<close> ne qf(3) show ?thesis by auto
qed

text \<open>
  \<open>connect\<close> to a listening socket of the same host, with three passes of the software interrupt
  handler. The initial sequence numbers are the first and the third random number: the second is
  the identification of the packet with the SYN.
\<close>

lemma handshake_over_loopback:
  assumes wf: "tcp_wf (tcp_view s)" and loop: "tcp_loop (tcp_view s) a iface dev" and empty: "input_queue (st_link s) = []"
    and p: "tcp_get c (tcp_view s) = Some p" "t_queue p = []" "addr (t_local p) = ip_any" "t_state p = Closed"
    and lp: "tcp_get l (tcp_view s) = Some lp" "t_state lp = Listen" "t_mode lp = Socket" "endp_none (t_remote lp)"
      "length (t_backlog lp) < backlog_max lp"
    and loc: "choose_local (t_local p) rem (tcp_view s) = Ok loc" "addr rem = a"
      "tcp_pcb_select rem loc (tcp_view s) = Some l"
    and d: "fst (tcp_pcb_alloc (tcp_view s)) = Some d"
    and rnd: "unat (tcp_rand (tcp_view s) 0) + 65536 < 2 ^ 32" "tcp_rand (tcp_view s) 2 \<noteq> - 1"
  shows "\<exists>s1 s2 s3 s4. on_tcp (connect_start c rem) s = (Ok (), s1) \<and>
    softirq_step s1 = Some s2 \<and> softirq_step s2 = Some s3 \<and> softirq_step s3 = Some s4 \<and>
    input_queue (st_link s4) = [] \<and> tcp_loop (tcp_view s4) a iface dev \<and> tcp_linked (tcp_view s4) a c d \<and>
    tcp_get l (tcp_view s4) = Some (lp\<lparr>t_backlog := t_backlog lp @ [d]\<rparr>) \<and>
    (\<exists>q. tcp_get d (tcp_view s4) = Some q \<and> t_remote q = loc)"
proof -
  let ?t = "tcp_view s" and ?SA = "TCP_FLG_SYN OR TCP_FLG_ACK" and ?i = "if_dev iface"
  define r r' where "r = tcp_rand ?t 0" and "r' = tcp_rand ?t 2"
  note endp = connect_endpoints [OF loop p(3) lp(1, 2, 4) loc]
  obtain t1 e q where t1: "connect_start c rem ?t = (Ok (), t1)" "lower ?t t1" "tcp_pending t1 = [e]"
    "holds_segment ?i r (rcv_nxt p) TCP_FLG_SYN 65535 [] loc rem e" "r' = tcp_rand t1 0"
    "tcp_pcb_select rem loc t1 = Some l" "fst (tcp_pcb_alloc t1) = Some d" "c \<noteq> l" "c \<noteq> d" "l \<noteq> d"
    "syn_sent_end r loc rem q" and get1: "\<And>f. tcp_get f t1 = (if f = c then Some q else tcp_get f ?t)"
    using connect_sends_syn [OF wf loop _ p lp(1, 2, 4) loc d r_def] empty unfolding r'_def by auto
  have loop1: "tcp_loop t1 a iface dev" using t1(2) by (intro tcp_loop_extends [OF loop]) (simp add: lower_def)
  define t2 where "t2 = segment_arrives (sent_seg r (rcv_nxt p) TCP_FLG_SYN 65535 []) TCP_FLG_SYN [] rem loc (tcp_drained t1)"
  have lp1: "tcp_get l t1 = Some lp" using get1 [of l] t1(8) lp(1) by simp
  obtain e2 q2 where t2: "tcp_pending t2 = [e2]" "syn_received_end r' (r + 1) l rem loc q2"
    "holds_segment ?i r' (r + 1) ?SA 65535 [] rem loc e2" "\<And>f. tcp_get f t2 = (if f = d then Some q2 else tcp_get f t1)"
    using listener_opens_child [OF loop1 lp1 lp(2, 3, 5) t1(6, 7) loc(2) endp(1) t1(5) t2_def] by auto
  note get2 = t2(4) get1
  have loop2: "tcp_loop t2 a iface dev" unfolding t2_def by (rule segment_arrives_loop [OF loop1])
  have only: "only_match loc rem c t2" "only_match rem loc d t2"
    using endp(2, 3) listener_selected(2) [OF loc(3) lp(1, 2)] t1(11) t2(2)
    by (auto simp: only_match_def get2 syn_sent_end_def syn_received_end_def tcp_match_def tcp_select_None split: if_splits)
  define t3 where "t3 = segment_arrives (sent_seg r' (r + 1) ?SA 65535 []) ?SA [] loc rem (tcp_drained t2)"
  define t4 where "t4 = segment_arrives (sent_seg (r + 1) (r' + 1) TCP_FLG_ACK 65535 []) TCP_FLG_ACK [] rem loc (tcp_drained t3)"
  have g: "tcp_get c t2 = Some q" "tcp_get d t2 = Some q2" "tcp_get l t2 = Some lp" using get2 t1(8-10) lp(1) by simp_all
  obtain e3 where t3: "tcp_pending t3 = [e3]" "holds_segment ?i (r + 1) (r' + 1) TCP_FLG_ACK 65535 [] loc rem e3"
    and t4: "tcp_pending t4 = []" "tcp_linked t4 a c d" "tcp_get l t4 = Some (lp\<lparr>t_backlog := t_backlog lp @ [d]\<rparr>)"
    "\<exists>q. tcp_get d t4 = Some q \<and> t_remote q = loc"
    using handshake_links [OF loop2 endp(1) loc(2) g(1) t1(11) only(1) g(2) t2(2) only(2) g(3) lp(2) _ _ t3_def t4_def]
      rnd unfolding r_def r'_def by blast
  have loop3: "tcp_loop t3 a iface dev" unfolding t3_def by (rule segment_arrives_loop [OF loop2])
  have loop4: "tcp_loop t4 a iface dev" unfolding t4_def by (rule segment_arrives_loop [OF loop3])
  have "softirq_step (tcp_store t1 s) = Some (tcp_store t2 s)"
    using softirq_segment [of "tcp_store t1 s", OF _ endp(1) loc(2) _ t1(4)] loop1 t1(3) by (simp add: t2_def)
  moreover have "softirq_step (tcp_store t2 s) = Some (tcp_store t3 s)"
    using softirq_segment [of "tcp_store t2 s", OF _ loc(2) endp(1) _ t2(3)] loop2 t2(1) by (simp add: t3_def)
  moreover have "softirq_step (tcp_store t3 s) = Some (tcp_store t4 s)"
    using softirq_segment [of "tcp_store t3 s", OF _ endp(1) loc(2) _ t3(2)] loop3 t3(1) by (simp add: t4_def)
  moreover have "on_tcp (connect_start c rem) s = (Ok (), tcp_store t1 s)" using t1(1) by (simp add: on_tcp_def)
  ultimately show ?thesis
    using t4 loop4 by (intro exI [of _ "tcp_store t1 s"] exI [of _ "tcp_store t2 s"] exI [of _ "tcp_store t3 s"]
        exI [of _ "tcp_store t4 s"]) simp
qed

section \<open>Transfer\<close>

lemma ack_acceptable:
  assumes "seg_seq seg = rcv_nxt p" and "seg_len seg = 0" and "unat (rcv_nxt p) + unat (rcv_wnd p) < 2 ^ 32"
  shows "seg_acceptable p seg"
  using assms by (auto simp: seg_acceptable_rfc rfc_acceptable_def in_window_def unat_gt_0)

text \<open>In-order text at the receiving end: one acknowledgment goes back.\<close>

lemma text_loop:
  assumes loop: "tcp_loop t a iface dev" and q: "tcp_get d t = Some q" "t_state q = Established"
    and sel: "tcp_pcb_select loc rem t = Some d"
    and addr: "t_local q = loc" "t_remote q = rem" "addr loc = a" "addr rem = a"
    and seg: "plain_ack flags" "seg_seq seg = rcv_nxt q" "seg_ack seg = snd_nxt q" "snd_una q = snd_nxt q"
    and data: "data \<noteq> []" "length data \<le> unat (rcv_wnd q)"
    and wrap: "unat (rcv_nxt q) + unat (rcv_wnd q) < 2 ^ 32"
    and t': "t' = segment_arrives seg flags data loc rem t"
  shows "tcp_get f t' = (if f = d then Some (q\<lparr>t_buf := t_buf q @ data, rcv_nxt := rcv_nxt q + of_nat (length data),
      rcv_wnd := rcv_wnd q - of_nat (length data)\<rparr>) else tcp_get f t)"
    and "\<exists>e. tcp_pending t' = tcp_pending t @ [e] \<and> holds_segment (if_dev iface) (snd_nxt q)
      (rcv_nxt q + of_nat (length data)) TCP_FLG_ACK (rcv_wnd q - of_nat (length data)) [] loc rem e"
proof -
  have "seg_acceptable q seg" using wrap seg(2) data by (intro in_order_acceptable) auto
  then have check: "seg_check d q seg flags t = Next () t" using seg(1) by (simp add: seg_check_def plain_ack_def)
  have upd: "ack_update d q seg t = Next () t" using seg by (simp add: ack_update_def)
  let ?q = "q\<lparr>t_buf := t_buf q @ data, rcv_nxt := rcv_nxt q + of_nat (length data),
      rcv_wnd := rcv_wnd q - of_nat (length data)\<rparr>"
  let ?t1 = "tcp_mod d (\<lambda>p. p\<lparr>t_buf := t_buf p @ data, rcv_nxt := seg_seq seg + of_nat (length data),
      rcv_wnd := rcv_wnd p - of_nat (length data)\<rparr>) t"
  have tx: "seg_text d q seg data t = Next () (tcp_notify d (snd (tcp_output d TCP_FLG_ACK [] ?t1)))"
    using data seg(2) q(2) by (simp add: seg_text_def Let_def)
  have eq: "t' = tcp_notify d (snd (tcp_output d TCP_FLG_ACK [] ?t1))"
    unfolding t' using sel q seg(1) check upd tx
    by (simp add: segment_sections plain_ack_def)
  show "tcp_get f t' = (if f = d then Some ?q else tcp_get f t)"
    by (simp add: eq q seg(2) queued_control)
  have "tcp_loop ?t1 a iface dev" by (rule tcp_loop_extends [OF loop]) simp
  then show "\<exists>e. tcp_pending t' = tcp_pending t @ [e] \<and> holds_segment (if_dev iface) (snd_nxt q)
      (rcv_nxt q + of_nat (length data)) TCP_FLG_ACK (rcv_wnd q - of_nat (length data)) [] loc rem e"
    using output_loop [of ?t1 a iface dev d ?q "[]" TCP_FLG_ACK] q addr seg(2) loop
    by (auto simp: eq output_seq_def tcp_loop_def)
qed

text \<open>An acknowledgment at the sending end, of some or all of what is under way.\<close>

lemma ack_part_loop:
  assumes p: "tcp_get c t = Some p" "t_state p = Established" and sel: "tcp_pcb_select loc rem t = Some c"
    and num: "snd_una p < seg_ack seg" "seg_ack seg \<le> snd_nxt p"
    and seg: "seg_seq seg = rcv_nxt p" "seg_len seg = 0" "snd_wl1 p \<le> rcv_nxt p" "snd_wl2 p \<le> seg_ack seg"
    and wrap: "unat (rcv_nxt p) + unat (rcv_wnd p) < 2 ^ 32"
    and t': "t' = segment_arrives seg TCP_FLG_ACK [] loc rem t"
  shows "tcp_get f t' = (if f = c then Some (p\<lparr>snd_una := seg_ack seg, t_queue := drop_acked (seg_ack seg) (t_queue p),
      snd_wnd := seg_wnd seg, snd_wl1 := rcv_nxt p, snd_wl2 := seg_ack seg\<rparr>) else tcp_get f t)"
    and "tcp_pending t' = tcp_pending t"
proof -
  have flags: "plain_ack TCP_FLG_ACK" by (simp add: plain_ack_def flag_isset_def tcp_flags)
  have check: "seg_check c p seg TCP_FLG_ACK t = Next () t"
    using ack_acceptable [OF seg(1, 2) wrap] flags by (simp add: seg_check_def plain_ack_def)
  let ?t1 = "tcp_mod c (\<lambda>p. p\<lparr>snd_wnd := seg_wnd seg, snd_wl1 := seg_seq seg, snd_wl2 := seg_ack seg\<rparr>)
    (retrans_queue_cleanup c (tcp_mod c (\<lambda>p. p\<lparr>snd_una := seg_ack seg\<rparr>) t))"
  have upd: "ack_update c p seg t = Next () ?t1"
    using num seg by (auto simp: ack_update_def Let_def)
  have eq: "t' = ?t1"
    unfolding t' using sel p check upd flags by (simp add: segment_sections plain_ack_def seg_text_def)
  show "tcp_get f t' = (if f = c then Some (p\<lparr>snd_una := seg_ack seg, t_queue := drop_acked (seg_ack seg) (t_queue p),
      snd_wnd := seg_wnd seg, snd_wl1 := rcv_nxt p, snd_wl2 := seg_ack seg\<rparr>) else tcp_get f t)"
    using p num by (simp add: eq seg)
  show "tcp_pending t' = tcp_pending t" by (simp add: eq)
qed

lemma ack_loop:
  assumes "tcp_get c t = Some p" "t_state p = Established" and "tcp_pcb_select loc rem t = Some c"
    and "snd_una p < snd_nxt p" "drop_acked (snd_nxt p) (t_queue p) = []"
    and "seg_ack seg = snd_nxt p" "seg_seq seg = rcv_nxt p" "seg_len seg = 0"
      "snd_wl1 p \<le> rcv_nxt p" "snd_wl2 p \<le> snd_nxt p"
    and "unat (rcv_nxt p) + unat (rcv_wnd p) < 2 ^ 32"
    and "t' = segment_arrives seg TCP_FLG_ACK [] loc rem t"
  shows "tcp_get f t' = (if f = c then Some (p\<lparr>snd_una := snd_nxt p, t_queue := [], snd_wnd := seg_wnd seg,
      snd_wl1 := rcv_nxt p, snd_wl2 := snd_nxt p\<rparr>) else tcp_get f t)"
    and "tcp_pending t' = tcp_pending t"
  using ack_part_loop [of c t p loc rem seg t'] assms by simp_all

text \<open>The entry of the retransmission queue for a segment with text.\<close>

definition sent_entry :: "duration \<Rightarrow> u32 \<Rightarrow> bytes \<Rightarrow> tcp_queue_entry" where
  "sent_entry t seq data = \<lparr>q_first = t, q_last = t, q_rto = TCP_DEFAULT_RTO, q_seq = seq,
     q_flg = TCP_FLG_ACK OR TCP_FLG_PSH, q_data = data\<rparr>"

lemma sent_entry_simps:
  "q_seq (sent_entry t seq data) = seq" "q_consume (sent_entry t seq data) = of_nat (length data)"
  "q_data (sent_entry t seq data) = data" "q_flg (sent_entry t seq data) = TCP_FLG_ACK OR TCP_FLG_PSH"
  "q_first (sent_entry t seq data) = t" "q_last (sent_entry t seq data) = t" "q_rto (sent_entry t seq data) = TCP_DEFAULT_RTO"
  using psh_control by (simp_all add: sent_entry_def q_consume_def takes_sequence_def)

text \<open>A \<open>send\<close> of one segment: the loop ends after its second pass.\<close>

lemma send_one_loop:
  assumes loop: "tcp_loop t a iface dev" and p: "tcp_get c t = Some p" "t_state p = Established"
    and addr: "addr (t_local p) = a" "addr (t_remote p) = a"
    and data: "data \<noteq> []" "length data \<le> unat (t_mss p)" "length data \<le> send_cap p"
      "40 + length data \<le> unat (dev_mtu dev)"
  shows "\<exists>t1 e. tcp_send (Suc (Suc k)) c data wakes t = Some (Ok (length data), t1) \<and> lower t t1 \<and>
    tcp_pending t1 = tcp_pending t @ [e] \<and> holds_segment (if_dev iface) (snd_nxt p) (rcv_nxt p)
      (TCP_FLG_ACK OR TCP_FLG_PSH) (rcv_wnd p) data (t_local p) (t_remote p) e \<and>
    (\<forall>f. tcp_get f t1 = (if f = c then Some (p\<lparr>t_queue := t_queue p @ [sent_entry (fst (tcp_now t)) (snd_nxt p) data],
        snd_nxt := snd_nxt p + of_nat (length data)\<rparr>)
      else tcp_get f t))"
proof -
  let ?AP = "TCP_FLG_ACK OR TCP_FLG_PSH" and ?n = "length data"
  let ?t0 = "snd (tcp_output c ?AP data t)"
  let ?t1 = "tcp_mod c (\<lambda>p. p\<lparr>snd_nxt := snd_nxt p + of_nat ?n\<rparr>) ?t0"
  let ?x = "sent_entry (fst (tcp_now t)) (snd_nxt p) data"
  have "0 < ?n" using data(1) by simp
  then have n: "min (min (unat (t_mss p)) ?n) (send_cap p) = ?n" "send_cap p \<noteq> 0" using data by linarith+
  have pass: "send_pass c data 0 t = (SendMore ?n, ?t1)"
    using p data(1) n by (simp add: send_pass_def Let_def slice_def)
  have q: "queued (fst (tcp_now t)) ?AP data p = p\<lparr>t_queue := t_queue p @ [?x]\<rparr>"
    using data(1) by (simp add: queued_def takes_sequence_def output_seq_def sent_entry_def)
  have get: "\<forall>f. tcp_get f ?t1 = (if f = c then Some (p\<lparr>t_queue := t_queue p @ [?x], snd_nxt := snd_nxt p + of_nat ?n\<rparr>)
      else tcp_get f t)"
    using p(1) q by simp
  then have "send_pass c data ?n ?t1 = (SendReturn (Ok ?n), ?t1)" using p(2) by (simp add: send_pass_def del: tcp_get_mod)
  with pass have send: "tcp_send (Suc (Suc k)) c data wakes t = Some (Ok ?n, ?t1)" by (simp add: tcp_send_def)
  from output_loop [OF loop p(1) addr data(4), of ?AP] obtain e where "tcp_pending ?t1 = tcp_pending t @ [e]"
    "holds_segment (if_dev iface) (snd_nxt p) (rcv_nxt p) ?AP (rcv_wnd p) data (t_local p) (t_remote p) e"
    by (auto simp: output_seq_def)
  with send get show ?thesis
    by (intro exI [of _ ?t1] exI [of _ e]) (simp add: lower_steps)
qed

text \<open>Both segments of a transfer: the text in one direction, its acknowledgment in the other.\<close>

lemma transfer_links:
  assumes loop: "tcp_loop t a iface dev" and c: "c \<noteq> d" "addr (t_local p) = a" "addr (t_local q) = a"
    and ends: "end_ok p" "end_ok q" "mirrors p q" "mirrors q p"
    and p: "tcp_get c t = Some (p\<lparr>t_queue := [x], snd_nxt := snd_nxt p + of_nat n\<rparr>)"
      "only_match (t_local p) (t_remote p) c t"
    and q: "tcp_get d t = Some q" "only_match (t_local q) (t_remote q) d t"
    and x: "q_seq x = snd_nxt p" "q_consume x = of_nat n" and n: "n = length data" "data \<noteq> []" "n \<le> unat (rcv_wnd q)"
    and wrap: "unat (rcv_nxt p) + unat (rcv_wnd p) < 2 ^ 32" "unat (rcv_nxt q) + unat (rcv_wnd q) < 2 ^ 32"
    and t1: "t1 = segment_arrives (sent_seg (snd_nxt p) (rcv_nxt p) (TCP_FLG_ACK OR TCP_FLG_PSH) (rcv_wnd p) data)
      (TCP_FLG_ACK OR TCP_FLG_PSH) data (t_local q) (t_remote q) (tcp_drained t)"
    and t2: "t2 = segment_arrives (sent_seg (snd_nxt q) (rcv_nxt q + of_nat n) TCP_FLG_ACK (rcv_wnd q - of_nat n) [])
      TCP_FLG_ACK [] (t_local p) (t_remote p) (tcp_drained t1)"
  shows "\<exists>e. tcp_pending t1 = [e] \<and> holds_segment (if_dev iface) (snd_nxt q) (rcv_nxt q + of_nat n) TCP_FLG_ACK
      (rcv_wnd q - of_nat n) [] (t_local q) (t_remote q) e"
    and "tcp_pending t2 = []" and "tcp_linked t2 a c d"
    and "tcp_get d t2 = Some (q\<lparr>t_buf := t_buf q @ data, rcv_nxt := rcv_nxt q + of_nat n, rcv_wnd := rcv_wnd q - of_nat n\<rparr>)"
proof -
  let ?AP = "TCP_FLG_ACK OR TCP_FLG_PSH" and ?p = "p\<lparr>t_queue := [x], snd_nxt := snd_nxt p + of_nat n\<rparr>"
  let ?q = "q\<lparr>t_buf := t_buf q @ data, rcv_nxt := rcv_nxt q + of_nat n, rcv_wnd := rcv_wnd q - of_nat n\<rparr>"
  note e = ends(1, 2) [unfolded end_ok_def] and m = ends(3, 4) [unfolded mirrors_def]
  have plain: "plain_ack ?AP" by (simp add: plain_ack_def flag_isset_def tcp_flags)
  have sel: "tcp_pcb_select (t_local q) (t_remote q) (tcp_drained t) = Some d"
    using select_only [OF q(1) _ _ _ q(2)] e by simp
  note tl = text_loop [of "tcp_drained t" a iface dev d q, OF _ _ _ sel refl refl c(3) _ plain _ _ _ n(2) n(3) [unfolded n(1)] wrap(2) t1]
  show "\<exists>e. tcp_pending t1 = [e] \<and> holds_segment (if_dev iface) (snd_nxt q) (rcv_nxt q + of_nat n) TCP_FLG_ACK
      (rcv_wnd q - of_nat n) [] (t_local q) (t_remote q) e"
    using tl(2) loop q(1) e m c(2) n(1) by simp
  have get1: "tcp_get f t1 = (if f = d then Some ?q else tcp_get f t)" for f
    using tl(1) [of f] loop q(1) e m c(2) n(1) by simp
  have p1: "tcp_get c t1 = Some ?p" using get1 c(1) p(1) by simp
  have only1: "only_match (t_local p) (t_remote p) c t1"
    by (rule only_match_cong [OF p(2)]) (use get1 q(1) in \<open>auto simp: tcp_match_def split: if_splits\<close>)
  have sel1: "tcp_pcb_select (t_local p) (t_remote p) (tcp_drained t1) = Some c"
    using select_only [OF p1 _ _ _ only1] e by simp
  have grow: "unat (snd_nxt p + of_nat n) = unat (snd_nxt p) + n"
    using wrap(2) n(3) m unat_u16_less [of "rcv_wnd q"] by (simp add: unat_word_ariths unat_of_nat_u32)
  moreover have "0 < n" using n by simp
  ultimately have less: "snd_nxt p < snd_nxt p + of_nat n" by (simp add: word_less_nat_alt)
  have "snd_wl2 p \<le> snd_nxt p + of_nat n" using e(1) less by auto
  then have pre: "snd_una ?p < snd_nxt ?p" "drop_acked (snd_nxt ?p) (t_queue ?p) = []"
    "snd_wl1 ?p \<le> rcv_nxt ?p" "snd_wl2 ?p \<le> snd_nxt ?p"
    using e(1) x less by simp_all
  note al = ack_loop [OF _ _ sel1 pre(1, 2) _ _ _ pre(3, 4) _ t2]
  have get2: "tcp_get f t2 = (if f = c then Some (?p\<lparr>snd_una := snd_nxt p + of_nat n, t_queue := [],
      snd_wnd := rcv_wnd q - of_nat n, snd_wl1 := rcv_nxt p, snd_wl2 := snd_nxt p + of_nat n\<rparr>)
      else tcp_get f t1)" for f
    by (subst al(1)) (use p1 e m wrap(1) in simp_all)
  show "tcp_pending t2 = []" using al(2) p1 e m wrap(1) by simp
  have "only_match (t_local p) (t_remote p) c t2"
    by (rule only_match_cong [OF only1]) (use get2 in auto)
  moreover have "only_match (t_local q) (t_remote q) d t2"
    by (rule only_match_cong [OF q(2)]) (use get2 get1 p(1) e in \<open>auto simp: tcp_match_def split: if_splits\<close>)
  moreover have "snd_wl1 q \<le> rcv_nxt q + of_nat n" using e(2) m less by auto
  ultimately show "tcp_linked t2 a c d"
    using get2 get1 c e m unfolding tcp_linked_def end_ok_def mirrors_def by auto
  show "tcp_get d t2 = Some ?q" using get2 get1 c(1) by simp
qed

text \<open>
  A segment with text that waits for the other end: two passes of the software interrupt handler carry
  it and its acknowledgment, and the connection is at rest again.
\<close>

lemma text_delivered:
  assumes loop: "tcp_loop (tcp_view s) a iface dev" and e: "input_queue (st_link s) = [e]"
      "holds_segment (if_dev iface) (snd_nxt p) (rcv_nxt p) (TCP_FLG_ACK OR TCP_FLG_PSH) (rcv_wnd p) data (t_local p) (t_remote p) e"
    and c: "c \<noteq> d" "addr (t_local p) = a" "addr (t_local q) = a"
    and ends: "end_ok p" "end_ok q" "mirrors p q" "mirrors q p"
    and p: "tcp_get c (tcp_view s) = Some (p\<lparr>t_queue := [x], snd_nxt := snd_nxt p + of_nat (length data)\<rparr>)"
      "only_match (t_local p) (t_remote p) c (tcp_view s)"
    and q: "tcp_get d (tcp_view s) = Some q" "only_match (t_local q) (t_remote q) d (tcp_view s)"
    and x: "q_seq x = snd_nxt p" "q_consume x = of_nat (length data)" and n: "data \<noteq> []" "length data \<le> unat (rcv_wnd q)"
    and wrap: "unat (rcv_nxt p) + unat (rcv_wnd p) < 2 ^ 32" "unat (rcv_nxt q) + unat (rcv_wnd q) < 2 ^ 32"
  shows "\<exists>s2 s3 q'. softirq_step s = Some s2 \<and> softirq_step s2 = Some s3 \<and>
    input_queue (st_link s3) = [] \<and> tcp_loop (tcp_view s3) a iface dev \<and> tcp_linked (tcp_view s3) a c d \<and>
    tcp_get d (tcp_view s3) = Some q' \<and> t_buf q' = t_buf q @ data \<and>
    rcv_wnd q' = rcv_wnd q - of_nat (length data)"
proof -
  let ?t = "tcp_view s" and ?AP = "TCP_FLG_ACK OR TCP_FLG_PSH" and ?i = "if_dev iface" and ?n = "length data"
  let ?N = "of_nat ?n :: u32"
  note mir = ends(3, 4) [unfolded mirrors_def]
  have addr: "addr (t_remote p) = a" "addr (t_remote q) = a" using mir c(2, 3) by simp_all
  define t2 where "t2 = segment_arrives (sent_seg (snd_nxt p) (rcv_nxt p) ?AP (rcv_wnd p) data) ?AP data
    (t_local q) (t_remote q) (tcp_drained ?t)"
  define t3 where "t3 = segment_arrives (sent_seg (snd_nxt q) (rcv_nxt q + ?N) TCP_FLG_ACK (rcv_wnd q - of_nat ?n) [])
    TCP_FLG_ACK [] (t_local p) (t_remote p) (tcp_drained t2)"
  note tr = transfer_links [OF loop c ends p q x refl n wrap t2_def t3_def]
  then obtain e2 where e2: "tcp_pending t2 = [e2]" "holds_segment ?i (snd_nxt q) (rcv_nxt q + ?N) TCP_FLG_ACK
      (rcv_wnd q - of_nat ?n) [] (t_local q) (t_remote q) e2" by blast
  have loop2: "tcp_loop t2 a iface dev" unfolding t2_def by (rule segment_arrives_loop [OF loop])
  have loop3: "tcp_loop t3 a iface dev" unfolding t3_def by (rule segment_arrives_loop [OF loop2])
  have "softirq_step s = Some (tcp_store t2 s)"
    using softirq_segment [OF loop c(2) addr(1) e] mir by (simp add: t2_def)
  moreover have "softirq_step (tcp_store t2 s) = Some (tcp_store t3 s)"
    using softirq_segment [of "tcp_store t2 s", OF _ c(3) addr(2) _ e2(2)] loop2 e2(1) mir by (simp add: t3_def)
  ultimately show ?thesis
    using tr(2-4) loop3 by (intro exI [of _ "tcp_store t2 s"] exI [of _ "tcp_store t3 s"]) simp
qed

text \<open>A \<open>send\<close> of one segment on a connection at rest.\<close>

lemma linked_send:
  assumes loop: "tcp_loop t a iface dev" and empty: "tcp_pending t = []" and linked: "tcp_linked t a c d"
    and p: "tcp_get c t = Some p"
    and data: "data \<noteq> []" "length data \<le> unat (t_mss p)" "length data \<le> unat (snd_wnd p)"
      "40 + length data \<le> unat (dev_mtu dev)"
  shows "\<exists>t1 e x. tcp_send (Suc (Suc k)) c data wakes t = Some (Ok (length data), t1) \<and> lower t t1 \<and>
    tcp_loop t1 a iface dev \<and> tcp_pending t1 = [e] \<and>
    holds_segment (if_dev iface) (snd_nxt p) (rcv_nxt p) (TCP_FLG_ACK OR TCP_FLG_PSH) (rcv_wnd p) data (t_local p) (t_remote p) e \<and>
    x = sent_entry (fst (tcp_now t)) (snd_nxt p) data \<and>
    (\<forall>f. tcp_get f t1 = (if f = c then Some (p\<lparr>t_queue := [x], snd_nxt := snd_nxt p + of_nat (length data)\<rparr>)
      else tcp_get f t)) \<and>
    (\<forall>loc rem f. only_match loc rem f t \<longrightarrow> only_match loc rem f t1)"
proof -
  have ends: "end_ok p" "addr (t_local p) = a" "addr (t_remote p) = a"
    using linked p by (auto simp: tcp_linked_def mirrors_def)
  then have cap: "length data \<le> send_cap p" and st: "t_state p = Established" and q: "t_queue p = []"
    using data(3) by (simp_all add: send_cap_def end_ok_def)
  obtain t1 e where send: "tcp_send (Suc (Suc k)) c data wakes t = Some (Ok (length data), t1)" "lower t t1"
    "tcp_pending t1 = [e]" "holds_segment (if_dev iface) (snd_nxt p) (rcv_nxt p) (TCP_FLG_ACK OR TCP_FLG_PSH) (rcv_wnd p)
      data (t_local p) (t_remote p) e"
    and get1: "\<And>f. tcp_get f t1 = (if f = c then Some (p\<lparr>t_queue := [sent_entry (fst (tcp_now t)) (snd_nxt p) data],
      snd_nxt := snd_nxt p + of_nat (length data)\<rparr>) else tcp_get f t)"
    using send_one_loop [OF loop p st ends(2, 3) data(1, 2) cap data(4), of k wakes] empty q by auto
  have "tcp_loop t1 a iface dev" using send(2) by (intro tcp_loop_extends [OF loop]) (simp add: lower_def)
  moreover have "only_match loc rem f t \<Longrightarrow> only_match loc rem f t1" for loc rem f
    by (erule only_match_cong) (use get1 p in \<open>auto simp: tcp_match_def split: if_splits\<close>)
  ultimately show ?thesis using send get1 by blast
qed

text \<open>Reading opens the window of the reader, which keeps the ends at rest.\<close>

lemma receive_linked:
  assumes linked: "tcp_linked t a c d" and q: "tcp_get d t = Some q" "win_ok q" "t_buf q \<noteq> []"
  shows "fst (receive_pass d n t) = Return (Ok (take n (t_buf q)))"
    and "tcp_linked (snd (receive_pass d n t)) a c d"
    and "snd (receive_pass d n t) = tcp_mod d (\<lambda>q. q\<lparr>t_buf := drop n (t_buf q),
      rcv_wnd := rcv_wnd q + of_nat (min n (length (t_buf q)))\<rparr>) t"
proof -
  let ?m = "min n (length (t_buf q))"
  let ?q = "q\<lparr>t_buf := drop ?m (t_buf q), rcv_wnd := rcv_wnd q + of_nat ?m\<rparr>"
  obtain p where p: "tcp_get c t = Some p" "end_ok p" "end_ok q" "mirrors p q" "mirrors q p" "c \<noteq> d"
    "addr (t_local p) = a" "addr (t_local q) = a"
    "only_match (t_local p) (t_remote p) c t" "only_match (t_local q) (t_remote q) d t"
    using linked q(1) by (auto simp: tcp_linked_def)
  have can: "can_take q" using p(3) q(3) by (simp add: can_take_def end_ok_def)
  note buf = take_buf_ok [OF q(2) can refl, where buf_len = n]
  let ?t = "tcp_mod d (\<lambda>p. p\<lparr>t_buf := drop ?m (t_buf p), rcv_wnd := rcv_wnd p + of_nat ?m\<rparr>) t"
  have pass: "receive_pass d n t = (Return (Ok (take ?m (t_buf q))), ?t)"
    using buf(1) [where d = d and s = t] q(1, 3) p(3) by (simp add: receive_pass_def end_ok_def)
  then show "fst (receive_pass d n t) = Return (Ok (take n (t_buf q)))" by (simp add: min_def)
  show "snd (receive_pass d n t) = tcp_mod d (\<lambda>q. q\<lparr>t_buf := drop n (t_buf q),
      rcv_wnd := rcv_wnd q + of_nat (min n (length (t_buf q)))\<rparr>) t"
    unfolding pass snd_conv using q(1) by (simp add: tcp_mod_def min_def)
  have "only_match loc rem f ?t" if "only_match loc rem f t" for loc rem f
    by (rule only_match_cong [OF that]) (use q(1) in \<open>auto simp: tcp_match_def split: if_splits\<close>)
  moreover have "snd_wnd p \<le> rcv_wnd q + of_nat ?m"
    using p(4) buf(2) by (simp add: mirrors_def word_le_nat_alt)
  ultimately show "tcp_linked (snd (receive_pass d n t)) a c d"
    using p q(1) by (auto simp: pass tcp_linked_def mirrors_def end_ok_def)
qed

end
