(* ===== verification/Claims_Tcp.thy ===== *)
theory Claims_Tcp
  imports Example Loopback
begin

text \<open>
  The properties of TCP, each with an instance on the example machine. Facts that only combine
  lemmas of the component theories come first.
\<close>

section \<open>Auxiliary facts\<close>

lemma slot_rel_path: "slot_rel seg data loc rem d e p q \<Longrightarrow> rfc_path (t_state p) (t_state q)"
  by (auto simp: slot_rel_def bystander_rel_def answered_def conn_rel_def split: if_splits)

lemma slot_rel_buf:
  "slot_rel seg data loc rem d e p q \<Longrightarrow> t_buf q = t_buf p \<or>
     seg_seq seg = rcv_nxt p \<and> length data \<le> unat (rcv_wnd p) \<and> t_buf q = t_buf p @ data"
  by (auto simp: slot_rel_def bystander_rel_def answered_def conn_rel_def same_recv_def receives_def
      split: if_splits)

lemma child_free: "fst (tcp_pcb_alloc s) = Some c \<Longrightarrow> child_of d seg loc rem s q \<Longrightarrow>
    tcp_get c s = None \<and> t_state q = SynReceived"
  by (simp add: tcp_alloc_free child_of_def answered_def)

text \<open>After a connection request the new control block is the one its segments select.\<close>

lemma child_selected:
  assumes "tcp_pcb_select loc rem s = Some l" and "tcp_get l s = Some lp" and "t_state lp = Listen"
    and get: "\<And>e. tcp_get e s1 = (if e = c then Some q else tcp_get e s)"
    and q: "t_local q = loc" "t_remote q = rem" "t_state q \<noteq> Listen"
  shows "tcp_pcb_select loc rem s1 = Some c"
proof -
  have listeners: "t_state r = Listen" if "tcp_get e s = Some r" "tcp_match loc rem r" for e r
    using tcp_select_Some [OF assms(1)] assms(2, 3) that by auto
  have "tcp_match loc rem q" using q by (simp add: tcp_match_def)
  then obtain d where d: "tcp_pcb_select loc rem s1 = Some d"
    using get [of c] tcp_select_None [of loc rem s1] by (cases "tcp_pcb_select loc rem s1") auto
  from tcp_select_Some [OF this] obtain r where r: "tcp_get d s1 = Some r" "tcp_match loc rem r"
    and pref: "if t_state r = Listen
      then \<forall>e p. tcp_get e s1 = Some p \<longrightarrow> tcp_match loc rem p \<longrightarrow> t_state p = Listen \<and> e \<le> d
      else \<forall>e < d. \<forall>p. tcp_get e s1 = Some p \<longrightarrow> tcp_match loc rem p \<longrightarrow> t_state p = Listen" by blast
  have "t_state r \<noteq> Listen" 
  proof
    assume "t_state r = Listen"
    with pref have "\<forall>p. tcp_get c s1 = Some p \<longrightarrow> tcp_match loc rem p \<longrightarrow> t_state p = Listen" by simp
    with get [of c] \<open>tcp_match loc rem q\<close> q(3) show False by simp
  qed
  then have "d = c" using r listeners get [of d] by (auto split: if_splits)
  with d show ?thesis by simp
qed

lemma syn_received_iss:
  "tcp_get c s = Some p \<Longrightarrow> tcp_get c (syn_received c seg loc rem s) = Some q \<Longrightarrow>
     t_iss q = fst (tcp_random32 s)"
  by (auto simp: syn_received_def case_prod_beta Let_def tcp_random32_def)

lemma tcp_random32_ip: "tcp_ip s = tcp_ip s' \<Longrightarrow> fst (tcp_random32 s) = fst (tcp_random32 s')"
  by (simp add: tcp_random32_def case_prod_beta)

lemma listen_syn:
  assumes sel: "tcp_pcb_select loc rem s = Some l" and lp: "tcp_get l s = Some lp" "t_state lp = Listen"
      "t_mode lp = Socket" "length (t_backlog lp) < backlog_max lp"
    and c: "fst (tcp_pcb_alloc s) = Some c"
  shows "\<exists>q. child_of l seg loc rem s q \<and> t_iss q = fst (tcp_random32 s) \<and>
    (\<forall>e. tcp_get e (segment_arrives seg TCP_FLG_SYN data loc rem s) = (if e = c then Some q else tcp_get e s)) \<and>
    lower (snd (tcp_pcb_alloc s)) (segment_arrives seg TCP_FLG_SYN data loc rem s)"
proof -
  obtain s1 where alloc: "tcp_pcb_alloc s = (Some c, s1)" using c by (cases "tcp_pcb_alloc s") auto
  let ?s2 = "tcp_mod c (\<lambda>q. q\<lparr>parent_desc := Some l\<rparr>) s1"
  have s': "segment_arrives seg TCP_FLG_SYN data loc rem s = syn_received c seg loc rem ?s2"
    using listen_syn_eq [OF sel lp c] by (simp add: alloc)
  have get: "tcp_get e s1 = (if e = c then Some (tcp_pcb_empty (length (tcp_tasks s))) else tcp_get e s)" for e
    using tcp_alloc_get [OF c, of e] alloc by simp
  then have "tcp_get c ?s2 = Some ((tcp_pcb_empty (length (tcp_tasks s)))\<lparr>parent_desc := Some l\<rparr>)" by simp
  then obtain q where q: "tcp_get c (syn_received c seg loc rem ?s2) = Some q" "child_of l seg loc rem s q"
    using syn_received_slot [of c ?s2 _ seg loc rem] unfolding child_of_def by auto
  have "tcp_ip ?s2 = tcp_ip s" using tcp_alloc_ip [of s] by (simp add: alloc)
  with q(1) \<open>tcp_get c ?s2 = _\<close> have "t_iss q = fst (tcp_random32 s)"
    by (metis syn_received_iss tcp_random32_ip)
  moreover have "lower s1 (syn_received c seg loc rem ?s2)"
    using lower_trans [OF _ syn_received_lower [of ?s2 c seg loc rem], of s1] by simp
  ultimately show ?thesis
    using q get by (auto simp: s' alloc syn_received_other intro!: exI [of _ q])
qed

lemma ip_extends_route:
  "ip_extends s s' \<Longrightarrow> route_lookup a s' = route_lookup a s \<and> by_index (ip_link s') i = by_index (ip_link s) i"
  by (simp add: ip_extends_def link_extends_def route_lookup_def by_index_def)

section \<open>Table and state machine\<close>

text \<open>
  C1. In every state that any sequence of calls, arriving segments and timer interrupts reaches
  from the empty table, the table has at most 16 slots, every control block has a task of its own,
  and for every connection that is open the advertised window plus the buffered bytes is the size
  of the receive buffer, unless the control block is in \<open>D\<close>. \<open>D\<close> collects the control blocks on which
  \<open>listen\<close> or \<open>connect\<close> was called while unread text of an earlier connection was in the buffer
  (\<open>reopened\<close>); once freed, a control block can be taken out again. The code keeps that text and
  advertises a full window all the same.
\<close>

theorem tcp_table_invariant:
  "tcp_reach D s \<Longrightarrow> length (tcp_pcbs s) \<le> 16 \<and>
     (\<forall>d p. tcp_get d s = Some p \<longrightarrow> t_task p < length (tcp_tasks s) \<and>
        (d \<notin> D \<and> t_state p \<notin> {Closed, Listen} \<longrightarrow> unat (rcv_wnd p) + length (t_buf p) = 65535)) \<and>
     (\<forall>d e p q. tcp_get d s = Some p \<longrightarrow> tcp_get e s = Some q \<longrightarrow> d \<noteq> e \<longrightarrow> t_task p \<noteq> t_task q)"
  using tcp_reach_wf [of D s] by (auto simp: tcp_wf_on_def win_defs TCP_PCB_SIZE_MAX_def RECV_BUF_SIZE_def)

lemma ex_reach: "tcp_reach {} (tcp_apply (EListen 0 4) (tcp_apply (EBind 0 ex_local)
    (tcp_apply ESocket \<lparr>tcp_host = ex_host, tcp_pcbs = []\<rparr>)))"
proof -
  let ?s0 = "\<lparr>tcp_host = ex_host, tcp_pcbs = []\<rparr> :: tcp_state"
  let ?s = "tcp_apply (EBind 0 ex_local) (tcp_apply ESocket ?s0)"
  have step: "tcp_reach {} (tcp_apply e t)" if "tcp_reach {} t" "reopened e t = {}" for e t
    using tcp_reach.step [OF that(1), of e] that(2) by simp
  have "tcp_reach {} ?s" by (rule step, rule step, rule tcp_reach.start) simp_all
  moreover have "reopened (EListen 0 4) ?s = {}"
    by (simp add: leftover_def tcp_socket_def tcp_pcb_alloc_def TCP_PCB_SIZE_MAX_def host_new_task_def new_task_def
        tcp_bind_def tcp_get_def tcp_mod_def ex_pcbs tcp_pcb_select_def tcp_match_def endp_none_def)
  ultimately show ?thesis by (rule step)
qed

theorem tcp_table_invariant_witness:
  "length (tcp_pcbs (tcp_apply (EListen 0 4) (tcp_apply (EBind 0 ex_local)
     (tcp_apply ESocket \<lparr>tcp_host = ex_host, tcp_pcbs = []\<rparr>)))) \<le> 16"
  using tcp_table_invariant [OF ex_reach] by blast

text \<open>
  C2. A segment moves a connection along the arcs of the connection diagram of RFC 793 only (at
  most two at once), and a slot that was free can only hold a connection in SYN-RECEIVED.
\<close>

theorem tcp_state_machine:
  assumes "tcp_get e (segment_arrives seg flags data loc rem s) = Some q"
  shows "(\<exists>p. tcp_get e s = Some p \<and> rfc_path (t_state p) (t_state q)) \<or>
    (tcp_get e s = None \<and> t_state q = SynReceived)"
proof (cases rule: segment_arrives_slots [of seg data loc rem s flags])
  case (same d)
  with assms show ?thesis unfolding evolves_def by (blast intro: slot_rel_path)
next
  case (child d c r)
  with assms child_free [OF child(1, 2)] show ?thesis by (cases "e = c") (auto split: if_splits)
qed

definition ex_seg :: seg_info where
  "ex_seg = \<lparr>seg_seq = 501, seg_ack = 101, seg_len = 1, seg_wnd = 1000, seg_up = 0\<rparr>"

lemma ex_plain: "plain_ack TCP_FLG_ACK"
  by (simp add: plain_ack_def flag_isset_def tcp_flags)

lemma ex_text:
  "\<exists>q. tcp_get 0 (segment_arrives ex_seg TCP_FLG_ACK [3] ex_local ex_peer ex_tcp) = Some q \<and>
     t_state q = Established \<and> t_buf q = [1, 2, 3]"
  using in_order_text(1) [of 0 ex_tcp ex_established ex_local ex_peer TCP_FLG_ACK ex_seg "[3]"]
    ex_select(1) ex_plain
  by (auto simp: ex_tcp_get ex_seg_def ex_pcbs)

theorem tcp_state_machine_witness:
  "\<exists>q. tcp_get 0 (segment_arrives ex_seg TCP_FLG_ACK [3] ex_local ex_peer ex_tcp) = Some q \<and>
     (\<exists>p. tcp_get 0 ex_tcp = Some p \<and> rfc_path (t_state p) (t_state q))"
proof -
  obtain q where q: "tcp_get 0 (segment_arrives ex_seg TCP_FLG_ACK [3] ex_local ex_peer ex_tcp) = Some q"
    using ex_text by blast
  from tcp_state_machine [OF q] show ?thesis by (simp add: q ex_tcp_get)
qed

text \<open>
  C3. Whatever arrives, the receive buffer of a connection stays as it is, or it grows by exactly
  the text of a segment that starts at the next expected byte and fits the window.
\<close>

theorem tcp_buffer_in_order:
  assumes "tcp_get e s = Some p" and "tcp_get e (segment_arrives seg flags data loc rem s) = Some q"
  shows "t_buf q = t_buf p \<or>
    seg_seq seg = rcv_nxt p \<and> length data \<le> unat (rcv_wnd p) \<and> t_buf q = t_buf p @ data"
proof (cases rule: segment_arrives_slots [of seg data loc rem s flags])
  case (same d)
  then obtain p' where "tcp_get e s = Some p'" "slot_rel seg data loc rem d e p' q"
    using assms(2) unfolding evolves_def by blast
  with assms(1) show ?thesis by (auto dest: slot_rel_buf)
next
  case (child d c r)
  with assms child_free [OF child(1, 2)] show ?thesis by (cases "e = c") (auto split: if_splits)
qed

theorem tcp_buffer_in_order_witness:
  "\<exists>q. tcp_get 0 (segment_arrives ex_seg TCP_FLG_ACK [3] ex_local ex_peer ex_tcp) = Some q \<and>
     (t_buf q = t_buf ex_established \<or> seg_seq ex_seg = rcv_nxt ex_established \<and>
        length [3 :: u8] \<le> unat (rcv_wnd ex_established) \<and> t_buf q = t_buf ex_established @ [3])"
proof -
  obtain q where q: "tcp_get 0 (segment_arrives ex_seg TCP_FLG_ACK [3] ex_local ex_peer ex_tcp) = Some q"
    using ex_text by blast
  have p: "tcp_get 0 ex_tcp = Some ex_established" by (simp add: ex_tcp_get)
  from tcp_buffer_in_order [OF p q] q show ?thesis by blast
qed

section \<open>Transfer\<close>

text \<open>
  C4. The text of an in-order segment on an established connection reaches the application: a
  receiver that was waiting is woken, and the next receive returns the oldest bytes of the
  buffer with the text at its end. The window does not wrap around the sequence space.
\<close>

theorem tcp_text_delivered:
  assumes "tcp_wf s" and "tcp_get d s = Some p" and "t_state p = Established"
    and "tcp_pcb_select loc rem s = Some d"
    and "plain_ack flags" and "seg_ack seg \<le> snd_nxt p" and "seg_seq seg = rcv_nxt p"
    and "data \<noteq> []" and "length data \<le> unat (rcv_wnd p)"
    and "unat (rcv_nxt p) + unat (rcv_wnd p) < 2 ^ 32"
  shows "fst (receive_pass d n (segment_arrives seg flags data loc rem s)) =
      Return (Ok (take n (t_buf p @ data))) \<and>
    fst (task_wait_poll (task_snapshot (t_task p) (tcp_tasks s))
      (tcp_tasks (segment_arrives seg flags data loc rem s) ! t_task p)) \<noteq> None"
proof -
  let ?s' = "segment_arrives seg flags data loc rem s"
  note arrive = in_order_text [OF assms(2-4) assms(5-7) assms(8-10)]
  obtain q where q: "tcp_get d ?s' = Some q" "t_state q = Established" "t_buf q = t_buf p @ data"
    using arrive(1) by blast
  have take: "can_take q" using q assms(8) by (simp add: can_take_def)
  have "receive_pass d n ?s' = (Return (Ok (take (min n (length (t_buf q))) (t_buf q))),
      tcp_mod d (\<lambda>p. p\<lparr>t_buf := drop (min n (length (t_buf q))) (t_buf p),
        rcv_wnd := rcv_wnd p + of_nat (min n (length (t_buf q)))\<rparr>) ?s')"
    by (rule receive_takes [OF segment_arrives_wf [OF assms(1)] q(1) take refl])
  then have "fst (receive_pass d n ?s') = Return (Ok (take n (t_buf p @ data)))"
    using q(3) by (simp add: min_def)
  moreover have "t_task p < length (tcp_tasks s)" using tcp_wfD(3) [OF assms(1, 2)] .
  then have "fst (task_wait_poll (task_snapshot (t_task p) (tcp_tasks s)) (tcp_tasks ?s' ! t_task p)) \<noteq> None"
    by (simp add: arrive(2) task_notify_def task_snapshot_def task_wait_poll_def notify_def snapshot_def Let_def)
  ultimately show ?thesis by simp
qed

theorem tcp_text_delivered_witness:
  "fst (receive_pass 0 2 (segment_arrives ex_seg TCP_FLG_ACK [3] ex_local ex_peer ex_tcp)) =
     Return (Ok [1, 2])"
  using tcp_text_delivered [of ex_tcp 0 ex_established ex_local ex_peer TCP_FLG_ACK ex_seg "[3]" 2]
    ex_tcp_wf ex_select(1) ex_plain
  by (simp add: ex_tcp_get ex_seg_def ex_pcbs)

text \<open>
  C5. Passive open: a SYN for a listening socket with an empty backlog, answered by the peer
  with the acknowledgment of our SYN, gives an established connection, and \<open>accept\<close> returns it
  with the peer's endpoint. There is a free control block and a route to the peer, and the window does
  not wrap around the sequence space.
\<close>

theorem tcp_passive_open:
  assumes sel: "tcp_pcb_select loc rem s = Some l" and lp: "tcp_get l s = Some lp" "t_state lp = Listen"
      "t_mode lp = Socket" "t_backlog lp = []" "0 < backlog_max lp"
    and c: "fst (tcp_pcb_alloc s) = Some c"
    and iss: "iss = fst (tcp_random32 s)" "iss \<noteq> - 1"
    and ack: "seg_seq seg = seg_seq syn + 1" "seg_ack seg = iss + 1"
    and wrap: "unat (seg_seq syn + 1) + 65535 < 2 ^ 32"
    and route: "route_lookup (addr rem) (tcp_ip s) = Some route"
      "by_index (tcp_link s) (if_dev (rt_iface route)) = Some dev" "40 \<le> unat (dev_mtu dev)"
    and s2: "s2 = segment_arrives seg TCP_FLG_ACK [] loc rem (segment_arrives syn TCP_FLG_SYN data loc rem s)"
  shows "(\<exists>q. tcp_get c s2 = Some q \<and> t_state q = Established \<and> t_remote q = rem) \<and>
    fst (accept_pass l s2) = Return (Ok (c, rem))"
proof -
  let ?s1 = "segment_arrives syn TCP_FLG_SYN data loc rem s"
  obtain q where child: "child_of l syn loc rem s q" and q_iss: "t_iss q = iss"
    and get: "\<And>e. tcp_get e ?s1 = (if e = c then Some q else tcp_get e s)"
    using listen_syn [OF sel lp(1-3) _ c, of syn data] lp(4, 5) iss(1) by auto
  have rel: "t_state q = SynReceived" "t_local q = loc" "t_remote q = rem" "parent_desc q = Some l"
    "rcv_nxt q = seg_seq syn + 1" "rcv_wnd q = 65535" "snd_una q = iss" "snd_nxt q = iss + 1"
    using child q_iss by (simp_all add: child_of_def answered_def RECV_BUF_SIZE_def)
  have q: "tcp_get c ?s1 = Some q" using get [of c] by simp
  have "l \<noteq> c" using tcp_alloc_free [OF c] lp(1) by auto
  then have lp1: "tcp_get l ?s1 = Some lp" using get [of l] lp(1) by simp
  have sel1: "tcp_pcb_select loc rem ?s1 = Some c"
    by (rule child_selected [OF sel lp(1, 2) get]) (simp_all add: rel)
  have plain: "plain_ack TCP_FLG_ACK" by (simp add: plain_ack_def flag_isset_def tcp_flags)
  note done2 = handshake_completes [OF q rel(1, 4) lp1 \<open>l \<noteq> c\<close> sel1 plain, of seg,
      folded s2, unfolded rel ack, OF less_imp_le [OF no_wrap_succ(1) [OF iss(2)]] order_refl refl _]
  obtain q' where q': "tcp_get c s2 = Some q'" "t_state q' = Established" "t_remote q' = rem"
    using done2(1) wrap by auto
  have lp2: "tcp_get l s2 = Some (lp\<lparr>t_backlog := [c]\<rparr>)" using done2(2) wrap lp(4) by auto
  have ext: "ip_extends (tcp_ip s) (tcp_ip s2)"
    unfolding s2 by (rule ip_extends_trans [OF segment_arrives_ip segment_arrives_ip])
  have "\<exists>s'. accept_pass l s2 = (Return (Ok (c, t_remote q')), s')"
    using accept_takes [OF lp2, of "[]" c "[]" q' route dev] lp(2) q' ip_extends_route [OF ext] route by auto
  with q' show ?thesis by auto
qed

definition ex_syn :: seg_info where
  "ex_syn = \<lparr>seg_seq = 900, seg_ack = 0, seg_len = 1, seg_wnd = 1000, seg_up = 0\<rparr>"

definition ex_syn_ack :: seg_info where
  "ex_syn_ack = \<lparr>seg_seq = 901, seg_ack = 8, seg_len = 0, seg_wnd = 1000, seg_up = 0\<rparr>"

definition ex_peer2 :: ip_endp where "ex_peer2 = ip_endp_new (IpAddr 192 0 2 1) 40002"

lemma ex_route: "route_lookup (IpAddr 192 0 2 1) ex_ip = Some \<lparr>rt_network = IpAddr 192 0 2 0,
    rt_netmask = IpAddr 255 255 255 0, rt_nexthop = ip_any, rt_iface = ex_if\<rparr>"
  by (simp add: route_lookup_def ex_ip_def route_matches_def route_prefix_def)

lemma ex_random: "fst (tcp_random32 ex_tcp) = 7"
  by (simp add: tcp_random32_def ip_random32_def random32_def case_prod_beta Let_def ex_tcp_def ex_host_def ex_lower)

theorem tcp_passive_open_witness:
  "fst (accept_pass 1 (segment_arrives ex_syn_ack TCP_FLG_ACK [] ex_local ex_peer2
      (segment_arrives ex_syn TCP_FLG_SYN [] ex_local ex_peer2 ex_tcp))) = Return (Ok (4, ex_peer2))"
proof -
  have "by_index (tcp_link ex_tcp) 1 = Some ex_tap_dev" "tcp_ip ex_tcp = ex_ip"
    by (simp_all add: by_index_def ex_tcp_def ex_host_def ex_ip_def ex_arp_def ex_link_def)
  then show ?thesis
    using tcp_passive_open [of ex_local ex_peer2 ex_tcp 1 ex_listen 4 7 ex_syn_ack ex_syn _ ex_tap_dev _ "[]", OF _ _ _ _ _ _ ex_alloc ex_random [symmetric] _ _ _ _ _ _ _ refl]
      ex_select(3) ex_route
    by (simp add: ex_tcp_get ex_peer2_def ex_syn_def ex_syn_ack_def) (simp add: ex_pcbs ex_if_def ex_tap_dev_def device_new_def)
qed

text \<open>
  C6. A \<open>send\<close> whose data fits the free part of the peer's window returns without waiting: it
  reports all bytes, queues exactly them for retransmission, and advances \<open>snd.nxt\<close> by their number.
\<close>

theorem tcp_send_completes:
  assumes "tcp_get d s = Some p" and "t_state p \<in> {Established, CloseWait}" and "t_mss p \<noteq> 0"
    and "length data \<le> send_cap p"
  shows "\<exists>s' q. tcp_send (Suc (length data)) d data wakes s = Some (Ok (length data), s') \<and>
    tcp_get d s' = Some q \<and> snd_nxt q = snd_nxt p + of_nat (length data) \<and>
    queue_data q = queue_data p @ data"
  using send_loop_completes [of d s p 0 data "Suc (length data)" wakes] assms by (auto simp: tcp_send_def simp del: send_loop.simps)

theorem tcp_send_completes_witness:
  "\<exists>s' q. tcp_send 4 0 [7, 8, 9] [] ex_tcp = Some (Ok 3, s') \<and> tcp_get 0 s' = Some q \<and> snd_nxt q = 104"
proof -
  have n: "Suc (length [7 :: u8, 8, 9]) = 4" "length [7 :: u8, 8, 9] = 3" by simp_all
  have "length [7 :: u8, 8, 9] \<le> send_cap ex_established" by (simp add: ex_pcbs send_cap_def)
  then show ?thesis
    using tcp_send_completes [of 0 ex_tcp ex_established "[7, 8, 9]" "[]", unfolded n]
    by (auto simp: n ex_tcp_get) (auto simp: ex_pcbs)
qed

text \<open>
  C7. A pass of \<open>send\<close> that transmits keeps the unacknowledged bytes within the window the peer
  advertised and every segment within the maximum segment size, and sends the next bytes of the
  data in order.
\<close>

theorem tcp_send_within_window:
  assumes "tcp_get d s = Some p" and "t_state p \<in> {Established, CloseWait}"
    and "sent < length data" and "0 < send_cap p"
  shows "\<exists>n s' q. send_pass d data sent s = (SendMore (sent + n), s') \<and> tcp_get d s' = Some q \<and>
    n \<le> unat (t_mss p) \<and> in_flight q = in_flight p + n \<and> in_flight q \<le> unat (snd_wnd q) \<and>
    queue_data q = queue_data p @ slice sent (sent + n) data"
  using send_pass_more [OF assms refl] by (auto simp: sent_bytes_def)

theorem tcp_send_within_window_witness:
  "\<exists>n s' q. send_pass 0 [7, 8, 9] 1 ex_tcp = (SendMore (1 + n), s') \<and> tcp_get 0 s' = Some q \<and>
    in_flight q \<le> unat (snd_wnd q)"
  using tcp_send_within_window [of 0 ex_tcp ex_established 1 "[7, 8, 9]"]
  by (auto simp: ex_tcp_get ex_pcbs send_cap_def)

text \<open>
  \<open>receive\<close> on a connection with buffered bytes returns the oldest of them, removes exactly
  those from the buffer, and opens the window by their number; it never overflows.
\<close>

theorem tcp_receive_prefix:
  assumes "tcp_wf s" and "tcp_get d s = Some p" and "can_take p"
  shows "\<exists>s' q. receive_pass d n s = (Return (Ok (take n (t_buf p))), s') \<and> tcp_get d s' = Some q \<and>
    take n (t_buf p) @ t_buf q = t_buf p \<and>
    unat (rcv_wnd q) = unat (rcv_wnd p) + min n (length (t_buf p))"
  using receive_takes [OF assms refl, of n] take_buf_ok(2) [of p "min n (length (t_buf p))" n] assms
  by (auto simp: tcp_wf_def min_def)

theorem tcp_receive_prefix_witness:
  "\<exists>s' q. receive_pass 0 1 ex_tcp = (Return (Ok [1]), s') \<and> tcp_get 0 s' = Some q \<and> unat (rcv_wnd q) = 65534"
  using tcp_receive_prefix [of ex_tcp 0 ex_established 1] ex_tcp_wf
  by (auto simp: ex_tcp_get ex_pcbs can_take_def)

section \<open>Releasing and retransmitting\<close>

text \<open>
  C9. \<open>pcb_release\<close> terminates: it satisfies the recursion of the code, whatever the backlogs
  hold. Afterwards the slot is free and so are the slots of all queued connections, and no other
  slot has changed in any other way than being freed.
\<close>

theorem tcp_release_total:
  "tcp_pcb_release d s = release_body tcp_pcb_release d s \<and>
   tcp_get d (snd (tcp_pcb_release d s)) = None \<and>
   (\<forall>p b. tcp_get d s = Some p \<longrightarrow> b \<in> set (t_backlog p) \<longrightarrow> tcp_get b (snd (tcp_pcb_release d s)) = None) \<and>
   (\<forall>e. tcp_get e (snd (tcp_pcb_release d s)) = None \<or> tcp_get e (snd (tcp_pcb_release d s)) = tcp_get e s)"
  using release_unfold [of d s] release_shrinks [of s d] by (simp add: shrinks_def)

theorem tcp_release_total_witness:
  "tcp_get 4 (snd (tcp_pcb_release 3 (tcp_mod 3 (\<lambda>p. p\<lparr>t_backlog := [0, 4]\<rparr>) ex_tcp))) = None \<and>
   tcp_get 0 (snd (tcp_pcb_release 3 (tcp_mod 3 (\<lambda>p. p\<lparr>t_backlog := [0, 4]\<rparr>) ex_tcp))) = None"
  using tcp_release_total [of 3 "tcp_mod 3 (\<lambda>p. p\<lparr>t_backlog := [0, 4]\<rparr>) ex_tcp",
      THEN conjunct2, THEN conjunct2, THEN conjunct1]
  by (simp add: ex_tcp_get)

text \<open>
  C10. The timer and a connection: if one of its queued segments is older than the deadline, the
  connection is closed and its task notified; otherwise exactly the segments whose timeout has
  passed are sent again, in order, and only their timeouts are doubled.
\<close>

theorem tcp_retransmission:
  assumes "tcp_get d s = Some p" and "tcp_now s = (t, s1)"
  shows "retrans_emit d s =
    (if \<exists>e \<in> set (t_queue p). t \<ge> q_first e + TCP_RETRANS_DEADLINE
     then tcp_notify d (transition d Closed s1)
     else tcp_mod d (\<lambda>p. p\<lparr>t_queue := map (\<lambda>e. if q_last e + q_rto e \<le> t
              then e\<lparr>q_last := t, q_rto := q_rto e * 2\<rparr> else e) (t_queue p)\<rparr>)
            (fold (\<lambda>e s. snd (tcp_output_segment (q_seq e) (rcv_nxt p) (q_flg e) (rcv_wnd p) (q_data e)
                (t_local p) (t_remote p) s)) (filter (\<lambda>e. q_last e + q_rto e \<le> t) (t_queue p)) s1))"
  using retrans_emit_eq [OF assms]
  by (simp add: deadline_passed_def q_backoff_def [abs_def] q_due_def [abs_def] resend_def [abs_def])

definition ex_late :: tcp_state where
  "ex_late = \<lparr>tcp_host = ex_host\<lparr>host_ip := ip_with_os (ex_os\<lparr>clock := \<lambda>n. 13000000000\<rparr>) ex_ip\<rparr>,
     tcp_pcbs = [Some (ex_established\<lparr>t_queue := [\<lparr>q_first = 0, q_last = 0, q_rto = TCP_DEFAULT_RTO,
       q_seq = 101, q_flg = TCP_FLG_ACK, q_data = [1]\<rparr>]\<rparr>)]\<rparr>"

theorem tcp_retransmission_witness:
  "retrans_emit 0 ex_late = tcp_notify 0 (transition 0 Closed (snd (tcp_now ex_late)))"
proof -
  have "tcp_now ex_late = (13000000000, snd (tcp_now ex_late))"
    by (simp add: ex_late_def tcp_now_def ip_now_def arp_now_def now_def case_prod_beta Let_def ip_with_os_def ex_host_def)
  moreover have "tcp_get 0 ex_late = Some (ex_established\<lparr>t_queue := [\<lparr>q_first = 0, q_last = 0,
      q_rto = TCP_DEFAULT_RTO, q_seq = 101, q_flg = TCP_FLG_ACK, q_data = [1]\<rparr>]\<rparr>)"
    by (simp add: ex_late_def tcp_get_def slot_get_def)
  ultimately show ?thesis
    using tcp_retransmission [of 0 ex_late _ 13000000000 "snd (tcp_now ex_late)"]
    by (simp add: TCP_RETRANS_DEADLINE_def)
qed

section \<open>Selecting and decoding\<close>

text \<open>
  \<open>pcb_select\<close> returns nothing exactly when no control block matches. Otherwise it returns a
  matching one, and a listening one only if every matching one is listening.
\<close>

theorem tcp_select_spec:
  "case tcp_pcb_select loc rem s of
     None \<Rightarrow> \<forall>d p. tcp_get d s = Some p \<longrightarrow> \<not> tcp_match loc rem p
   | Some d \<Rightarrow> \<exists>p. tcp_get d s = Some p \<and> tcp_match loc rem p \<and>
       (t_state p = Listen \<longrightarrow> (\<forall>e q. tcp_get e s = Some q \<longrightarrow> tcp_match loc rem q \<longrightarrow> t_state q = Listen))"
proof (cases "tcp_pcb_select loc rem s")
  case None
  then have "\<forall>d p. tcp_get d s = Some p \<longrightarrow> \<not> tcp_match loc rem p" unfolding tcp_select_None .
  with None show ?thesis by simp
next
  case (Some d)
  from tcp_select_Some [OF Some] obtain p where "tcp_get d s = Some p" "tcp_match loc rem p"
    "t_state p = Listen \<longrightarrow> (\<forall>e q. tcp_get e s = Some q \<longrightarrow> tcp_match loc rem q \<longrightarrow> t_state q = Listen)"
    by (metis (no_types))
  with Some show ?thesis by simp
qed

theorem tcp_select_spec_witness: "\<exists>p. tcp_get 0 ex_tcp = Some p \<and> tcp_match ex_local ex_peer p"
  using tcp_select_spec [where loc = ex_local and rem = ex_peer and s = ex_tcp] by (auto simp: ex_select)

text \<open>
  C13. What one side sends is what the other side sees: a segment built by \<open>output_segment\<close> passes
  the checks of \<open>input\<close> on the receiving host, and \<open>segment_arrives\<close> gets its numbers, flags,
  window and text, with the endpoints exchanged.
\<close>

theorem tcp_segment_roundtrip:
  assumes "20 + length data \<le> 65535" and "ip_src hdr = addr loc" and "ip_dst hdr = addr rem"
    and "addr loc \<notin> {ip_broadcast, if_broadcast iface}" and "addr rem \<notin> {ip_broadcast, if_broadcast iface}"
  shows "tcp_input hdr (tcp_segment seq ack flg wnd data loc rem) iface s =
    segment_arrives \<lparr>seg_seq = seq, seg_ack = ack,
        seg_len = of_nat (length data) + (if flag_isset flg TCP_FLG_SYN then 1 else 0) +
          (if flag_isset flg TCP_FLG_FIN then 1 else 0),
        seg_wnd = wnd, seg_up = 0\<rparr> flg data rem loc s"
  using tcp_input_segment [OF assms] by (simp add: sent_seg_def)

theorem tcp_segment_roundtrip_witness:
  "tcp_input (ex_hdr IP_PROTOCOL_TCP (IpAddr 192 0 2 1) (IpAddr 192 0 2 2))
     (tcp_segment 501 101 TCP_FLG_ACK 1000 [3] ex_peer ex_local) ex_if ex_tcp =
   segment_arrives ex_seg TCP_FLG_ACK [3] ex_local ex_peer ex_tcp"
  using tcp_segment_roundtrip [of "[3]" "ex_hdr IP_PROTOCOL_TCP (IpAddr 192 0 2 1) (IpAddr 192 0 2 2)"
      ex_peer ex_local ex_if 501 101 TCP_FLG_ACK 1000 ex_tcp]
  by (simp add: ex_pcbs ex_if_def ip_broadcast_def ex_seg_def flag_isset_def tcp_flags)

text \<open>
  C14. Where RFC 793's acceptance test is free of wrap-around, the test of the code is exactly it:
  the segment has a byte in the receive window (or starts at the next byte when both its length
  and the window are zero).
\<close>

theorem tcp_acceptance_rfc:
  assumes "unat (rcv_nxt p) + unat (rcv_wnd p) < 2 ^ 32"
  shows "seg_acceptable p seg \<longleftrightarrow> rfc_acceptable (rcv_nxt p) (rcv_wnd p) (seg_seq seg) (seg_len seg)"
  using assms by (rule seg_acceptable_rfc)

theorem tcp_acceptance_rfc_witness:
  "seg_acceptable ex_established ex_seg \<longleftrightarrow> rfc_acceptable 501 65533 501 1"
  using tcp_acceptance_rfc [of ex_established ex_seg] by (simp add: ex_pcbs ex_seg_def)

text \<open>
  Where the receive window wraps around the sequence space, the test rejects every segment,
  even the one the connection waits for: it compares sequence numbers as plain integers.
\<close>

theorem tcp_acceptance_wraps:
  assumes "2 ^ 32 \<le> unat (rcv_nxt p) + unat (rcv_wnd p)"
  shows "\<not> seg_acceptable p seg"
  using assms by (rule seg_acceptable_wrap)

theorem tcp_acceptance_wraps_witness:
  "\<not> seg_acceptable (ex_established\<lparr>rcv_nxt := 4294967000\<rparr>) (ex_seg\<lparr>seg_seq := 4294967000\<rparr>)"
  by (rule tcp_acceptance_wraps) (simp add: ex_pcbs)

text \<open>
  A TCP segment with a valid checksum whose header length field is below 20 or beyond the
  segment panics the receiver, whatever the state of the connection table.
\<close>

theorem tcp_bad_offset_panics:
  assumes "20 \<le> length data" and "tcp_hlen data < 20 \<or> length data < tcp_hlen data"
    and "cksum16 data (cksum_init (build_pseudo_header IP_PROTOCOL_TCP (ip_src hdr) (ip_dst hdr)
           (of_nat (length data)))) = 0"
    and "ip_src hdr \<notin> {ip_broadcast, if_broadcast iface}" and "ip_dst hdr \<notin> {ip_broadcast, if_broadcast iface}"
  shows "tcp_input hdr data iface s = tcp_panic s"
  using assms by (simp add: tcp_input_def Let_def TCP_HDR_SIZE_def tcp_print_err_iff)

theorem tcp_bad_offset_panics_witness:
  "tcp_input (ex_hdr IP_PROTOCOL_TCP (IpAddr 192 0 2 1) (IpAddr 192 0 2 2))
     [0, 0, 0, 0, 0, 0, 0, 0, 0, 0, 0, 0, 0, 0, 0, 0, 0x7b, 0xe1, 0, 0] ex_if ex_tcp = tcp_panic ex_tcp"
proof -
  let ?data = "[0, 0, 0, 0, 0, 0, 0, 0, 0, 0, 0, 0, 0, 0, 0, 0, 0x7b, 0xe1, 0, 0] :: bytes"
  have "build_pseudo_header IP_PROTOCOL_TCP (IpAddr 192 0 2 1) (IpAddr 192 0 2 2) 20 =
      [192, 0, 2, 1, 192, 0, 2, 2, 0, 6, 0, 20]"
    by (simp add: build_pseudo_header_def copy_at_def IP_PROTOCOL_TCP_def u16_to_be_def)
  moreover have "cksum16 [192, 0, 2, 1, 192, 0, 2, 2, 0, 6, 0, 20] 0 = 0xe17b"
    by (simp add: cksum16_def u16_from_ne_def cksum_fold.simps)
  ultimately have "cksum16 ?data (cksum_init (build_pseudo_header IP_PROTOCOL_TCP (IpAddr 192 0 2 1)
      (IpAddr 192 0 2 2) (of_nat (length ?data)))) = 0"
    by (simp add: cksum_init_def cksum16_def u16_from_ne_def cksum_fold.simps)
  moreover have "tcp_hlen ?data = 0" by (simp add: tcp_hlen_def tcp_off_def nth_append)
  ultimately show ?thesis
    using tcp_bad_offset_panics [of ?data "ex_hdr IP_PROTOCOL_TCP (IpAddr 192 0 2 1) (IpAddr 192 0 2 2)" ex_if ex_tcp]
    by (simp add: ex_if_def ip_broadcast_def)
qed

text \<open>
  A socket that was bound to a port cannot connect: the check for an endpoint in use finds
  the socket itself, so \<open>connect\<close> fails and changes nothing.
\<close>

theorem tcp_bound_connect_fails:
  assumes "tcp_get d s = Some p" and "port (t_local p) \<noteq> 0" and "endp_none (t_remote p)"
  shows "tcp_connect d rem wakes s = Some (Err, s)"
  using connect_bound_fails [OF assms, of rem] by (simp add: tcp_connect_def)

theorem tcp_bound_connect_fails_witness: "tcp_connect 3 ex_peer [] ex_tcp = Some (Err, ex_tcp)"
  using tcp_bound_connect_fails [of 3 ex_tcp ex_bound ex_peer "[]"]
  by (simp add: ex_tcp_get) (simp add: ex_pcbs endp_none_def)

text \<open>
  \<open>connect\<close> keeps what is in the receive buffer although it opens a full window: text that an
  earlier connection of the socket left unread is the beginning of what the new one delivers.
\<close>

theorem tcp_connect_keeps_text:
  assumes "tcp_get d s = Some p" and "connect_start d rem s = (Ok (), s')"
  shows "\<exists>q. tcp_get d s' = Some q \<and> t_state q = SynSent \<and> t_buf q = t_buf p \<and> unat (rcv_wnd q) = RECV_BUF_SIZE"
proof -
  obtain loc where syn: "send_syn d loc rem s = (Ok (), s')"
    using assms by (auto simp: connect_start_def split: result.splits)
  let ?s1 = "tcp_mod d (\<lambda>p. p\<lparr>t_local := loc, t_remote := rem, rcv_wnd := of_nat RECV_BUF_SIZE\<rparr>) s"
  obtain r s2 where r: "tcp_random32 ?s1 = (r, s2)" by (cases "tcp_random32 ?s1")
  let ?s3 = "tcp_mod d (\<lambda>p. p\<lparr>t_iss := r\<rparr>) s2"
  obtain x s4 where x: "tcp_output d TCP_FLG_SYN [] ?s3 = (x, s4)" by (cases "tcp_output d TCP_FLG_SYN [] ?s3")
  have "tcp_get d s2 = tcp_get d ?s1" using tcp_get_random32 [of d ?s1] by (simp add: r)
  moreover have "tcp_get d s4 = map_option (queued (fst (tcp_now ?s3)) TCP_FLG_SYN []) (tcp_get d ?s3)"
    using tcp_get_output [of d d TCP_FLG_SYN "[]" ?s3] by (simp add: x)
  moreover have "s' = transition d SynSent (tcp_mod d (\<lambda>p. p\<lparr>snd_una := t_iss p, snd_nxt := t_iss p + 1\<rparr>) s4)"
    using syn by (simp add: send_syn_def r x split: result.splits)
  ultimately show ?thesis using assms(1) by (simp add: RECV_BUF_SIZE_def)
qed

text \<open>
  With a full window and text in the buffer, the first \<open>receive\<close> overflows the window and panics.
\<close>

theorem tcp_leftover_receive_panics:
  assumes "tcp_get d s = Some p" and "can_take p" and "unat (rcv_wnd p) = RECV_BUF_SIZE" and "0 < n" and "n < 65536"
  shows "receive_pass d n s = (Return Err, tcp_panic s)"
proof -
  let ?k = "min n (length (t_buf p))"
  have "0 < ?k" "?k < 65536" using assms(2, 4, 5) by (auto simp: can_take_def)
  then have "unat (rcv_wnd p) + unat (of_nat ?k :: u16) > 65535"
    using assms(3) by (simp add: unat_of_nat_u16 RECV_BUF_SIZE_def)
  then show ?thesis using assms(1, 2) by (auto simp: receive_pass_def can_take_def take_buf_def Let_def)
qed

text \<open>
  An acknowledgment without text on an established connection notifies no task, also when it
  opens the send window: a thread that waits in \<open>send\<close> for the window is not woken by it.
\<close>

theorem tcp_ack_wakes_nobody:
  assumes "tcp_get d s = Some p" and "t_state p = Established" and "tcp_pcb_select loc rem s = Some d"
    and "plain_ack flags" and "seg_ack seg \<le> snd_nxt p" and "t < length (tcp_tasks s)"
    and "\<not> interrupted (tcp_tasks s ! t)"
  shows "fst (task_wait_poll (task_snapshot t (tcp_tasks s))
    (tcp_tasks (segment_arrives seg flags [] loc rem s) ! t)) = None"
  using window_update_silent [OF assms(1-5)] assms(6, 7)
  by (simp add: task_wait_poll_def task_snapshot_def snapshot_def)

theorem tcp_ack_wakes_nobody_witness:
  "fst (task_wait_poll (task_snapshot 0 (tcp_tasks ex_tcp))
    (tcp_tasks (segment_arrives ex_seg TCP_FLG_ACK [] ex_local ex_peer ex_tcp) ! 0)) = None"
  using tcp_ack_wakes_nobody [of 0 ex_tcp ex_established ex_local ex_peer TCP_FLG_ACK ex_seg 0] ex_select(1) ex_plain
  by (simp add: ex_tcp_get ex_seg_def ex_pcbs) (simp add: ex_tcp_def ex_host_def task_init_def)

end
