(* ===== verification/Sock_Props.thy ===== *)
theory Sock_Props
  imports Sock Stack_Props
begin

text \<open>
  The critical sections of UDP and TCP on the whole stack: what they leave of the layers below, and
  that each of them keeps the invariant of the stack; the ways \<open>open\<close> can go; what a call that blocks
  keeps and returns, given its passes and what the other threads do while it waits.
\<close>

section \<open>The calls of UDP and TCP on the layers below\<close>

lemma set_mss_lower: "lower t u \<Longrightarrow> lower t (snd (set_mss d u))"
  by (simp add: set_mss_def split: option.splits)

lemma send_syn_lower: "lower t (snd (send_syn d loc rem t))"
  using send_syn_evolves by blast

lemma tcp_calls_lower:
  "lower t (snd (tcp_close d t))" "lower t (snd (tcp_bind d loc t))" "lower t (snd (tcp_listen d n t))"
  "lower t (snd (connect_start d rem t))" "lower t (snd (connect_pass d t))"
  "lower t (snd (send_pass d data sent t))" "lower t (snd (receive_pass d n t))" "lower t (snd (accept_pass d t))"
proof -
  show "lower t (snd (tcp_close d t))"
    by (simp add: tcp_close_def send_fin_def split: option.splits tcp_st.splits)
  show "lower t (snd (tcp_bind d loc t))" "lower t (snd (tcp_listen d n t))" "lower t (snd (connect_pass d t))"
    by (simp_all add: tcp_bind_def tcp_listen_def connect_pass_def split: option.splits)
  show "lower t (snd (connect_start d rem t))"
    by (simp add: connect_start_def send_syn_lower split: option.splits result.splits)
  show "lower t (snd (send_pass d data sent t))"
    by (simp add: send_pass_def Let_def split: option.splits)
  show "lower t (snd (receive_pass d n t))"
    by (simp add: receive_pass_def take_buf_def Let_def split: option.splits)
  show "lower t (snd (accept_pass d t))"
    by (rule accept_pass_preserves) (simp_all add: set_mss_lower)
qed

lemma tcp_socket_below: "tcp_below t (snd (tcp_socket t))"
proof (cases "fst (tcp_pcb_alloc t)")
  case None
  then show ?thesis
    using tcp_alloc_None [OF None] by (auto simp: tcp_socket_def tcp_below_def split: prod.splits option.splits)
next
  case (Some d)
  then show ?thesis
    by (intro alloc_below) (auto simp: tcp_socket_def split: prod.splits option.splits)
qed

definition udp_below :: "udp_state \<Rightarrow> udp_state \<Rightarrow> bool" where
  "udp_below u u' \<longleftrightarrow> ip_extends (host_ip (udp_host u)) (host_ip (udp_host u')) \<and>
     length (host_tasks (udp_host u)) \<le> length (host_tasks (udp_host u'))"

lemma udp_open_below: "udp_below u (snd (udp_open u))"
  by (simp add: udp_open_def udp_below_def udp_pcb_alloc_def case_prod_beta Let_def split: option.splits)

lemma udp_output_below:
  "ip_extends (host_ip h) (host_ip (snd (udp_output src dst data h)))"
  "host_tasks (snd (udp_output src dst data h)) = host_tasks h"
  by (simp_all add: udp_output_def ip_output_ip host_ip_output_def case_prod_beta Let_def
      split: result.splits prod.splits)

lemma udp_calls_below:
  "udp_below u (snd (udp_close d u))" "udp_below u (snd (udp_bind d loc u))"
  "udp_below u (snd (recvfrom_pass d n u))" "udp_below u (snd (udp_sendto d data remote u))"
proof -
  show "udp_below u (snd (udp_close d u))" "udp_below u (snd (udp_bind d loc u))"
    "udp_below u (snd (recvfrom_pass d n u))"
    by (simp_all add: udp_below_def udp_close_def udp_pcb_release_def udp_bind_def recvfrom_pass_def
        udp_pcb_put_def Let_def host_notify_def split: option.splits list.splits)
  have assign: "udp_below u (snd (udp_assign_dynamic_port d a u))" for a
    by (simp add: udp_below_def udp_assign_dynamic_port_def udp_pcb_put_def host_panic_extends Let_def
        split: option.splits)
  have out: "udp_below u u1 \<Longrightarrow> udp_below u (u1\<lparr>udp_host := snd (udp_output src dst data (udp_host u1))\<rparr>)" for u1 src dst
    using udp_output_below [where h = "udp_host u1" and src = src and dst = dst and data = data] by (auto simp: udp_below_def intro: ip_extends_trans)
  have refl: "udp_below u u" by (simp add: udp_below_def)
  show "udp_below u (snd (udp_sendto d data remote u))"
    using assign out refl
    by (simp add: udp_sendto_def case_prod_beta Let_def split: option.splits result.splits)
qed

lemma tcp_open_below: "tcp_below t (snd (open_start loc rem active t))"
proof (cases "fst (tcp_pcb_alloc t)")
  case None
  then show ?thesis
    using tcp_alloc_None [OF None] by (auto simp: open_start_def tcp_below_def split: prod.splits)
next
  case (Some d)
  let ?t = "snd (tcp_pcb_alloc t)"
  have syn: "lower ?t (snd (tcp_pcb_release d (snd (send_syn d l rem ?t))))" for l
    by (rule lower_trans [OF send_syn_lower [of ?t d l rem]]) simp
  show ?thesis
    using Some syn send_syn_lower
    by (intro alloc_below) (simp add: open_start_def case_prod_beta split: prod.splits option.splits result.splits)
qed

text \<open>Every event of TCP and of UDP, on the layers below.\<close>

lemma tcp_apply_below: "tcp_below t (tcp_apply e t)"
  by (cases e) (simp_all add: tcp_open_below tcp_socket_below tcp_input_below tcp_on_timer_below lower_below
      tcp_calls_lower set_mss_lower open_pass_def open_interrupted_def split: option.splits)

lemma udp_apply_below: "udp_below u (udp_apply e u)"
  by (cases e) (simp_all add: udp_open_below udp_calls_below, simp add: udp_below_def udp_input_ip udp_input_arena)

section \<open>The invariant across an event\<close>

lemma tcp_event_wf:
  assumes "stack_wf_on D s"
  shows "stack_wf_on (D \<union> reopened e (tcp_view s)) (tcp_store (tcp_apply e (tcp_view s)) s)"
proof -
  let ?E = "D \<union> reopened e (tcp_view s)"
  have wf: "tcp_wf_on D (tcp_view s)" using assms by (simp add: stack_wf_on_def)
  have "stack_wf_on ?E s" using assms tcp_wf_on_mono [OF wf, of ?E] by (simp add: stack_wf_on_def)
  from stack_wf_tcp [OF this tcp_apply_wf [OF wf]] tcp_apply_below [of "tcp_view s" e]
  show ?thesis by (simp add: tcp_below_def)
qed

lemma stack_udp_event_wf:
  assumes "stack_wf_on D s"
  shows "stack_wf_on D (udp_store (udp_apply e (udp_view s)) s)"
proof -
  have "udp_wf (udp_view s)" using assms by (simp add: stack_wf_on_def)
  from stack_wf_udp [OF assms udp_event_wf [OF this]] udp_apply_below [of "udp_view s" e]
  show ?thesis by (simp add: udp_below_def)
qed

text \<open>Socket descriptors are not part of the invariant.\<close>

lemma stack_wf_socks [simp]: "stack_wf_on D (s\<lparr>st_socks := x\<rparr>) \<longleftrightarrow> stack_wf_on D s"
  by (simp add: stack_wf_on_def udp_view_def tcp_view_def)

text \<open>The ways \<open>open\<close> can go.\<close>

lemma sock_open_cases:
  obtains (refused) "sock_open family ty s = (Err, s)"
    | (tcp_full) s1 where "on_tcp tcp_socket s = (Err, s1)" "sock_open family ty s = (Err, s1)"
    | (udp_full) s1 where "on_udp udp_open s = (None, s1)" "sock_open family ty s = (Err, s1)"
    | (stream) d s1 where "ty = SOCK_STREAM" "on_tcp tcp_socket s = (Ok d, s1)"
        "sock_open family ty s =
          map_prod Ok id (sock_alloc \<lparr>so_family = AF_INET, so_ty = SOCK_STREAM, so_desc = d\<rparr> s1)"
    | (dgram) d s1 where "ty = SOCK_DGRAM" "on_udp udp_open s = (Some d, s1)"
        "sock_open family ty s =
          map_prod Ok id (sock_alloc \<lparr>so_family = AF_INET, so_ty = SOCK_DGRAM, so_desc = d\<rparr> s1)"
proof (cases "family = AF_INET \<and> ty \<in> {SOCK_STREAM, SOCK_DGRAM}")
  case False
  then have "sock_open family ty s = (Err, s)" by (auto simp: sock_open_def)
  then show ?thesis by (rule refused)
next
  case True
  obtain x t where tcp: "on_tcp tcp_socket s = (x, t)" by (cases "on_tcp tcp_socket s")
  obtain y u where udp: "on_udp udp_open s = (y, u)" by (cases "on_udp udp_open s")
  consider "ty = SOCK_STREAM" | "ty = SOCK_DGRAM" "ty \<noteq> SOCK_STREAM" using True by blast
  then show ?thesis
  proof cases
    case 1
    with True tcp tcp_full stream show ?thesis
      by (cases x) (simp_all add: sock_open_def case_prod_beta prod_eq_iff)
  next
    case 2
    with True udp udp_full dgram show ?thesis
      by (cases y) (simp_all add: sock_open_def case_prod_beta prod_eq_iff)
  qed
qed

text \<open>A blocking call keeps what its passes and the other threads keep.\<close>

lemma blocking_preserves:
  assumes "blocking body on_intr wakes s = Some (r, s')" and "P s" and "\<forall>w \<in> set wakes. P (snd w)"
    and body: "\<And>s. P s \<Longrightarrow> P (snd (body s))" and intr: "\<And>s. P s \<Longrightarrow> P (snd (on_intr s))"
  shows "P s'"
  using assms(1-3)
proof (induction wakes arbitrary: s)
  case Nil
  then show ?case using body [OF Nil(2)] by (auto simp: blocking.simps [of _ _ _ s] split: prod.splits pass.splits)
next
  case (Cons w ws)
  obtain v s'' where w: "w = (v, s'')" by (cases w)
  show ?case
  proof (cases "body s")
    case (Pair x s1)
    show ?thesis
    proof (cases x)
      case (Return r')
      with Pair Cons(2) body [OF Cons(3)] show ?thesis by (simp add: blocking_returns)
    next
      case (WaitOn t snap)
      with Pair w Cons(2) have "(if v = Notified then blocking body on_intr ws s'' else Some (on_intr s'')) = Some (r, s')"
        by (simp add: blocking_wait)
      with Cons(1) [of s''] Cons(4) w intr [of s''] show ?thesis by (auto split: if_splits)
    qed
  qed
qed

text \<open>What holds of the result of every pass and of an interrupted wait holds of the result of the call.\<close>

lemma blocking_result:
  assumes "blocking body on_intr wakes s = Some (r, s')"
    and "\<And>s x s'. body s = (Return x, s') \<Longrightarrow> Q x s'" and "\<And>s. Q (fst (on_intr s)) (snd (on_intr s))"
  shows "Q r s'"
  using assms(1)
proof (induction wakes arbitrary: s)
  case Nil
  then show ?case using assms(2) by (auto simp: blocking.simps [of _ _ _ s] split: prod.splits pass.splits)
next
  case (Cons w ws)
  then show ?case
    using assms(2) assms(3) [of "snd w"]
    by (auto simp: blocking.simps [of _ _ _ s] split: prod.splits pass.splits wait_result.splits)
qed

lemma set_mss_keeps: "tcp_get e (snd (set_mss d t)) = None \<longleftrightarrow> tcp_get e t = None"
  by (auto simp: set_mss_def split: option.splits)

lemma accept_pass_child:
  "accept_pass l t = (Return (Ok (d, rem)), t') \<Longrightarrow> tcp_get d t' \<noteq> None"
proof (induction l t rule: accept_pass.induct)
  case (1 l t)
  obtain p b ds where p: "tcp_get l t = Some p" "t_state p = Listen" "t_backlog p = b # ds"
    using "1.prems" by (auto simp: accept_pass.simps [of l t] split: option.splits if_splits list.splits)
  let ?t = "tcp_mod l (\<lambda>p. p\<lparr>t_backlog := ds\<rparr>) t"
  show ?case
  proof (cases "tcp_get b ?t")
    case None
    then show ?thesis using "1.IH" [OF p(1) _ p(3) refl None] "1.prems" p by (simp add: accept_pass.simps [of l t])
  next
    case (Some q)
    then have "d = b" "t' = snd (set_mss b ?t)"
      using "1.prems" p by (auto simp: accept_pass.simps [of l t] Let_def split: prod.splits result.splits)
    then show ?thesis using Some set_mss_keeps [of b b ?t] by simp
  qed
qed

lemma accept_returns_child:
  "on_tcp (accept_pass l) s = (Return (Ok (d, rem)), s') \<Longrightarrow> tcp_get d (tcp_view s') \<noteq> None"
  by (auto simp: on_tcp_def split: prod.splits dest: accept_pass_child)

lemma send_loop_preserves:
  assumes "send_loop body fuel wakes sent s = Some (r, s')" and "P s" and "\<forall>w \<in> set wakes. P (snd w)"
    and "\<And>n s. P s \<Longrightarrow> P (snd (body n s))"
  shows "P s'"
  using assms
proof (induction body fuel wakes sent s rule: send_loop.induct)
  case (2 body fuel wakes sent s)
  note step = 2(6) [OF 2(4), of sent]
  show ?case
  proof (cases "body sent s")
    case (Pair x s1)
    with step have "P s1" by simp
    with 2 Pair show ?thesis
      by (auto split: send_result.splits list.splits wait_result.splits)
  qed
qed simp

end
