(* ===== verification/Errors.thy ===== *)
theory Errors
  imports Sock_Props
begin

text \<open>
  Error paths: what a call that fails leaves behind. A failed \<open>open\<close> (\<^verbatim>\<open>tcp.rs\<close>, \<^verbatim>\<open>sock.rs\<close>), \<open>bind\<close> or
  \<open>listen\<close> leaves the tables as they were; a failed \<open>connect\<close> leaves the endpoints in the control
  block, which makes every later \<open>connect\<close> to the same peer fail.
\<close>

section \<open>TCP\<close>

text \<open>A control block without a backlog is released by freeing its slot.\<close>

lemma release_fresh:
  assumes "tcp_get d t = Some p" and "t_backlog p = []"
  shows "tcp_get e (snd (tcp_pcb_release d t)) = (if e = d then None else tcp_get e t)"
  using assms by (simp add: release_unfold release_body_def)

lemma send_syn_get:
  assumes "tcp_get d t = Some p" and "send_syn d loc rem t = (r, t')"
  obtains q where "tcp_get d t' = Some q" "t_backlog q = t_backlog p" "t_local q = loc" "t_remote q = rem"
    "\<And>e. e \<noteq> d \<Longrightarrow> tcp_get e t' = tcp_get e t"
proof -
  let ?t1 = "tcp_mod d (\<lambda>p. p\<lparr>t_local := loc, t_remote := rem, rcv_wnd := of_nat RECV_BUF_SIZE\<rparr>) t"
  let ?t3 = "tcp_mod d (\<lambda>p. p\<lparr>t_iss := fst (tcp_random32 ?t1)\<rparr>) (snd (tcp_random32 ?t1))"
  obtain x t4 where out: "tcp_output d TCP_FLG_SYN [] ?t3 = (x, t4)" by fastforce
  let ?q = "queued (fst (tcp_now ?t3)) TCP_FLG_SYN [] (p\<lparr>t_local := loc, t_remote := rem,
      rcv_wnd := of_nat RECV_BUF_SIZE, t_iss := fst (tcp_random32 ?t1)\<rparr>)"
  have get: "tcp_get e t4 = (if e = d then Some ?q else tcp_get e t)" for e
    using tcp_get_output [of e d TCP_FLG_SYN "[]" ?t3] assms(1) unfolding out snd_conv by simp
  have "\<exists>q. tcp_get d t' = Some q \<and> t_backlog q = t_backlog p \<and> t_local q = loc \<and> t_remote q = rem \<and>
      (\<forall>e. e \<noteq> d \<longrightarrow> tcp_get e t' = tcp_get e t)"
    using assms out by (cases x) (auto simp: send_syn_def case_prod_beta Let_def get)
  then show ?thesis using that by blast
qed

lemma open_start_fails:
  assumes "open_start loc rem active t = (Err, t')"
  shows "tcp_get e t' = tcp_get e t"
proof (cases "tcp_pcb_alloc t")
  case (Pair r t1)
  show ?thesis
  proof (cases r)
    case None
    with Pair assms tcp_alloc_None [of t] show ?thesis by (simp add: open_start_def)
  next
    case (Some d)
    with Pair have d: "fst (tcp_pcb_alloc t) = Some d" by simp
    have get: "tcp_get f t1 = (if f = d then Some (tcp_pcb_empty (length (tcp_tasks t))) else tcp_get f t)" for f
      using tcp_alloc_get [OF d, of f] Pair by simp
    have fresh: "t_backlog (tcp_pcb_empty n) = []" for n by (simp add: tcp_pcb_empty_def)
    have gone: "tcp_get e (snd (tcp_pcb_release d t2)) = tcp_get e t"
      if "tcp_get d t2 = Some q" "t_backlog q = []" "\<And>f. f \<noteq> d \<Longrightarrow> tcp_get f t2 = tcp_get f t1" for t2 q
      using release_fresh [OF that(1, 2), of e] that(3) [of e] get [of e] tcp_alloc_free [OF d] by (simp split: if_splits)
    have rel: "tcp_get e (snd (tcp_pcb_release d t1)) = tcp_get e t"
      using gone [of t1] get [of d] fresh by simp
    show ?thesis
    proof (cases "\<exists>loc' t2. active \<and> choose_local loc rem t1 = Ok loc' \<and> send_syn d loc' rem t1 = (Err, t2)")
      case True
      then obtain loc' t2 where syn: "send_syn d loc' rem t1 = (Err, t2)" "t' = snd (tcp_pcb_release d t2)"
        using assms Pair Some by (auto simp: open_start_def)
      obtain q where "tcp_get d t2 = Some q" "t_backlog q = []" "\<And>f. f \<noteq> d \<Longrightarrow> tcp_get f t2 = tcp_get f t1"
        using send_syn_get [OF _ syn(1)] get [of d] fresh by metis
      then show ?thesis unfolding syn(2) by (rule gone)
    next
      case False
      with assms Pair Some rel show ?thesis
        by (auto simp: open_start_def split: if_splits result.splits prod.splits)
    qed
  qed
qed

text \<open>After a \<open>connect\<close> that has chosen its endpoint, the socket itself is what the next one collides with.\<close>

lemma connect_collides:
  assumes "tcp_get d t = Some p" and "port (t_local p) \<noteq> 0" and "addr (t_local p) \<noteq> ip_any" and "t_remote p = rem"
  shows "connect_start d rem t = (Err, t)"
proof -
  have "tcp_match (t_local p) rem p" using assms(4) by (simp add: tcp_match_def)
  then have "tcp_pcb_select (t_local p) rem t \<noteq> None" using assms(1) tcp_select_None by blast
  with assms show ?thesis by (simp add: connect_start_def choose_local_def choose_addr_def choose_port_def)
qed

lemma port_scan_nonzero: "0 < k \<Longrightarrow> port_scan used k = Some q \<Longrightarrow> q \<noteq> 0"
proof (induction used k rule: port_scan.induct)
  case (1 used k)
  have "q \<noteq> 0" if "q = of_nat k" "k \<le> DYNAMIC_PORT_MAX"
    using that 1(2) unat_of_nat_u16 [of k] by (auto simp: DYNAMIC_PORT_MAX_def)
  with 1 show ?case by (subst (asm) (2) port_scan.simps) (auto split: if_splits)
qed

lemma choose_local_port:
  assumes "choose_local loc0 rem t = Ok loc"
  shows "port loc \<noteq> 0"
  using assms port_scan_nonzero [of DYNAMIC_PORT_MIN]
  by (auto simp: choose_local_def choose_addr_def choose_port_def DYNAMIC_PORT_MIN_def
      split: result.splits if_splits option.splits)

lemma connect_retry:
  assumes "tcp_get d t = Some p" and "choose_local (t_local p) rem t = Ok loc" and "addr loc \<noteq> ip_any"
    and "connect_start d rem t = (r, t')"
  shows "connect_start d rem t' = (Err, t')"
proof -
  have "send_syn d loc rem t = (r, t')" using assms by (simp add: connect_start_def)
  then obtain q where "tcp_get d t' = Some q" "t_local q = loc" "t_remote q = rem"
    using send_syn_get [OF assms(1)] by metis
  with choose_local_port [OF assms(2)] assms(3) show ?thesis by (intro connect_collides) auto
qed

section \<open>Sockets\<close>

lemma view_eta [simp]: "tcp_store (tcp_view s) s = s" "udp_store (udp_view s) s = s"
  by (simp_all add: tcp_store_def tcp_view_def udp_store_def udp_view_def)

lemma tcp_socket_fails: "tcp_socket t = (Err, t') \<Longrightarrow> t' = t"
  using tcp_alloc_None [of t] by (auto simp: tcp_socket_def split: prod.splits option.splits)

lemma udp_open_fails: "udp_open u = (None, u') \<Longrightarrow> u' = u"
  using udp_alloc_None [of u] by (simp add: udp_open_def)

lemma tcp_bind_listen_fail:
  "tcp_bind d loc t = (Err, t') \<Longrightarrow> t' = t" "tcp_listen d n t = (Err, t') \<Longrightarrow> t' = t"
  by (auto simp: tcp_bind_def tcp_listen_def split: option.splits if_splits)

lemma udp_bind_fails: "udp_bind d loc u = (Err, u') \<Longrightarrow> u' = u"
  by (auto simp: udp_bind_def split: option.splits if_splits)

lemma sock_open_fails:
  assumes "sock_open family ty s = (Err, s')"
  shows "s' = s"
proof -
  have tcp: "s1 = s" if "on_tcp tcp_socket s = (Err, s1)" for s1
    using that tcp_socket_fails [of "tcp_view s"] by (auto simp: on_tcp_def split: prod.splits)
  have udp: "s1 = s" if "on_udp udp_open s = (None, s1)" for s1
    using that udp_open_fails [of "udp_view s"] by (auto simp: on_udp_def split: prod.splits)
  show ?thesis
    using assms tcp udp
    by (auto simp: sock_open_def Let_def split: if_splits result.splits option.splits prod.splits)
qed

lemma sock_bind_fails: "sock_bind desc a s = (Err, s') \<Longrightarrow> s' = s"
  by (auto simp: sock_bind_def on_tcp_def on_udp_def split: option.splits if_splits result.splits prod.splits
      dest!: tcp_bind_listen_fail(1) udp_bind_fails)

lemma sock_listen_fails: "sock_listen desc n s = (Err, s') \<Longrightarrow> s' = s"
  by (auto simp: sock_listen_def on_tcp_def split: option.splits prod.splits dest!: tcp_bind_listen_fail(2))

end
