(* ===== verification/Teardown.thy ===== *)
theory Teardown
  imports Loopback Errors
begin

text \<open>
  Closing a connection of the host with itself, over the loopback device: each \<open>close\<close> (\<^verbatim>\<open>tcp.rs\<close>)
  sends a FIN, the other end acknowledges it, the end that closes last is released by the
  acknowledgment of its FIN, and the other one by the timer.
\<close>

section \<open>Sending a FIN\<close>

abbreviation FIN_ACK :: u8 where
  "FIN_ACK \<equiv> TCP_FLG_ACK OR TCP_FLG_FIN"

lemma fin_flags [simp]:
  "flag_isset FIN_ACK TCP_FLG_FIN" "flag_isset FIN_ACK TCP_FLG_ACK" "\<not> flag_isset FIN_ACK TCP_FLG_RST"
  "\<not> flag_isset TCP_FLG_ACK TCP_FLG_FIN" "flag_isset TCP_FLG_ACK TCP_FLG_ACK" "\<not> flag_isset TCP_FLG_ACK TCP_FLG_RST"
  by (simp_all add: flag_isset_def tcp_flags)

lemma sent_fin_len [simp]: "seg_len (sent_seg seq ack FIN_ACK wnd []) = 1"
  by (simp add: sent_seg_def)

definition closing :: "tcp_st \<Rightarrow> tcp_st" where
  "closing st = (if st = Established then FinWait1 else LastAck)"

lemma close_loop:
  assumes loop: "tcp_loop t a iface dev" and p: "tcp_get c t = Some p" "t_state p \<in> {Established, CloseWait}"
    and addr: "addr (t_local p) = a" "addr (t_remote p) = a"
  shows "\<exists>t1 e x. tcp_close c t = (Ok (), t1) \<and> tcp_loop t1 a iface dev \<and> tcp_pending t1 = tcp_pending t @ [e] \<and>
    holds_segment (if_dev iface) (snd_nxt p) (rcv_nxt p) FIN_ACK (rcv_wnd p) [] (t_local p) (t_remote p) e \<and>
    q_seq x = snd_nxt p \<and> q_consume x = 1 \<and>
    (\<forall>f. tcp_get f t1 = (if f = c then Some (p\<lparr>t_queue := t_queue p @ [x], snd_nxt := snd_nxt p + 1,
       t_state := closing (t_state p)\<rparr>) else tcp_get f t))"
proof -
  let ?t0 = "snd (tcp_output c FIN_ACK [] t)"
  let ?t1 = "tcp_notify c (send_fin c (closing (t_state p)) t)"
  let ?x = "\<lparr>q_first = fst (tcp_now t), q_last = fst (tcp_now t), q_rto = TCP_DEFAULT_RTO, q_seq = snd_nxt p,
    q_flg = FIN_ACK, q_data = []\<rparr>"
  have close: "tcp_close c t = (Ok (), ?t1)" using p by (auto simp: tcp_close_def closing_def)
  have ip: "tcp_ip ?t1 = tcp_ip ?t0" by (simp add: send_fin_def)
  obtain e where out: "tcp_pending ?t0 = tcp_pending t @ [e]"
    "holds_segment (if_dev iface) (snd_nxt p) (rcv_nxt p) FIN_ACK (rcv_wnd p) [] (t_local p) (t_remote p) e"
    using output_loop [OF loop p(1) addr, of "[]" FIN_ACK] loop by (auto simp: output_seq_def tcp_loop_def)
  have "tcp_loop ?t1 a iface dev" by (rule tcp_loop_extends [OF loop]) (simp add: ip tcp_output_extends del: tcp_below_same)
  moreover have "queued (fst (tcp_now t)) FIN_ACK [] p = p\<lparr>t_queue := t_queue p @ [?x]\<rparr>"
    by (simp add: queued_def takes_sequence_def output_seq_def)
  then have "\<forall>f. tcp_get f ?t1 = (if f = c then Some (p\<lparr>t_queue := t_queue p @ [?x], snd_nxt := snd_nxt p + 1,
      t_state := closing (t_state p)\<rparr>) else tcp_get f t)"
    using p(1) by (simp add: send_fin_def)
  moreover have "q_consume ?x = 1" by (simp add: q_consume_def)
  ultimately show ?thesis using close out ip by (intro exI [of _ ?t1] exI [of _ e] exI [of _ ?x]) simp
qed

section \<open>Receiving a FIN\<close>

definition finned :: "tcp_st \<Rightarrow> tcp_st" where
  "finned st = (if st = Established then CloseWait else TimeWait)"

lemma fin_acceptable:
  assumes "seg_seq seg = rcv_nxt q" and "rcv_wnd q \<noteq> 0" and "unat (rcv_nxt q) + unat (rcv_wnd q) < 2 ^ 32"
  shows "seg_acceptable q seg"
  using assms by (intro in_order_acceptable) auto

lemma fin_loop:
  assumes loop: "tcp_loop t a iface dev" and q: "tcp_get d t = Some q" "t_state q \<in> {Established, FinWait2}"
    and sel: "tcp_pcb_select loc rem t = Some d"
    and addr: "t_local q = loc" "t_remote q = rem" "addr loc = a" "addr rem = a"
    and seg: "seg_seq seg = rcv_nxt q" "seg_ack seg = snd_nxt q" "snd_una q = snd_nxt q"
    and wnd: "rcv_wnd q \<noteq> 0" "unat (rcv_nxt q) + unat (rcv_wnd q) < 2 ^ 32"
    and t': "t' = segment_arrives seg FIN_ACK [] loc rem t"
  shows "\<exists>e w. tcp_pending t' = tcp_pending t @ [e] \<and>
    holds_segment (if_dev iface) (snd_nxt q) (rcv_nxt q + 1) TCP_FLG_ACK (rcv_wnd q) [] loc rem e \<and>
    (\<forall>f. tcp_get f t' = (if f = d then Some (q\<lparr>rcv_nxt := rcv_nxt q + 1, t_state := finned (t_state q), tw_timer := w\<rparr>)
       else tcp_get f t))"
proof -
  have "seg_acceptable q seg" using seg(1) wnd by (rule fin_acceptable)
  then have check: "seg_check d q seg FIN_ACK t = Next () t" by (simp add: seg_check_def)
  have upd: "ack_update d q seg t = Next () t" using seg by (simp add: ack_update_def)
  let ?t1 = "tcp_mod d (\<lambda>p. p\<lparr>rcv_nxt := rcv_nxt q + 1\<rparr>) t" and ?q1 = "q\<lparr>rcv_nxt := rcv_nxt q + 1\<rparr>"
  let ?t2 = "snd (tcp_output d TCP_FLG_ACK [] ?t1)"
  let ?t3 = "transition d (finned (t_state q)) ?t2"
  have eq: "t' = (if t_state q = Established then tcp_notify d ?t3 else set_timewait_timer d ?t3)"
    unfolding t' using sel q check upd seg(1)
    by (auto simp: segment_sections seg_text_def finned_def Let_def)
  let ?w = "if t_state q = Established then tw_timer q else fst (tcp_now ?t3) + TCP_TIMEWAIT_SEC"
  have get: "\<forall>f. tcp_get f t' = (if f = d then Some (?q1\<lparr>t_state := finned (t_state q), tw_timer := ?w\<rparr>) else tcp_get f t)"
    by (simp add: eq q queued_control)
  have "tcp_loop ?t1 a iface dev" by (rule tcp_loop_extends [OF loop]) simp
  then obtain e where out: "tcp_pending ?t2 = tcp_pending t @ [e]"
    "holds_segment (if_dev iface) (snd_nxt q) (rcv_nxt q + 1) TCP_FLG_ACK (rcv_wnd q) [] loc rem e"
    using output_loop [of ?t1 a iface dev d ?q1 "[]" TCP_FLG_ACK] q addr loop by (auto simp: output_seq_def tcp_loop_def)
  have "tcp_pending (set_timewait_timer d ?t3) = tcp_pending ?t3"
    using tcp_pending_steps(1) [of ?t3] by (simp add: set_timewait_timer_def case_prod_beta Let_def)
  then have "tcp_pending t' = tcp_pending ?t2" by (simp add: eq)
  with out get show ?thesis by (intro exI [of _ e] exI [of _ ?w]) simp
qed

section \<open>Receiving the acknowledgment of a FIN\<close>

lemma fin_acked_loop:
  assumes p: "tcp_get c t = Some p" "t_state p = FinWait1" and sel: "tcp_pcb_select loc rem t = Some c"
    and num: "snd_una p < snd_nxt p" "drop_acked (snd_nxt p) (t_queue p) = []"
    and seg: "seg_ack seg = snd_nxt p" "seg_seq seg = rcv_nxt p" "seg_len seg = 0"
    and wrap: "unat (rcv_nxt p) + unat (rcv_wnd p) < 2 ^ 32"
    and t': "t' = segment_arrives seg TCP_FLG_ACK [] loc rem t"
  shows "\<exists>n l1 l2. \<forall>f. tcp_get f t' = (if f = c then Some (p\<lparr>snd_una := snd_nxt p, t_queue := [], t_state := FinWait2,
      snd_wnd := n, snd_wl1 := l1, snd_wl2 := l2\<rparr>) else tcp_get f t)"
    and "tcp_pending t' = tcp_pending t"
proof -
  have check: "seg_check c p seg TCP_FLG_ACK t = Next () t"
    using ack_acceptable [OF seg(2, 3) wrap] by (simp add: seg_check_def)
  let ?t1 = "retrans_queue_cleanup c (tcp_mod c (\<lambda>p. p\<lparr>snd_una := seg_ack seg\<rparr>) t)"
  let ?new = "snd_wl1 p < seg_seq seg \<or> snd_wl1 p = seg_seq seg \<and> snd_wl2 p \<le> seg_ack seg"
  let ?t2 = "if ?new then tcp_mod c (\<lambda>p. p\<lparr>snd_wnd := seg_wnd seg, snd_wl1 := seg_seq seg, snd_wl2 := seg_ack seg\<rparr>) ?t1 else ?t1"
  have upd: "ack_update c p seg t = Next () ?t2" using num seg by (simp add: ack_update_def Let_def)
  have eq: "t' = transition c FinWait2 ?t2"
    unfolding t' using sel p check upd seg(1)
    by (simp add: segment_sections seg_text_def)
  show "tcp_pending t' = tcp_pending t" by (simp add: eq)
  show "\<exists>n l1 l2. \<forall>f. tcp_get f t' = (if f = c then Some (p\<lparr>snd_una := snd_nxt p, t_queue := [], t_state := FinWait2,
      snd_wnd := n, snd_wl1 := l1, snd_wl2 := l2\<rparr>) else tcp_get f t)"
  proof (cases ?new)
    case True
    show ?thesis
      by (rule exI [of _ "seg_wnd seg"], rule exI [of _ "seg_seq seg"], rule exI [of _ "seg_ack seg"])
        (use True in \<open>simp add: eq p(1) num seg\<close>)
  next
    case False
    show ?thesis
      by (rule exI [of _ "snd_wnd p"], rule exI [of _ "snd_wl1 p"], rule exI [of _ "snd_wl2 p"])
        (use False in \<open>auto simp: eq p(1) num seg\<close>)
  qed
qed

lemma last_acked_loop:
  assumes p: "tcp_get c t = Some p" "t_state p = LastAck" "t_backlog p = []" and sel: "tcp_pcb_select loc rem t = Some c"
    and seg: "seg_ack seg = snd_nxt p" "seg_seq seg = rcv_nxt p" "seg_len seg = 0"
    and wrap: "unat (rcv_nxt p) + unat (rcv_wnd p) < 2 ^ 32"
    and t': "t' = segment_arrives seg TCP_FLG_ACK [] loc rem t"
  shows "tcp_get f t' = (if f = c then None else tcp_get f t)" and "tcp_pending t' = tcp_pending t"
proof -
  have check: "seg_check c p seg TCP_FLG_ACK t = Next () t"
    using ack_acceptable [OF seg(2, 3) wrap] by (simp add: seg_check_def)
  have eq: "t' = snd (tcp_pcb_release c (transition c Closed t))"
    unfolding t' using sel p check seg(1)
    by (simp add: segment_arrives_def seg_synchronized_def with_pcb_def section_then_def
        seg_ack_syn_received_def seg_ack_states_def)
  have closed: "tcp_get c (transition c Closed t) = Some (p\<lparr>t_state := Closed\<rparr>)" using p(1) by simp
  show "tcp_get f t' = (if f = c then None else tcp_get f t)"
    using release_fresh [OF closed, of f] p(3) by (simp add: eq)
  show "tcp_pending t' = tcp_pending t"
    using p closed by (simp add: eq release_unfold release_body_def host_notify_def)
qed

section \<open>The two ends of a connection\<close>

text \<open>Both ends, with nothing under way in either direction; their states are left open.\<close>

definition tcp_pair :: "tcp_state \<Rightarrow> ip_addr \<Rightarrow> nat \<Rightarrow> tcp_pcb \<Rightarrow> nat \<Rightarrow> tcp_pcb \<Rightarrow> bool" where
  "tcp_pair t a c p d q \<longleftrightarrow> c \<noteq> d \<and> tcp_get c t = Some p \<and> tcp_get d t = Some q \<and>
     t_queue p = [] \<and> t_queue q = [] \<and> snd_una p = snd_nxt p \<and> snd_una q = snd_nxt q \<and>
     snd_nxt p = rcv_nxt q \<and> snd_nxt q = rcv_nxt p \<and> t_remote p = t_local q \<and> t_remote q = t_local p \<and>
     addr (t_local p) = a \<and> addr (t_local q) = a \<and> t_state p \<noteq> Listen \<and> t_state q \<noteq> Listen \<and>
     only_match (t_local p) (t_remote p) c t \<and> only_match (t_local q) (t_remote q) d t"

lemma tcp_pairD:
  assumes "tcp_pair t a c p d q"
  shows "c \<noteq> d" "tcp_get c t = Some p" "tcp_get d t = Some q" "addr (t_local p) = a" "addr (t_remote p) = a"
    "t_remote q = t_local p" "t_remote p = t_local q" "addr (t_local q) = a" "addr (t_remote q) = a"
    "only_match (t_local p) (t_remote p) c t" "only_match (t_local q) (t_remote q) d t"
    "t_queue p = []" "snd_una p = snd_nxt p" "snd_una q = snd_nxt q" "snd_nxt p = rcv_nxt q" "snd_nxt q = rcv_nxt p"
    "t_state q \<noteq> Listen"
  using assms unfolding tcp_pair_def by auto

lemma tcp_pair_sym: "tcp_pair t a c p d q \<longleftrightarrow> tcp_pair t a d q c p"
  by (auto simp: tcp_pair_def)

lemma linked_pair:
  "tcp_linked t a c d \<Longrightarrow> tcp_get c t = Some p \<Longrightarrow> tcp_get d t = Some q \<Longrightarrow>
     tcp_pair t a c p d q \<and> t_state p = Established \<and> t_state q = Established"
  by (auto simp: tcp_linked_def tcp_pair_def end_ok_def mirrors_def)

text \<open>The connections that match do not change when only the two ends change, and keep their endpoints.\<close>

lemma only_match_ends:
  assumes "only_match loc rem f t" and "tcp_pair t a c p d q"
    and "\<And>g. tcp_get g t' = (if g = c then Some p' else if g = d then Some q' else tcp_get g t)"
    and "t_local p' = t_local p" and "t_remote p' = t_remote p" and "t_local q' = t_local q" and "t_remote q' = t_remote q"
  shows "only_match loc rem f t'"
  by (rule only_match_cong [OF assms(1)]) (use assms(2-7) in \<open>auto simp: tcp_pair_def tcp_match_def split: if_splits\<close>)

section \<open>A FIN and its acknowledgment\<close>

text \<open>
  \<open>close\<close> at one end, and the first pass of the interrupt handler: the other end has the FIN, and its
  acknowledgment waits.
\<close>

definition fin_sent :: "tcp_queue_entry \<Rightarrow> tcp_pcb \<Rightarrow> tcp_pcb" where
  "fin_sent x p = p\<lparr>t_queue := t_queue p @ [x], snd_nxt := snd_nxt p + 1, t_state := closing (t_state p)\<rparr>"

definition fin_received :: "duration \<Rightarrow> tcp_pcb \<Rightarrow> tcp_pcb" where
  "fin_received w q = q\<lparr>rcv_nxt := rcv_nxt q + 1, t_state := finned (t_state q), tw_timer := w\<rparr>"

lemma fin_exchange:
  assumes loop: "tcp_loop (tcp_view s) a iface dev" and empty: "input_queue (st_link s) = []"
    and pair: "tcp_pair (tcp_view s) a c p d q"
    and st: "t_state p \<in> {Established, CloseWait}" "t_state q \<in> {Established, FinWait2}"
    and wnd: "rcv_wnd q \<noteq> 0" "unat (rcv_nxt q) + unat (rcv_wnd q) < 2 ^ 32"
  shows "\<exists>s1 t2 e x w. on_tcp (tcp_close c) s = (Ok (), s1) \<and> softirq_step s1 = Some (tcp_store t2 s) \<and>
    tcp_loop t2 a iface dev \<and> tcp_pending t2 = [e] \<and>
    holds_segment (if_dev iface) (snd_nxt q) (rcv_nxt q + 1) TCP_FLG_ACK (rcv_wnd q) [] (t_local q) (t_remote q) e \<and>
    q_seq x = snd_nxt p \<and> q_consume x = 1 \<and> tcp_pcb_select (t_local p) (t_remote p) (tcp_drained t2) = Some c \<and>
    (\<forall>f. tcp_get f t2 = (if f = c then Some (fin_sent x p) else if f = d then Some (fin_received w q)
       else tcp_get f (tcp_view s)))"
proof -
  let ?t = "tcp_view s"
  note pr = tcp_pairD [OF pair]
  obtain t1 e1 x where close: "tcp_close c ?t = (Ok (), t1)" "tcp_loop t1 a iface dev" "tcp_pending t1 = [e1]"
    "holds_segment (if_dev iface) (snd_nxt p) (rcv_nxt p) FIN_ACK (rcv_wnd p) [] (t_local p) (t_remote p) e1"
    and x: "q_seq x = snd_nxt p" "q_consume x = 1"
    and get1: "\<And>f. tcp_get f t1 = (if f = c then Some (fin_sent x p) else tcp_get f ?t)"
    using close_loop [OF loop pr(2) st(1) pr(4, 5)] empty unfolding fin_sent_def by auto
  define t2 where "t2 = segment_arrives (sent_seg (snd_nxt p) (rcv_nxt p) FIN_ACK (rcv_wnd p) []) FIN_ACK []
    (t_local q) (t_remote q) (tcp_drained t1)"
  have q1: "tcp_get d t1 = Some q" using get1 pr(1, 3) by simp
  have "only_match (t_local q) (t_remote q) d t1"
    by (rule only_match_ends [of _ _ _ ?t a c p d q _ "fin_sent x p" q])
      (use pair pr(1, 3, 11) get1 in \<open>simp_all add: fin_sent_def\<close>)
  then have sel: "tcp_pcb_select (t_local q) (t_remote q) (tcp_drained t1) = Some d"
    using select_only [OF q1 refl refl pr(17)] by simp
  obtain e2 w where fin: "tcp_pending t2 = [e2]"
    "holds_segment (if_dev iface) (snd_nxt q) (rcv_nxt q + 1) TCP_FLG_ACK (rcv_wnd q) [] (t_local q) (t_remote q) e2"
    and get2: "\<And>f. tcp_get f t2 = (if f = d then Some (fin_received w q) else tcp_get f t1)"
    using fin_loop [OF _ _ st(2) sel refl refl pr(8, 9) _ _ pr(14) wnd t2_def, of iface dev]
      close(2) q1 pr(15, 16) unfolding fin_received_def by (auto cong: if_cong)
  have get: "tcp_get f t2 = (if f = c then Some (fin_sent x p) else if f = d then Some (fin_received w q) else tcp_get f ?t)" for f
    using get1 get2 pr(1) by simp
  have "only_match (t_local p) (t_remote p) c t2"
    by (rule only_match_ends [OF pr(10) pair get]) (simp_all add: fin_sent_def fin_received_def)
  moreover have c2: "tcp_get c t2 = Some (fin_sent x p)" using get by simp
  ultimately have sel2: "tcp_pcb_select (t_local p) (t_remote p) (tcp_drained t2) = Some c"
    using select_only [OF c2, of "t_local p" "t_remote p"] by (simp add: fin_sent_def closing_def)
  have loop2: "tcp_loop t2 a iface dev" unfolding t2_def by (rule segment_arrives_loop [OF close(2)])
  have "softirq_step (tcp_store t1 s) = Some (tcp_store t2 s)"
    using softirq_segment [of "tcp_store t1 s", OF _ pr(4, 5) _ close(4)] close(2, 3) pr(6, 7) by (simp add: t2_def)
  moreover have "on_tcp (tcp_close c) s = (Ok (), tcp_store t1 s)" using close(1) by (simp add: on_tcp_def)
  ultimately show ?thesis using fin get x sel2 loop2 by blast
qed

section \<open>The first and the second close\<close>

lemma no_wrap_one: "unat (n :: u32) + 1 < 2 ^ 32 \<Longrightarrow> n < n + 1 \<and> unat (n + 1) = unat n + 1"
  by (simp add: unat_word_ariths word_less_nat_alt)

lemma first_close:
  assumes loop: "tcp_loop (tcp_view s) a iface dev" and empty: "input_queue (st_link s) = []"
    and pair: "tcp_pair (tcp_view s) a c p d q" and st: "t_state p = Established" "t_state q = Established"
    and wnd: "rcv_wnd q \<noteq> 0" "unat (rcv_nxt q) + unat (rcv_wnd q) < 2 ^ 32" "unat (rcv_nxt p) + unat (rcv_wnd p) < 2 ^ 32"
  shows "\<exists>s1 s2 s3 p' w. on_tcp (tcp_close c) s = (Ok (), s1) \<and> softirq_step s1 = Some s2 \<and> softirq_step s2 = Some s3 \<and>
    tcp_loop (tcp_view s3) a iface dev \<and> input_queue (st_link s3) = [] \<and>
    tcp_pair (tcp_view s3) a c p' d (fin_received w q) \<and> t_state p' = FinWait2 \<and> rcv_nxt p' = rcv_nxt p \<and>
    rcv_wnd p' = rcv_wnd p \<and> t_backlog p' = t_backlog p"
proof -
  note pr = tcp_pairD [OF pair]
  obtain s1 t2 e x w where ex: "on_tcp (tcp_close c) s = (Ok (), s1)" "softirq_step s1 = Some (tcp_store t2 s)"
    "tcp_loop t2 a iface dev" "tcp_pending t2 = [e]"
    "holds_segment (if_dev iface) (snd_nxt q) (rcv_nxt q + 1) TCP_FLG_ACK (rcv_wnd q) [] (t_local q) (t_remote q) e"
    and x: "q_seq x = snd_nxt p" "q_consume x = 1" and sel: "tcp_pcb_select (t_local p) (t_remote p) (tcp_drained t2) = Some c"
    and get2: "\<And>f. tcp_get f t2 = (if f = c then Some (fin_sent x p) else if f = d then Some (fin_received w q)
       else tcp_get f (tcp_view s))"
    using fin_exchange [OF loop empty pair _ _ wnd(1, 2)] st by auto
  have num: "snd_nxt p < snd_nxt p + 1"
    using no_wrap_one [of "rcv_nxt q"] wnd(1, 2) pr(15) unat_gt_0 [of "rcv_wnd q"] by simp
  define t3 where "t3 = segment_arrives (sent_seg (snd_nxt q) (rcv_nxt q + 1) TCP_FLG_ACK (rcv_wnd q) []) TCP_FLG_ACK []
    (t_local p) (t_remote p) (tcp_drained t2)"
  let ?p = "fin_sent x p"
  note ack = fin_acked_loop [of c "tcp_drained t2" ?p, OF _ _ sel _ _ _ _ sent_ack_len _ t3_def]
  obtain n l1 l2 where get3: "\<And>f. tcp_get f t3 = (if f = c then Some (?p\<lparr>snd_una := snd_nxt ?p, t_queue := [],
      t_state := FinWait2, snd_wnd := n, snd_wl1 := l1, snd_wl2 := l2\<rparr>) else tcp_get f t2)"
    using ack(1) get2 pr(12, 13, 15, 16) st num x wnd(3) by (auto simp: fin_sent_def closing_def cong: if_cong)
  let ?p' = "?p\<lparr>snd_una := snd_nxt ?p, t_queue := [], t_state := FinWait2, snd_wnd := n, snd_wl1 := l1, snd_wl2 := l2\<rparr>"
  have pend3: "tcp_pending t3 = []" using ack(2) get2 pr(12, 13, 15, 16) st num x wnd(3) by (simp add: fin_sent_def closing_def)
  have get: "tcp_get f t3 = (if f = c then Some ?p' else if f = d then Some (fin_received w q) else tcp_get f (tcp_view s))" for f
    using get3 get2 by simp
  have only: "only_match loc rem f t3" if "only_match loc rem f (tcp_view s)" for loc rem f
    by (rule only_match_ends [OF that pair get]) (simp_all add: fin_sent_def fin_received_def)
  have "tcp_pair t3 a c ?p' d (fin_received w q)"
    unfolding tcp_pair_def using get pair only [OF pr(10)] only [OF pr(11)]
    by (simp add: tcp_pair_def fin_sent_def fin_received_def finned_def)
  moreover have "softirq_step (tcp_store t2 s) = Some (tcp_store t3 s)"
    using softirq_segment [of "tcp_store t2 s", OF _ pr(8, 9) _ ex(5)] ex(3, 4) pr(6, 7) by (simp add: t3_def)
  moreover have "tcp_loop t3 a iface dev" unfolding t3_def by (rule segment_arrives_loop [OF ex(3)])
  ultimately show ?thesis
    using ex(1, 2) pend3
    by (intro exI [of _ s1] exI [of _ "tcp_store t2 s"] exI [of _ "tcp_store t3 s"] exI [of _ ?p'] exI [of _ w])
      (simp add: fin_sent_def)
qed

text \<open>The second \<open>close\<close> releases its end; the other one waits in \<open>TimeWait\<close>.\<close>

lemma second_close:
  assumes loop: "tcp_loop (tcp_view s) a iface dev" and empty: "input_queue (st_link s) = []"
    and pair: "tcp_pair (tcp_view s) a c p d q" and st: "t_state p = CloseWait" "t_state q = FinWait2" "t_backlog p = []"
    and wnd: "rcv_wnd q \<noteq> 0" "unat (rcv_nxt q) + unat (rcv_wnd q) < 2 ^ 32" "unat (rcv_nxt p) + unat (rcv_wnd p) < 2 ^ 32"
  shows "\<exists>s1 s2 s3 w. on_tcp (tcp_close c) s = (Ok (), s1) \<and> softirq_step s1 = Some s2 \<and> softirq_step s2 = Some s3 \<and>
    tcp_loop (tcp_view s3) a iface dev \<and> input_queue (st_link s3) = [] \<and>
    (\<forall>f. tcp_get f (tcp_view s3) = (if f = c then None else if f = d then Some (fin_received w q)
       else tcp_get f (tcp_view s)))"
proof -
  note pr = tcp_pairD [OF pair]
  obtain s1 t2 e x w where ex: "on_tcp (tcp_close c) s = (Ok (), s1)" "softirq_step s1 = Some (tcp_store t2 s)"
    "tcp_loop t2 a iface dev" "tcp_pending t2 = [e]"
    "holds_segment (if_dev iface) (snd_nxt q) (rcv_nxt q + 1) TCP_FLG_ACK (rcv_wnd q) [] (t_local q) (t_remote q) e"
    and sel: "tcp_pcb_select (t_local p) (t_remote p) (tcp_drained t2) = Some c"
    and get2: "\<And>f. tcp_get f t2 = (if f = c then Some (fin_sent x p) else if f = d then Some (fin_received w q)
       else tcp_get f (tcp_view s))"
    using fin_exchange [OF loop empty pair _ _ wnd(1, 2)] st by auto
  define t3 where "t3 = segment_arrives (sent_seg (snd_nxt q) (rcv_nxt q + 1) TCP_FLG_ACK (rcv_wnd q) []) TCP_FLG_ACK []
    (t_local p) (t_remote p) (tcp_drained t2)"
  note ack = last_acked_loop [of c "tcp_drained t2" "fin_sent x p", OF _ _ _ sel _ _ sent_ack_len _ t3_def]
  have get3: "tcp_get f t3 = (if f = c then None else tcp_get f t2)" and "tcp_pending t3 = []" for f
    using ack get2 pr(15, 16) st wnd(3) by (simp_all add: fin_sent_def closing_def)
  moreover have "softirq_step (tcp_store t2 s) = Some (tcp_store t3 s)"
    using softirq_segment [of "tcp_store t2 s", OF _ pr(8, 9) _ ex(5)] ex(3, 4) pr(6, 7) by (simp add: t3_def)
  moreover have "tcp_loop t3 a iface dev" unfolding t3_def by (rule segment_arrives_loop [OF ex(3)])
  ultimately show ?thesis
    using ex(1, 2) get2
    by (intro exI [of _ s1] exI [of _ "tcp_store t2 s"] exI [of _ "tcp_store t3 s"] exI [of _ w]) auto
qed

section \<open>Reading between the two closes\<close>

text \<open>
  The end that has received a FIN reads all its text with one call and the end of the data with the
  next; its window is open again.
\<close>

lemma read_to_end:
  assumes loop: "tcp_loop (tcp_view s) a iface dev" and pair: "tcp_pair (tcp_view s) a c p d q"
    and q: "t_state q = CloseWait" "win_ok q" and n: "length (t_buf q) \<le> n"
  shows "\<exists>s1 s2. on_tcp (receive_pass d n) s = (Return (Ok (t_buf q)), s1) \<and>
    on_tcp (receive_pass d m) s1 = (Return (Ok []), s2) \<and>
    tcp_loop (tcp_view s2) a iface dev \<and> input_queue (st_link s2) = input_queue (st_link s) \<and>
    tcp_pair (tcp_view s2) a c p d (q\<lparr>t_buf := [], rcv_wnd := 65535\<rparr>)"
proof -
  note pr = tcp_pairD [OF pair]
  let ?t = "snd (receive_pass d n (tcp_view s))" and ?q = "q\<lparr>t_buf := [], rcv_wnd := 65535\<rparr>"
  have sum: "unat (rcv_wnd q) + length (t_buf q) = 65535" using q by (simp add: win_ok_def RECV_BUF_SIZE_def)
  then have "unat (rcv_wnd q + of_nat (length (t_buf q))) = unat (65535 :: u16)"
    by (simp add: unat_word_ariths(1) unat_of_nat_u16)
  then have full: "rcv_wnd q + of_nat (length (t_buf q)) = 65535" by (rule unsigned_word_eqI)
  have "receive_pass d n (tcp_view s) = (Return (Ok (t_buf q)), ?t) \<and> tcp_ip ?t = tcp_ip (tcp_view s) \<and>
      (\<forall>f. tcp_get f ?t = (if f = d then Some ?q else tcp_get f (tcp_view s)))"
  proof (cases "t_buf q = []")
    case True
    moreover from this full have "q = ?q" by simp
    ultimately show ?thesis using pr(3) q(1) by (simp add: receive_pass_def)
  next
    case False
    with take_buf_ok(1) [OF q(2), of "length (t_buf q)" n d "tcp_view s"] n q(1) pr(3) full show ?thesis
      by (simp add: receive_pass_def can_take_def)
  qed
  then have first: "receive_pass d n (tcp_view s) = (Return (Ok (t_buf q)), ?t)" and ip: "tcp_ip ?t = tcp_ip (tcp_view s)"
    and get: "\<And>f. tcp_get f ?t = (if f = d then Some ?q else tcp_get f (tcp_view s))" by blast+
  have "on_tcp (receive_pass d n) s = (Return (Ok (t_buf q)), tcp_store ?t s)"
    by (subst on_tcp_def, subst first, simp)
  moreover have "on_tcp (receive_pass d m) (tcp_store ?t s) = (Return (Ok []), tcp_store ?t s)"
    using get [of d] q(1) by (simp add: on_tcp_def receive_pass_def)
  moreover have "only_match loc rem f ?t" if "only_match loc rem f (tcp_view s)" for loc rem f
    by (rule only_match_ends [OF that pair, of ?t p ?q]) (use get pr(1, 2) in auto)
  then have "tcp_pair ?t a c p d ?q" using pair get by (auto simp: tcp_pair_def)
  moreover have "tcp_loop ?t a iface dev" by (rule tcp_loop_extends [OF loop]) (simp add: ip)
  ultimately show ?thesis using ip by (intro exI [of _ "tcp_store ?t s"]) simp
qed

section \<open>The end of the waiting time\<close>

lemma on_timer_desc_others:
  assumes "e \<noteq> d \<or> tcp_get e t = None"
  shows "tcp_get e (on_timer_desc n d t) = None \<or> tcp_get e (on_timer_desc n d t) = tcp_get e t"
proof -
  have "tcp_get e (retrans_emit d t) = tcp_get e t"
    using assms by (auto simp: retrans_emit_def case_prod_beta Let_def emit_due_eq split: option.splits)
  moreover have "tcp_get e (snd (tcp_pcb_release d (transition d Closed t))) \<in> {None, tcp_get e t}"
  proof (cases "e = d")
    case False
    then have "tcp_get e (transition d Closed t) = tcp_get e t" by simp
    moreover have "shrinks (transition d Closed t) (snd (tcp_pcb_release d (transition d Closed t)))"
      using release_shrinks by blast
    ultimately show ?thesis unfolding shrinks_def by (metis insertCI)
  qed (simp add: release_shrinks)
  ultimately show ?thesis by (auto simp: on_timer_desc_def split: option.splits)
qed

lemma fold_timer_others:
  assumes "e \<notin> set ds \<or> tcp_get e t = None"
  shows "tcp_get e (fold (on_timer_desc n) ds t) = None \<or> tcp_get e (fold (on_timer_desc n) ds t) = tcp_get e t"
  using assms
proof (induction ds arbitrary: t)
  case (Cons d ds)
  let ?t = "on_timer_desc n d t"
  have one: "tcp_get e ?t = None \<or> tcp_get e ?t = tcp_get e t" using Cons.prems by (intro on_timer_desc_others) auto
  then have "e \<notin> set ds \<or> tcp_get e ?t = None" using Cons.prems by auto
  from Cons.IH [OF this] one show ?case by auto
qed simp

lemma timewait_expires:
  assumes "tcp_get c t = Some p" and "t_state p = TimeWait" and "tw_timer p < fst (tcp_now t)"
  shows "tcp_get c (tcp_on_timer t) = None"
proof -
  let ?n = "fst (tcp_now t)" and ?t1 = "snd (tcp_now t)"
  let ?t2 = "fold (on_timer_desc ?n) [0..<c] ?t1"
  have c: "c < length (tcp_pcbs ?t1)" using assms(1) by (auto simp: tcp_get_def slot_get_def split: if_splits)
  have "tcp_get c ?t2 = None \<or> tcp_get c ?t2 = Some p" using fold_timer_others [of c "[0..<c]" ?t1 ?n] assms(1) by simp
  then have "tcp_get c (on_timer_desc ?n c ?t2) = None"
    using assms(2, 3) release_shrinks [of "transition c Closed ?t2" c] by (auto simp: on_timer_desc_def)
  then have "tcp_get c (fold (on_timer_desc ?n) [Suc c..<length (tcp_pcbs ?t1)] (on_timer_desc ?n c ?t2)) = None"
    using fold_timer_others by metis
  moreover have "[0..<length (tcp_pcbs ?t1)] = [0..<c] @ c # [Suc c..<length (tcp_pcbs ?t1)]"
    using c upt_add_eq_append [of 0 c "length (tcp_pcbs ?t1) - c"] by (simp add: upt_conv_Cons)
  ultimately show ?thesis by (simp add: tcp_on_timer_def case_prod_beta Let_def)
qed

end
