(* ===== verification/Recovery.thy ===== *)
theory Recovery
  imports Loopback
begin

text \<open>
  A segment that is lost: one tick of the TCP timer (\<^verbatim>\<open>tcp.rs\<close>) sends it again, and the transfer
  completes as if nothing had happened. The loss is the input queue emptied behind the back of the
  stack.
\<close>

section \<open>The clock during a tick\<close>

text \<open>The readings of the clock still to come; a tick takes one, and one more for every control block.\<close>

definition tcp_clock :: "tcp_state \<Rightarrow> nat \<Rightarrow> duration" where
  "tcp_clock t i = clock (lk_os (tcp_link t)) (clock_reads (lk_os (tcp_link t)) + i)"

lemma tcp_clock_ip: "tcp_ip t = tcp_ip t' \<Longrightarrow> tcp_clock t = tcp_clock t'"
  by (simp add: tcp_clock_def fun_eq_iff)

lemma tcp_clock_now [simp]: "fst (tcp_now t) = tcp_clock t 0" "tcp_clock (snd (tcp_now t)) i = tcp_clock t (Suc i)"
  by (simp_all add: tcp_clock_def tcp_now_def ip_now_def now_def ip_with_os_def case_prod_beta Let_def)

section \<open>Control blocks with nothing to send\<close>

definition timer_idle :: "duration \<Rightarrow> tcp_pcb \<Rightarrow> bool" where
  "timer_idle n r \<longleftrightarrow> t_queue r = [] \<and> \<not> (t_state r = TimeWait \<and> tw_timer r < n)"

definition same_below :: "nat \<Rightarrow> tcp_state \<Rightarrow> tcp_state \<Rightarrow> bool" where
  "same_below k t t' \<longleftrightarrow> (\<forall>e. tcp_get e t' = tcp_get e t) \<and> tcp_pending t' = tcp_pending t \<and>
     ip_extends (tcp_ip t) (tcp_ip t') \<and> (\<exists>b \<le> k. \<forall>i. tcp_clock t' i = tcp_clock t (i + b))"

lemma same_below_refl: "same_below 0 t t"
  by (simp add: same_below_def)

lemma same_below_trans: "same_below j t t' \<Longrightarrow> same_below k t' t'' \<Longrightarrow> same_below (j + k) t t''"
  unfolding same_below_def
  by (auto intro: ip_extends_trans) (metis add.assoc add.commute add_mono)

lemma same_below_now: "same_below 1 t (snd (tcp_now t))"
  unfolding same_below_def using lower_steps(3) [of t] by (auto simp: lower_def intro!: exI [of _ 1])

lemma on_timer_idle:
  assumes "\<And>r. tcp_get d t = Some r \<Longrightarrow> timer_idle n r"
  shows "same_below 1 t (on_timer_desc n d t)"
proof (cases "tcp_get d t")
  case None
  then show ?thesis using same_below_refl by (simp add: on_timer_desc_def same_below_def) (metis add_0_right le0)
next
  case (Some r)
  with assms have r: "t_queue r = []" "\<not> (t_state r = TimeWait \<and> tw_timer r < n)" by (auto simp: timer_idle_def)
  obtain m t1 where t1: "tcp_now t = (m, t1)" by fastforce
  have "retrans_emit d t = tcp_mod d (\<lambda>p. p\<lparr>t_queue := map (q_backoff m) (t_queue p)\<rparr>) t1"
    using retrans_emit_eq [OF Some t1] r(1) by (simp add: deadline_passed_def)
  moreover have "on_timer_desc n d t = retrans_emit d t" using Some r(2) by (auto simp: on_timer_desc_def)
  moreover have "same_below 1 t t1" using same_below_now [of t] t1 by simp
  moreover have "tcp_clock (tcp_mod d f t1) = tcp_clock t1" for f by (rule tcp_clock_ip) simp
  moreover have "r\<lparr>t_queue := []\<rparr> = r" using r(1) by simp
  ultimately show ?thesis using Some r(1) by (simp add: same_below_def)
qed

lemma fold_timer_idle:
  assumes "\<And>d r. d \<in> set ds \<Longrightarrow> tcp_get d t = Some r \<Longrightarrow> timer_idle n r"
  shows "same_below (length ds) t (fold (on_timer_desc n) ds t)"
  using assms
proof (induction ds arbitrary: t)
  case (Cons d ds)
  have one: "same_below 1 t (on_timer_desc n d t)" by (rule on_timer_idle) (auto intro: Cons.prems)
  then have "same_below (length ds) (on_timer_desc n d t) (fold (on_timer_desc n) ds (on_timer_desc n d t))"
    by (intro Cons.IH) (auto simp: same_below_def intro: Cons.prems)
  from same_below_trans [OF one this] show ?case by simp
qed (simp add: same_below_refl)

section \<open>The tick that sends the segment again\<close>

lemma retrans_loop:
  assumes loop: "tcp_loop t a iface dev" and p: "tcp_get c t = Some p" "t_queue p = [x]" "t_state p \<noteq> TimeWait"
    and addr: "addr (t_local p) = a" "addr (t_remote p) = a" and mtu: "40 + length (q_data x) \<le> unat (dev_mtu dev)"
    and due: "q_last x + q_rto x \<le> tcp_clock t 0" "tcp_clock t 0 < q_first x + TCP_RETRANS_DEADLINE"
  shows "\<exists>e. tcp_pending (on_timer_desc n c t) = tcp_pending t @ [e] \<and>
    holds_segment (if_dev iface) (q_seq x) (rcv_nxt p) (q_flg x) (rcv_wnd p) (q_data x) (t_local p) (t_remote p) e \<and>
    tcp_loop (on_timer_desc n c t) a iface dev \<and>
    (\<forall>f. tcp_get f (on_timer_desc n c t) = (if f = c then Some (p\<lparr>t_queue := [q_backoff (tcp_clock t 0) x]\<rparr>) else tcp_get f t))"
proof -
  let ?t1 = "snd (tcp_now t)" and ?m = "tcp_clock t 0"
  let ?t2 = "snd (tcp_output_segment (q_seq x) (rcv_nxt p) (q_flg x) (rcv_wnd p) (q_data x) (t_local p) (t_remote p) ?t1)"
  have now: "tcp_now t = (?m, ?t1)" by (simp add: prod_eq_iff)
  have "retrans_emit c t = tcp_mod c (\<lambda>p. p\<lparr>t_queue := map (q_backoff ?m) (t_queue p)\<rparr>) ?t2"
    using retrans_emit_eq [OF p(1) now] p(2) due by (simp add: deadline_passed_def q_due_def resend_def not_le)
  then have eq: "on_timer_desc n c t = tcp_mod c (\<lambda>p. p\<lparr>t_queue := map (q_backoff ?m) (t_queue p)\<rparr>) ?t2"
    using p(1, 3) by (simp add: on_timer_desc_def)
  have "tcp_loop ?t1 a iface dev" using same_below_now by (intro tcp_loop_extends [OF loop]) (simp add: same_below_def)
  then obtain e where "tcp_pending ?t2 = tcp_pending t @ [e]"
    "holds_segment (if_dev iface) (q_seq x) (rcv_nxt p) (q_flg x) (rcv_wnd p) (q_data x) (t_local p) (t_remote p) e"
    using output_segment_loop [OF _ addr mtu, of ?t1 iface "q_seq x" "rcv_nxt p" "q_flg x" "rcv_wnd p"] by auto
  moreover have "tcp_loop (on_timer_desc n c t) a iface dev"
    using on_timer_desc_timer [of c t n] by (intro tcp_loop_extends [OF loop]) (simp add: lower_def)
  ultimately show ?thesis using p(1, 2) by (intro exI [of _ e]) (simp add: eq)
qed

text \<open>A whole tick, when no other control block has anything to do.\<close>

lemma timer_resends:
  assumes loop: "tcp_loop t a iface dev" and p: "tcp_get c t = Some p" "t_queue p = [x]" "t_state p \<noteq> TimeWait"
    and addr: "addr (t_local p) = a" "addr (t_remote p) = a" and mtu: "40 + length (q_data x) \<le> unat (dev_mtu dev)"
    and due: "\<And>i. i \<le> Suc (length (tcp_pcbs t)) \<Longrightarrow> q_last x + q_rto x \<le> tcp_clock t i \<and>
      tcp_clock t i < q_first x + TCP_RETRANS_DEADLINE"
    and idle: "\<And>d r. d \<noteq> c \<Longrightarrow> tcp_get d t = Some r \<Longrightarrow> timer_idle (tcp_clock t 0) r"
  shows "\<exists>e y. tcp_pending (tcp_on_timer t) = tcp_pending t @ [e] \<and>
    holds_segment (if_dev iface) (q_seq x) (rcv_nxt p) (q_flg x) (rcv_wnd p) (q_data x) (t_local p) (t_remote p) e \<and>
    tcp_loop (tcp_on_timer t) a iface dev \<and> q_seq y = q_seq x \<and> q_consume y = q_consume x \<and>
    (\<forall>f. tcp_get f (tcp_on_timer t) = (if f = c then Some (p\<lparr>t_queue := [y]\<rparr>) else tcp_get f t))"
proof -
  let ?n = "tcp_clock t 0" and ?t1 = "snd (tcp_now t)" and ?L = "length (tcp_pcbs t)"
  let ?t2 = "fold (on_timer_desc ?n) [0..<c] ?t1"
  let ?t3 = "on_timer_desc ?n c ?t2"
  have c: "c < ?L" using p(1) by (auto simp: tcp_get_def slot_get_def split: if_splits)
  have "same_below (length [0..<c]) ?t1 ?t2" by (rule fold_timer_idle) (auto intro: idle)
  from same_below_trans [OF same_below_now this] have s2: "same_below (Suc c) t ?t2" by simp
  then obtain b where b: "b \<le> Suc c" "tcp_clock ?t2 0 = tcp_clock t b" unfolding same_below_def by auto
  have due2: "q_last x + q_rto x \<le> tcp_clock ?t2 0" "tcp_clock ?t2 0 < q_first x + TCP_RETRANS_DEADLINE"
    using due [of b] b c by simp_all
  have loop2: "tcp_loop ?t2 a iface dev" using s2 by (intro tcp_loop_extends [OF loop]) (simp add: same_below_def)
  have p2: "tcp_get c ?t2 = Some p" using s2 p(1) by (simp add: same_below_def)
  let ?y = "q_backoff (tcp_clock ?t2 0) x"
  obtain e where e: "tcp_pending ?t3 = tcp_pending t @ [e]"
    "holds_segment (if_dev iface) (q_seq x) (rcv_nxt p) (q_flg x) (rcv_wnd p) (q_data x) (t_local p) (t_remote p) e"
    "tcp_loop ?t3 a iface dev" and get3: "\<And>f. tcp_get f ?t3 = (if f = c then Some (p\<lparr>t_queue := [?y]\<rparr>) else tcp_get f ?t2)"
    using retrans_loop [OF loop2 p2 p(2, 3) addr mtu due2, of ?n] s2 by (auto simp: same_below_def)
  have "timer_idle ?n r" if "d \<in> set [Suc c..<?L]" "tcp_get d ?t3 = Some r" for d r
    using that idle [of d r] get3 [of d] s2 by (auto simp: same_below_def)
  then have s4: "same_below (length [Suc c..<?L]) ?t3 (fold (on_timer_desc ?n) [Suc c..<?L] ?t3)" by (rule fold_timer_idle)
  have "[0..<?L] = [0..<c] @ c # [Suc c..<?L]"
    using c upt_add_eq_append [of 0 c "?L - c"] by (simp add: upt_conv_Cons)
  then have tick: "tcp_on_timer t = fold (on_timer_desc ?n) [Suc c..<?L] ?t3"
    by (simp add: tcp_on_timer_def case_prod_beta Let_def)
  have "q_seq ?y = q_seq x" "q_consume ?y = q_consume x" by (simp_all add: q_backoff_def q_consume_def)
  moreover have "tcp_loop (tcp_on_timer t) a iface dev"
    using s4 e(3) tcp_loop_extends by (auto simp: tick same_below_def)
  ultimately show ?thesis
    using s4 e get3 s2 by (intro exI [of _ e] exI [of _ ?y]) (simp add: tick same_below_def)
qed

section \<open>A lost segment\<close>

text \<open>
  Some time after a \<open>send\<close> on a connection at rest, the segment is gone and nothing else has
  happened to the table. The clock is past the timeout of the segment, and not past its deadline.
\<close>

definition segment_lost :: "tcp_state \<Rightarrow> duration \<Rightarrow> tcp_state \<Rightarrow> bool" where
  "segment_lost t1 sent t \<longleftrightarrow> tcp_pending t = [] \<and> (\<forall>f. tcp_get f t = tcp_get f t1) \<and>
     (\<forall>i \<le> Suc (length (tcp_pcbs t)). sent + TCP_DEFAULT_RTO \<le> tcp_clock t i \<and>
        tcp_clock t i < sent + TCP_RETRANS_DEADLINE)"

lemma recovery_over_loopback:
  assumes loop: "tcp_loop (tcp_view s) a iface dev"
    and ends: "c \<noteq> d" "end_ok p" "end_ok q" "mirrors p q" "mirrors q p" "addr (t_local p) = a" "addr (t_local q) = a"
    and x: "x = sent_entry sent (snd_nxt p) data"
    and p: "tcp_get c (tcp_view s) = Some (p\<lparr>t_queue := [x], snd_nxt := snd_nxt p + of_nat (length data)\<rparr>)"
    and q: "tcp_get d (tcp_view s) = Some q"
    and only: "only_match (t_local p) (t_remote p) c (tcp_view s)" "only_match (t_local q) (t_remote q) d (tcp_view s)"
    and data: "data \<noteq> []" "length data \<le> unat (rcv_wnd q)" "40 + length data \<le> unat (dev_mtu dev)"
    and wrap: "unat (rcv_nxt p) + unat (rcv_wnd p) < 2 ^ 32" "unat (rcv_nxt q) + unat (rcv_wnd q) < 2 ^ 32"
    and lost: "segment_lost (tcp_view s) sent (tcp_view s)"
    and idle: "\<forall>f r. f \<noteq> c \<longrightarrow> tcp_get f (tcp_view s) = Some r \<longrightarrow> t_queue r = [] \<and> t_state r \<noteq> TimeWait"
  shows "\<exists>s2 s3 q'. softirq_step (tcp_store (tcp_on_timer (tcp_view s)) s) = Some s2 \<and> softirq_step s2 = Some s3 \<and>
    input_queue (st_link s3) = [] \<and> tcp_loop (tcp_view s3) a iface dev \<and> tcp_linked (tcp_view s3) a c d \<and>
    tcp_get d (tcp_view s3) = Some q' \<and> t_buf q' = t_buf q @ data \<and> rcv_wnd q' = rcv_wnd q - of_nat (length data)"
proof -
  let ?t = "tcp_view s" and ?p = "p\<lparr>t_queue := [x], snd_nxt := snd_nxt p + of_nat (length data)\<rparr>"
  note xs = sent_entry_simps [where t = sent and seq = "snd_nxt p" and data = data, folded x]
  have rem: "addr (t_remote p) = a" using ends by (simp add: mirrors_def)
  obtain e y where tick: "tcp_pending (tcp_on_timer ?t) = [e]"
    "holds_segment (if_dev iface) (snd_nxt p) (rcv_nxt p) (TCP_FLG_ACK OR TCP_FLG_PSH) (rcv_wnd p) data (t_local p) (t_remote p) e"
    "tcp_loop (tcp_on_timer ?t) a iface dev" "q_seq y = snd_nxt p" "q_consume y = of_nat (length data)"
    and get: "\<And>f. tcp_get f (tcp_on_timer ?t) = (if f = c then Some (?p\<lparr>t_queue := [y]\<rparr>) else tcp_get f ?t)"
    using timer_resends [OF loop p, of x] ends(2, 6) rem xs data(3) lost idle
    by (auto simp: end_ok_def segment_lost_def timer_idle_def)
  have same: "only_match loc rem f (tcp_on_timer ?t)" if "only_match loc rem f ?t" for loc rem f
    by (rule only_match_cong [OF that]) (use get p in \<open>auto simp: tcp_match_def split: if_splits\<close>)
  show ?thesis
    by (rule text_delivered [of _ a iface dev e p data c d q y])
      (use tick get ends q data wrap same [OF only(1)] same [OF only(2)] in simp_all)
qed

text \<open>How such a state comes about: the queue is emptied and the clock goes on.\<close>

definition tcp_later :: "duration \<Rightarrow> tcp_state \<Rightarrow> tcp_state" where
  "tcp_later n t = t\<lparr>tcp_host := (tcp_host t)\<lparr>host_ip := (tcp_ip t)\<lparr>ip_arp := (ip_arp (tcp_ip t))
     \<lparr>arp_link := (tcp_link t)\<lparr>input_queue := [], lk_os := (lk_os (tcp_link t))\<lparr>clock := \<lambda>_. n\<rparr>\<rparr>\<rparr>\<rparr>\<rparr>\<rparr>"

lemma tcp_later_simps [simp]:
  "tcp_get f (tcp_later n t) = tcp_get f t" "tcp_pending (tcp_later n t) = []" "tcp_clock (tcp_later n t) i = n"
  "tcp_loop (tcp_later n t) = tcp_loop t"
  by (simp_all add: tcp_later_def tcp_clock_def fun_eq_iff tcp_loop_def loopback_to_def route_lookup_def by_index_def)

lemma tcp_later_lost:
  "sent + TCP_DEFAULT_RTO \<le> n \<Longrightarrow> n < sent + TCP_RETRANS_DEADLINE \<Longrightarrow> segment_lost t sent (tcp_later n t)"
  by (simp add: segment_lost_def)

end
