(* ===== verification/Retrans_Bound.thy ===== *)
theory Retrans_Bound
  imports Recovery Teardown
begin

text \<open>
  How often the timer (\<^verbatim>\<open>tcp.rs\<close>, \<open>retrans_queue_emit\<close>) sends a queued segment again, counted in the
  packets that reach the device, over any run of ticks and other activity.
\<close>

section \<open>Packets of a tick\<close>

text \<open>The sequence number of a packet without IP options that holds a TCP segment.\<close>

definition packet_seq :: "input_entry \<Rightarrow> u32" where
  "packet_seq e = tcp_seq (drop 20 (ie_data e))"

lemma holds_segment_seq:
  assumes "holds_segment i seq ack flg wnd data loc rem e" and "40 + length data \<le> 65535"
  shows "packet_seq e = seq"
proof -
  let ?g = "tcp_segment seq ack flg wnd data loc rem"
  obtain ident where "build_packet IP_PROTOCOL_TCP ?g (addr loc) (addr rem) ident = Ok (ie_data e)"
    using assms(1) by (auto simp: holds_segment_def)
  moreover have "IP_HDR_SIZE_MIN + length ?g \<le> 65535" using assms(2) by (simp add: tcp_segment_fields ip_consts)
  ultimately obtain h where "ie_data e = h @ ?g" "length h = 20"
    using build_packet_layout [of ?g IP_PROTOCOL_TCP "addr loc" "addr rem" ident] by (metis length_ip_header result.inject)
  then have "drop 20 (ie_data e) = ?g" by simp
  then show ?thesis by (simp add: packet_seq_def tcp_segment_fields)
qed

definition resent_as :: "ip_iface \<Rightarrow> tcp_pcb \<Rightarrow> tcp_queue_entry \<Rightarrow> input_entry \<Rightarrow> bool" where
  "resent_as iface p x e \<longleftrightarrow> holds_segment (if_dev iface) (q_seq x) (rcv_nxt p) (q_flg x) (rcv_wnd p) (q_data x)
     (t_local p) (t_remote p) e"

lemma resend_packets:
  assumes "tcp_loop t a iface dev" and "addr (t_local p) = a" and "addr (t_remote p) = a"
    and "\<forall>x \<in> set q. 40 + length (q_data x) \<le> unat (dev_mtu dev)"
  shows "\<exists>es. tcp_pending (fold (resend p) q t) = tcp_pending t @ es \<and> list_all2 (resent_as iface p) q es"
  using assms
proof (induction q arbitrary: t)
  case (Cons x q)
  obtain e where e: "tcp_pending (resend p x t) = tcp_pending t @ [e]" "resent_as iface p x e"
    using output_segment_loop [OF Cons.prems(1-3), of "q_data x" "q_seq x" "rcv_nxt p" "q_flg x" "rcv_wnd p"] Cons.prems(4)
    by (auto simp: resend_def resent_as_def)
  have "tcp_loop (resend p x t) a iface dev"
    unfolding resend_def by (rule tcp_loop_extends [OF Cons.prems(1) output_segment_extends])
  with Cons obtain es where "tcp_pending (fold (resend p) q (resend p x t)) = tcp_pending (resend p x t) @ es"
    "list_all2 (resent_as iface p) q es" by auto
  with e show ?case by (intro exI [of _ "e # es"]) simp
qed simp

section \<open>Runs\<close>

definition numbered :: "u32 \<Rightarrow> tcp_pcb \<Rightarrow> tcp_queue_entry list" where
  "numbered seq p = filter (\<lambda>x. q_seq x = seq) (t_queue p)"

text \<open>
  What happens to control block \<open>d\<close> between two ticks: it may be freed, and then stays so; else it keeps
  its endpoints, the segment with number \<open>seq\<close> stays in the queue as it is or leaves it, and no other
  segment gets its number. All else is free, also what is added to the queue, as long as it fits the
  device.
\<close>

definition other_step :: "ip_addr \<Rightarrow> ip_iface \<Rightarrow> device \<Rightarrow> nat \<Rightarrow> u32 \<Rightarrow> tcp_state \<Rightarrow> tcp_state \<Rightarrow> bool" where
  "other_step a iface dev d seq t t' \<longleftrightarrow> tcp_loop t' a iface dev \<and>
     (\<forall>p'. tcp_get d t' = Some p' \<longrightarrow>
        (\<exists>p. tcp_get d t = Some p \<and> t_local p' = t_local p \<and> t_remote p' = t_remote p \<and>
           numbered seq p' \<in> {[], numbered seq p}) \<and>
        (\<forall>x \<in> set (t_queue p'). 40 + length (q_data x) \<le> unat (dev_mtu dev)))"

text \<open>A run, with all packets that the ticks of control block \<open>d\<close> have sent.\<close>

inductive tick_run ::
  "ip_addr \<Rightarrow> ip_iface \<Rightarrow> device \<Rightarrow> nat \<Rightarrow> u32 \<Rightarrow> tcp_state \<Rightarrow> input_entry list \<Rightarrow> tcp_state \<Rightarrow> bool"
  for a iface dev d seq t where
  start: "tick_run a iface dev d seq t [] t"
| tick: "tick_run a iface dev d seq t es t1 \<Longrightarrow>
    tick_run a iface dev d seq t (es @ drop (length (tcp_pending t1)) (tcp_pending (retrans_emit d t1))) (retrans_emit d t1)"
| other: "tick_run a iface dev d seq t es t1 \<Longrightarrow> other_step a iface dev d seq t1 t2 \<Longrightarrow> tick_run a iface dev d seq t es t2"

text \<open>The invariant of a run that starts with the segment \<open>x\<close> in the queue, after \<open>k\<close> repetitions.\<close>

definition slot_inv :: "device \<Rightarrow> tcp_queue_entry \<Rightarrow> ip_endp \<Rightarrow> ip_endp \<Rightarrow> nat \<Rightarrow> tcp_pcb \<Rightarrow> bool" where
  "slot_inv dev x loc rem k p \<longleftrightarrow> t_local p = loc \<and> t_remote p = rem \<and>
     (\<forall>y \<in> set (t_queue p). 40 + length (q_data y) \<le> unat (dev_mtu dev)) \<and>
     (numbered (q_seq x) p = [] \<or> (\<exists>y. numbered (q_seq x) p = [y] \<and> q_tries k y \<and>
        q_last y < q_first y + TCP_RETRANS_DEADLINE \<and> q_flg y = q_flg x \<and> q_data y = q_data x))"

definition run_inv :: "ip_addr \<Rightarrow> ip_iface \<Rightarrow> device \<Rightarrow> nat \<Rightarrow> tcp_queue_entry \<Rightarrow> ip_endp \<Rightarrow> ip_endp \<Rightarrow>
    input_entry list \<Rightarrow> tcp_state \<Rightarrow> bool" where
  "run_inv a iface dev d x loc rem es t \<longleftrightarrow> tcp_loop t a iface dev \<and>
     (\<forall>e \<in> set es. packet_seq e = q_seq x \<longrightarrow>
        (\<exists>ack wnd. holds_segment (if_dev iface) (q_seq x) ack (q_flg x) wnd (q_data x) loc rem e)) \<and>
     count_list (map packet_seq es) (q_seq x) \<le> 5 \<and>
     (\<forall>p. tcp_get d t = Some p \<longrightarrow> slot_inv dev x loc rem (count_list (map packet_seq es) (q_seq x)) p)"

lemma slot_inv_other:
  "slot_inv dev x loc rem k p \<Longrightarrow> t_local p' = t_local p \<Longrightarrow> t_remote p' = t_remote p \<Longrightarrow>
    numbered (q_seq x) p' \<in> {[], numbered (q_seq x) p} \<Longrightarrow>
    \<forall>y \<in> set (t_queue p'). 40 + length (q_data y) \<le> unat (dev_mtu dev) \<Longrightarrow> slot_inv dev x loc rem k p'"
  by (auto simp: slot_inv_def)

lemma run_inv_other:
  assumes "run_inv a iface dev d x loc rem es t" and "other_step a iface dev d (q_seq x) t t'"
  shows "run_inv a iface dev d x loc rem es t'"
proof -
  let ?k = "count_list (map packet_seq es) (q_seq x)"
  have "slot_inv dev x loc rem ?k p'" if p': "tcp_get d t' = Some p'" for p'
  proof -
    obtain p where "tcp_get d t = Some p" "t_local p' = t_local p" "t_remote p' = t_remote p"
      "numbered (q_seq x) p' \<in> {[], numbered (q_seq x) p}"
      "\<forall>y \<in> set (t_queue p'). 40 + length (q_data y) \<le> unat (dev_mtu dev)"
      using assms(2) p' unfolding other_step_def by blast
    moreover from this assms(1) have "slot_inv dev x loc rem ?k p" by (simp add: run_inv_def)
    ultimately show ?thesis by (blast intro: slot_inv_other)
  qed
  with assms show ?thesis by (simp add: run_inv_def other_step_def)
qed

lemma retrans_emit_loop: "tcp_loop t a iface dev \<Longrightarrow> tcp_loop (retrans_emit d t) a iface dev"
  using retrans_emit_timer [of d t] by (auto simp: lower_def intro: tcp_loop_extends)

lemma numbered_backoff: "numbered seq (p\<lparr>t_queue := map (q_backoff n) (t_queue p)\<rparr>) = map (q_backoff n) (numbered seq p)"
  by (simp add: numbered_def filter_map o_def q_backoff_def)

text \<open>A tick sends the due entries.\<close>

lemma tick_packets:
  assumes loop: "tcp_loop t a iface dev" and p: "tcp_get d t = Some p" and addr: "addr (t_local p) = a" "addr (t_remote p) = a"
    and mtu: "\<forall>x \<in> set (t_queue p). 40 + length (q_data x) \<le> unat (dev_mtu dev)"
  shows "\<exists>es q. tcp_pending (retrans_emit d t) = tcp_pending t @ es \<and> tcp_get d (retrans_emit d t) = Some q \<and>
    t_local q = t_local p \<and> t_remote q = t_remote p \<and>
    (if deadline_passed (tcp_clock t 0) p then es = [] \<and> t_queue q = t_queue p
     else list_all2 (resent_as iface p) (filter (q_due (tcp_clock t 0)) (t_queue p)) es \<and>
       t_queue q = map (q_backoff (tcp_clock t 0)) (t_queue p))"
proof -
  let ?n = "tcp_clock t 0" and ?t1 = "snd (tcp_now t)"
  have now: "tcp_now t = (?n, ?t1)" by (simp add: prod_eq_iff)
  have "tcp_loop ?t1 a iface dev" using same_below_now by (intro tcp_loop_extends [OF loop]) (simp add: same_below_def)
  then obtain es where es: "tcp_pending (fold (resend p) (filter (q_due ?n) (t_queue p)) ?t1) = tcp_pending t @ es"
    "list_all2 (resent_as iface p) (filter (q_due ?n) (t_queue p)) es"
    using resend_packets [of ?t1 a iface dev p "filter (q_due ?n) (t_queue p)"] addr mtu by auto
  show ?thesis
  proof (cases "deadline_passed ?n p")
    case True
    then show ?thesis using retrans_emit_eq [OF p now] p by simp
  next
    case False
    then show ?thesis using retrans_emit_eq [OF p now] p es by (intro exI [of _ es]) simp
  qed
qed

text \<open>The packets among them with the number of the segment.\<close>

lemma resent_count:
  assumes "list_all2 (resent_as iface p) q es" and "\<forall>y \<in> set q. 40 + length (q_data y) \<le> 65535"
  shows "count_list (map packet_seq es) seq = length (filter (\<lambda>y. q_seq y = seq) q)"
    and "e \<in> set es \<Longrightarrow> \<exists>y \<in> set q. resent_as iface p y e \<and> q_seq y = packet_seq e"
proof -
  have seq: "packet_seq e = q_seq y" if "resent_as iface p y e" "y \<in> set q" for y e
    using that holds_segment_seq assms(2) unfolding resent_as_def by blast
  have map: "map packet_seq es = map q_seq q"
    using assms(1) seq by (induction rule: list_all2_induct) simp_all
  have "count_list (map q_seq q) seq = length (filter (\<lambda>y. q_seq y = seq) q)" by (induction q) simp_all
  with map show "count_list (map packet_seq es) seq = length (filter (\<lambda>y. q_seq y = seq) q)" by simp
  show "\<exists>y \<in> set q. resent_as iface p y e \<and> q_seq y = packet_seq e" if "e \<in> set es"
    using that assms(1) seq by (fastforce simp: list_all2_conv_all_nth in_set_conv_nth)
qed

text \<open>What the tick makes of the segment, when the deadline has not passed.\<close>

lemma slot_inv_tick:
  assumes inv: "slot_inv dev x loc rem k p" and alive: "\<not> deadline_passed n p"
    and q: "t_local q = t_local p" "t_remote q = t_remote p" "t_queue q = map (q_backoff n) (t_queue p)"
    and j: "j = length (filter (\<lambda>y. q_seq y = q_seq x) (filter (q_due n) (t_queue p)))"
  shows "slot_inv dev x loc rem (k + j) q" and "k \<le> 5 \<Longrightarrow> k + j \<le> 5"
proof -
  have num: "numbered (q_seq x) q = map (q_backoff n) (numbered (q_seq x) p)"
    using q(3) numbered_backoff [where seq = "q_seq x" and p = p and n = n] by (simp add: numbered_def)
  have jn: "j = length (filter (q_due n) (numbered (q_seq x) p))" by (simp add: j numbered_def conj_commute)
  have mtu: "\<forall>y \<in> set (t_queue q). 40 + length (q_data y) \<le> unat (dev_mtu dev)"
    using inv q(3) by (auto simp: slot_inv_def q_backoff_def)
  have "slot_inv dev x loc rem (k + j) q \<and> (k \<le> 5 \<longrightarrow> k + j \<le> 5)"
  proof (cases "numbered (q_seq x) p = []")
    case True
    then show ?thesis using num jn mtu inv q(1, 2) by (simp add: slot_inv_def)
  next
    case False
    with inv obtain y where y: "numbered (q_seq x) p = [y]" "q_tries k y" "q_last y < q_first y + TCP_RETRANS_DEADLINE"
      "q_flg y = q_flg x" "q_data y = q_data x" by (auto simp: slot_inv_def)
    have "y \<in> set (t_queue p)" using y(1) by (metis filter_is_subset list.set_intros(1) numbered_def subsetD)
    then have n: "n < q_first y + TCP_RETRANS_DEADLINE" using alive by (auto simp: deadline_passed_def not_le)
    have "j = (if q_due n y then 1 else 0)" using jn y(1) by simp
    then have "q_tries (k + j) (q_backoff n y)" using q_tries_backoff [OF y(2), of n] by (simp split: if_splits)
    moreover have "q_last (q_backoff n y) < q_first (q_backoff n y) + TCP_RETRANS_DEADLINE"
      "q_flg (q_backoff n y) = q_flg x" "q_data (q_backoff n y) = q_data x"
      using n y(3-5) by (simp_all add: q_backoff_def)
    ultimately show ?thesis
      using q_tries_bound num y(1) mtu inv q(1, 2) by (simp add: slot_inv_def)
  qed
  then show "slot_inv dev x loc rem (k + j) q" "k \<le> 5 \<Longrightarrow> k + j \<le> 5" by blast+
qed

lemma run_inv_tick:
  assumes inv: "run_inv a iface dev d x loc rem es t" and addr: "addr loc = a" "addr rem = a"
    and new: "new = drop (length (tcp_pending t)) (tcp_pending (retrans_emit d t))"
  shows "run_inv a iface dev d x loc rem (es @ new) (retrans_emit d t)"
proof (cases "tcp_get d t")
  case None
  then show ?thesis
    using inv retrans_emit_loop [of t a iface dev d] by (simp add: new run_inv_def retrans_emit_None)
next
  case (Some p)
  let ?k = "count_list (map packet_seq es) (q_seq x)" and ?n = "tcp_clock t 0"
  have slot: "slot_inv dev x loc rem ?k p" and loop: "tcp_loop t a iface dev" using inv Some by (simp_all add: run_inv_def)
  obtain es' q where pend: "tcp_pending (retrans_emit d t) = tcp_pending t @ es'" and q: "tcp_get d (retrans_emit d t) = Some q"
    "t_local q = t_local p" "t_remote q = t_remote p"
    and tick: "if deadline_passed ?n p then es' = [] \<and> t_queue q = t_queue p
      else list_all2 (resent_as iface p) (filter (q_due ?n) (t_queue p)) es' \<and> t_queue q = map (q_backoff ?n) (t_queue p)"
    using tick_packets [OF loop Some] slot addr by (auto simp: slot_inv_def)
  have es': "new = es'" by (simp add: new pend)
  show ?thesis
  proof (cases "deadline_passed ?n p")
    case True
    then have "slot_inv dev x loc rem ?k q" using slot q(2, 3) tick by (simp add: slot_inv_def numbered_def)
    then show ?thesis using inv True tick q(1) retrans_emit_loop [OF loop] by (simp add: run_inv_def es')
  next
    case False
    let ?due = "filter (q_due ?n) (t_queue p)"
    have mtu: "unat (dev_mtu dev) \<le> 65535" using unat_u16_less [of "dev_mtu dev"] by linarith
    have "\<forall>y \<in> set ?due. 40 + length (q_data y) \<le> 65535"
      using slot order_trans [OF _ mtu] unfolding slot_inv_def by (metis filter_is_subset subsetD)
    then have cnt: "count_list (map packet_seq es') (q_seq x) = length (filter (\<lambda>y. q_seq y = q_seq x) ?due)"
      and origin: "\<And>e. e \<in> set es' \<Longrightarrow> \<exists>y \<in> set ?due. resent_as iface p y e \<and> q_seq y = packet_seq e"
      using resent_count [of iface p ?due es'] False tick by auto
    note step = slot_inv_tick [OF slot False q(2, 3) _ cnt]
    have "\<exists>ack wnd. holds_segment (if_dev iface) (q_seq x) ack (q_flg x) wnd (q_data x) loc rem e"
      if e: "e \<in> set es'" "packet_seq e = q_seq x" for e
    proof -
      obtain y where y: "y \<in> set (t_queue p)" "resent_as iface p y e" "q_seq y = q_seq x" using origin [OF e(1)] e(2) by auto
      then have "y \<in> set (numbered (q_seq x) p)" by (simp add: numbered_def)
      with slot have "q_flg y = q_flg x" "q_data y = q_data x" "t_local p = loc" "t_remote p = rem"
        by (auto simp: slot_inv_def)
      with y show ?thesis unfolding resent_as_def by metis
    qed
    with inv step False tick q(1) retrans_emit_loop [OF loop] show ?thesis
      by (auto simp: run_inv_def es')
  qed
qed

lemma tick_run_inv:
  assumes "tick_run a iface dev d (q_seq x) t es t'" and "run_inv a iface dev d x loc rem [] t"
    and "addr loc = a" and "addr rem = a"
  shows "run_inv a iface dev d x loc rem es t'"
  using assms by (induction rule: tick_run.induct) (auto intro: run_inv_other run_inv_tick)

lemma run_inv_start:
  assumes "tcp_loop t a iface dev" and "tcp_get d t = Some p"
    and "\<forall>y \<in> set (t_queue p). 40 + length (q_data y) \<le> unat (dev_mtu dev)"
    and "numbered (q_seq x) p = [x]" and "q_first x = q_last x" and "q_rto x = TCP_DEFAULT_RTO"
  shows "run_inv a iface dev d x (t_local p) (t_remote p) [] t"
  using assms q_tries_queued [OF assms(5, 6)] by (simp add: run_inv_def slot_inv_def TCP_RETRANS_DEADLINE_def)

section \<open>Steps of the code between two ticks\<close>

lemma filter_dropWhile_single: "length (filter P xs) \<le> 1 \<Longrightarrow> filter P (dropWhile Q xs) \<in> {[], filter P xs}"
proof -
  assume one: "length (filter P xs) \<le> 1"
  have "filter P xs = filter P (takeWhile Q xs) @ filter P (dropWhile Q xs)"
    by (metis filter_append takeWhile_dropWhile_id)
  with one show ?thesis by (cases "filter P (takeWhile Q xs)"; cases "filter P (dropWhile Q xs)") auto
qed

text \<open>An acknowledgment removes segments, a new segment has another number.\<close>

lemma other_ack:
  assumes "tcp_loop t a iface dev" and "tcp_get d t = Some p" and "length (numbered seq p) \<le> 1"
    and "\<forall>y \<in> set (t_queue p). 40 + length (q_data y) \<le> unat (dev_mtu dev)"
  shows "other_step a iface dev d seq t (retrans_queue_cleanup d t)"
proof -
  have "tcp_loop (retrans_queue_cleanup d t) a iface dev" by (rule tcp_loop_extends [OF assms(1)]) simp
  moreover have "tcp_get d (retrans_queue_cleanup d t) = Some (p\<lparr>t_queue := drop_acked (snd_una p) (t_queue p)\<rparr>)"
    using assms(2) by (simp add: retrans_queue_cleanup_def)
  moreover have "numbered seq (p\<lparr>t_queue := drop_acked una (t_queue p)\<rparr>) \<in> {[], numbered seq p}" for una
    using filter_dropWhile_single [of _ "t_queue p"] assms(3) by (simp add: numbered_def drop_acked_dropWhile)
  moreover have "\<forall>y \<in> set (drop_acked una (t_queue p)). 40 + length (q_data y) \<le> unat (dev_mtu dev)" for una
    using assms(4) by (auto simp: drop_acked_dropWhile dest: set_dropWhileD)
  ultimately show ?thesis using assms(2) unfolding other_step_def by simp
qed

lemma other_output:
  assumes "tcp_loop t a iface dev" and "tcp_get d t = Some p" and "output_seq flg p \<noteq> seq"
    and "\<forall>y \<in> set (t_queue p). 40 + length (q_data y) \<le> unat (dev_mtu dev)" and "40 + length data \<le> unat (dev_mtu dev)"
  shows "other_step a iface dev d seq t (snd (tcp_output d flg data t))"
proof -
  let ?q = "queued (fst (tcp_now t)) flg data p"
  have "tcp_get d (snd (tcp_output d flg data t)) = Some ?q" using assms(2) by simp
  moreover have "tcp_loop (snd (tcp_output d flg data t)) a iface dev"
    by (rule tcp_loop_extends [OF assms(1) tcp_output_extends])
  moreover have "numbered seq ?q = numbered seq p" "t_local ?q = t_local p" "t_remote ?q = t_remote p"
    "\<forall>y \<in> set (t_queue ?q). 40 + length (q_data y) \<le> unat (dev_mtu dev)"
    using assms(3-5) by (auto simp: queued_def numbered_def)
  ultimately show ?thesis using assms(2) by (simp add: other_step_def)
qed

text \<open>
  A whole tick of the TCP timer is part of a run: it is a tick of \<open>d\<close>, or frees it, and does not touch
  \<open>d\<close> on behalf of another control block.
\<close>

lemma on_timer_desc_run:
  assumes run: "tick_run a iface dev d (q_seq x) t es t1" and inv: "run_inv a iface dev d x loc rem es t1"
    and addr: "addr loc = a" "addr rem = a"
  shows "\<exists>new. tick_run a iface dev d (q_seq x) t (es @ new) (on_timer_desc n f t1) \<and>
    run_inv a iface dev d x loc rem (es @ new) (on_timer_desc n f t1)"
proof (cases "on_timer_desc n f t1 = retrans_emit d t1")
  case True
  with tick_run.tick [OF run] run_inv_tick [OF inv addr refl] show ?thesis by auto
next
  case False
  let ?t = "on_timer_desc n f t1"
  have loop: "tcp_loop ?t a iface dev"
    using inv on_timer_desc_timer [of f t1 n] by (auto simp: run_inv_def lower_def intro: tcp_loop_extends)
  have "tcp_get d ?t = None \<or> tcp_get d ?t = tcp_get d t1"
  proof (cases "d = f \<and> tcp_get d t1 \<noteq> None")
    case True
    with False have "?t = snd (tcp_pcb_release d (transition d Closed t1))"
      by (auto simp: on_timer_desc_def split: if_splits)
    then show ?thesis using release_shrinks by simp
  qed (use on_timer_desc_others [of d f t1 n] in blast)
  then have "other_step a iface dev d (q_seq x) t1 ?t"
    using inv loop unfolding other_step_def run_inv_def slot_inv_def by auto
  with tick_run.other [OF run] run_inv_other [OF inv] show ?thesis by (intro exI [of _ "[]"]) simp
qed

lemma on_timer_run:
  assumes "tick_run a iface dev d (q_seq x) t es t1" and "run_inv a iface dev d x loc rem es t1"
    and "addr loc = a" and "addr rem = a"
  shows "\<exists>new. tick_run a iface dev d (q_seq x) t (es @ new) (tcp_on_timer t1)"
proof -
  have fold: "\<exists>new. tick_run a iface dev d (q_seq x) t (es @ new) (fold (on_timer_desc n) fs t2)"
    if "tick_run a iface dev d (q_seq x) t es t2" "run_inv a iface dev d x loc rem es t2" for n fs es t2
    using that
  proof (induction fs arbitrary: es t2)
    case (Cons f fs)
    obtain new where "tick_run a iface dev d (q_seq x) t (es @ new) (on_timer_desc n f t2)"
      "run_inv a iface dev d x loc rem (es @ new) (on_timer_desc n f t2)"
      using on_timer_desc_run [OF Cons.prems assms(3, 4)] by blast
    from Cons.IH [OF this] show ?case by auto
  qed (auto intro: exI [of _ "[]"])
  have "other_step a iface dev d (q_seq x) t1 (snd (tcp_now t1))"
    using assms(2) tcp_loop_extends [of t1 a iface dev "snd (tcp_now t1)"] lower_steps(3) [of t1]
    by (auto simp: other_step_def run_inv_def slot_inv_def lower_def)
  from fold [OF tick_run.other [OF assms(1) this] run_inv_other [OF assms(2) this]] show ?thesis
    by (simp add: tcp_on_timer_def case_prod_beta Let_def)
qed

end
