(* ===== verification/Stream.thy ===== *)
theory Stream
  imports Loopback
begin

text \<open>
  A \<open>send\<close> of any length over the loopback device: the data goes out as a train of segments, the
  software interrupt handler hands them over one after the other, each is answered by an
  acknowledgment, and the acknowledgments empty the retransmission queue step by step.
\<close>

section \<open>Trains of segments\<close>

text \<open>
  The packets of consecutive segments with text, their entries in the retransmission queue, and
  the packets of the acknowledgments that answer them one by one.
\<close>

fun holds_texts :: "nat \<Rightarrow> tcp_pcb \<Rightarrow> u32 \<Rightarrow> bytes list \<Rightarrow> input_entry list \<Rightarrow> bool" where
  "holds_texts i p seq [] es \<longleftrightarrow> es = []"
| "holds_texts i p seq (x # xs) es \<longleftrightarrow> (\<exists>e es'. es = e # es' \<and>
     holds_segment i seq (rcv_nxt p) (TCP_FLG_ACK OR TCP_FLG_PSH) (rcv_wnd p) x (t_local p) (t_remote p) e \<and>
     holds_texts i p (seq + of_nat (length x)) xs es')"

fun queued_texts :: "u32 \<Rightarrow> bytes list \<Rightarrow> tcp_queue_entry list \<Rightarrow> bool" where
  "queued_texts seq [] qs \<longleftrightarrow> qs = []"
| "queued_texts seq (x # xs) qs \<longleftrightarrow> (\<exists>q qs'. qs = q # qs' \<and> q_seq q = seq \<and> q_consume q = of_nat (length x) \<and>
     queued_texts (seq + of_nat (length x)) xs qs')"

fun holds_acks :: "nat \<Rightarrow> tcp_pcb \<Rightarrow> u32 \<Rightarrow> u16 \<Rightarrow> bytes list \<Rightarrow> input_entry list \<Rightarrow> bool" where
  "holds_acks i q n w [] es \<longleftrightarrow> es = []"
| "holds_acks i q n w (x # xs) es \<longleftrightarrow> (\<exists>e es'. es = e # es' \<and>
     holds_segment i (snd_nxt q) (n + of_nat (length x)) TCP_FLG_ACK (w - of_nat (length x)) [] (t_local q) (t_remote q) e \<and>
     holds_acks i q (n + of_nat (length x)) (w - of_nat (length x)) xs es')"

lemma holds_texts_cong:
  "rcv_nxt p' = rcv_nxt p \<Longrightarrow> rcv_wnd p' = rcv_wnd p \<Longrightarrow> t_local p' = t_local p \<Longrightarrow> t_remote p' = t_remote p \<Longrightarrow>
     holds_texts i p' seq xs es = holds_texts i p seq xs es"
  by (induction xs arbitrary: seq es) auto

lemma holds_acks_cong:
  "snd_nxt q' = snd_nxt q \<Longrightarrow> t_local q' = t_local q \<Longrightarrow> t_remote q' = t_remote q \<Longrightarrow>
     holds_acks i q' n w xs es = holds_acks i q n w xs es"
  by (induction xs arbitrary: n w es) auto

section \<open>Sending\<close>

text \<open>One pass of \<open>send\<close> when the rest of the data fits the window.\<close>

lemma send_pass_loop:
  assumes loop: "tcp_loop t a iface dev" and p: "tcp_get c t = Some p" "t_state p = Established"
    and addr: "addr (t_local p) = a" "addr (t_remote p) = a"
    and sent: "sent < length data" "length data - sent \<le> send_cap p"
    and mss: "t_mss p \<noteq> 0" "40 + unat (t_mss p) \<le> unat (dev_mtu dev)"
    and n: "n = min (unat (t_mss p)) (length data - sent)" and x: "x = slice sent (sent + n) data"
  shows "\<exists>t1 e y. send_pass c data sent t = (SendMore (sent + n), t1) \<and> lower t t1 \<and>
    tcp_pending t1 = tcp_pending t @ [e] \<and>
    holds_segment (if_dev iface) (snd_nxt p) (rcv_nxt p) (TCP_FLG_ACK OR TCP_FLG_PSH) (rcv_wnd p) x (t_local p) (t_remote p) e \<and>
    q_seq y = snd_nxt p \<and> q_consume y = of_nat n \<and> 0 < n \<and> length x = n \<and>
    (\<forall>f. tcp_get f t1 = (if f = c then Some (p\<lparr>t_queue := t_queue p @ [y], snd_nxt := snd_nxt p + of_nat n\<rparr>) else tcp_get f t))"
proof -
  let ?AP = "TCP_FLG_ACK OR TCP_FLG_PSH"
  let ?t0 = "snd (tcp_output c ?AP x t)"
  let ?t1 = "tcp_mod c (\<lambda>p. p\<lparr>snd_nxt := snd_nxt p + of_nat n\<rparr>) ?t0"
  let ?y = "sent_entry (fst (tcp_now t)) (snd_nxt p) x"
  have "0 < unat (t_mss p)" using mss(1) by (simp add: unat_gt_0)
  then have pos: "0 < n" and len: "length x = n" and "x \<noteq> []" using sent(1) by (auto simp: n x slice_def)
  have cap: "send_cap p \<noteq> 0" "min (min (unat (t_mss p)) (length data - sent)) (send_cap p) = n"
    using sent by (simp_all add: n)
  have pass: "send_pass c data sent t = (SendMore (sent + n), ?t1)"
    using p sent(1) cap by (simp add: send_pass_def Let_def x)
  have q: "queued (fst (tcp_now t)) ?AP x p = p\<lparr>t_queue := t_queue p @ [?y]\<rparr>"
    using \<open>x \<noteq> []\<close> by (simp add: queued_def takes_sequence_def output_seq_def sent_entry_def)
  have get: "\<forall>f. tcp_get f ?t1 = (if f = c then Some (p\<lparr>t_queue := t_queue p @ [?y], snd_nxt := snd_nxt p + of_nat n\<rparr>)
      else tcp_get f t)"
    using p(1) q by simp
  have mtu: "40 + length x \<le> unat (dev_mtu dev)" using mss(2) len by (simp add: n)
  from output_loop [OF loop p(1) addr mtu, of ?AP] obtain e where "tcp_pending ?t1 = tcp_pending t @ [e]"
    "holds_segment (if_dev iface) (snd_nxt p) (rcv_nxt p) ?AP (rcv_wnd p) x (t_local p) (t_remote p) e"
    by (auto simp: output_seq_def)
  with pass get pos len show ?thesis
    by (intro exI [of _ ?t1] exI [of _ e] exI [of _ ?y]) (simp add: lower_steps sent_entry_simps)
qed

lemma send_cap_sent:
  assumes "n \<le> send_cap p"
  shows "send_cap (p\<lparr>t_queue := q, snd_nxt := snd_nxt p + of_nat n\<rparr>) = send_cap p - n"
proof -
  have "unat (snd_nxt p - snd_una p) + n \<le> unat (snd_wnd p) \<or> n = 0" using assms by (auto simp: send_cap_def)
  then have "unat ((snd_nxt p - snd_una p) + of_nat n) = unat (snd_nxt p - snd_una p) + n"
  proof
    assume le: "unat (snd_nxt p - snd_una p) + n \<le> unat (snd_wnd p)"
    then have "unat (snd_nxt p - snd_una p) + n < 65536" using unat_u16_less [of "snd_wnd p"] by linarith
    then show ?thesis by (simp add: unat_word_ariths unat_of_nat_u32)
  qed simp
  then show ?thesis by (simp add: send_cap_def algebra_simps)
qed

text \<open>The loop of \<open>send\<close>: the data as a train of segments.\<close>

lemma send_train:
  assumes "tcp_loop t a iface dev" and "tcp_get c t = Some p" and "t_state p = Established"
    and "addr (t_local p) = a" and "addr (t_remote p) = a"
    and "sent \<le> length data" and "length data - sent \<le> send_cap p"
    and "t_mss p \<noteq> 0" and "40 + unat (t_mss p) \<le> unat (dev_mtu dev)" and "length data - sent < fuel"
  shows "\<exists>t1 xs es ys. send_loop (send_pass c data) fuel wakes sent t = Some (Ok (length data), t1) \<and> lower t t1 \<and>
    concat xs = drop sent data \<and> [] \<notin> set xs \<and> tcp_pending t1 = tcp_pending t @ es \<and>
    holds_texts (if_dev iface) p (snd_nxt p) xs es \<and> queued_texts (snd_nxt p) xs ys \<and>
    (\<forall>f. tcp_get f t1 = (if f = c then Some (p\<lparr>t_queue := t_queue p @ ys,
       snd_nxt := snd_nxt p + of_nat (length data - sent)\<rparr>) else tcp_get f t))"
  using assms
proof (induction fuel arbitrary: t p sent)
  case (Suc fuel)
  show ?case
  proof (cases "sent = length data")
    case True
    then have "send_loop (send_pass c data) (Suc fuel) wakes sent t = Some (Ok (length data), t)"
      using Suc.prems(2, 3) by (simp add: send_pass_def)
    then show ?thesis
      using True Suc.prems(2) by (intro exI [of _ t] exI [of _ "[]"]) auto
  next
    case False
    with Suc.prems(6) have less: "sent < length data" by simp
    define n where "n = min (unat (t_mss p)) (length data - sent)"
    define x where "x = slice sent (sent + n) data"
    obtain t1 e y where pass: "send_pass c data sent t = (SendMore (sent + n), t1)" "lower t t1"
      "tcp_pending t1 = tcp_pending t @ [e]"
      "holds_segment (if_dev iface) (snd_nxt p) (rcv_nxt p) (TCP_FLG_ACK OR TCP_FLG_PSH) (rcv_wnd p) x (t_local p) (t_remote p) e"
      "q_seq y = snd_nxt p" "q_consume y = of_nat n" "0 < n" "length x = n"
      and get1: "\<And>f. tcp_get f t1 = (if f = c then Some (p\<lparr>t_queue := t_queue p @ [y], snd_nxt := snd_nxt p + of_nat n\<rparr>)
        else tcp_get f t)"
      using send_pass_loop [OF Suc.prems(1-5) less Suc.prems(7-9) n_def x_def] by blast
    let ?p = "p\<lparr>t_queue := t_queue p @ [y], snd_nxt := snd_nxt p + of_nat n\<rparr>"
    have n: "n \<le> length data - sent" by (simp add: n_def)
    have cap: "send_cap ?p = send_cap p - n" using n Suc.prems(7) by (intro send_cap_sent) simp
    have loop1: "tcp_loop t1 a iface dev" using pass(2) by (intro tcp_loop_extends [OF Suc.prems(1)]) (simp add: lower_def)
    have "\<exists>t2 xs es ys. send_loop (send_pass c data) fuel wakes (sent + n) t1 = Some (Ok (length data), t2) \<and> lower t1 t2 \<and>
        concat xs = drop (sent + n) data \<and> [] \<notin> set xs \<and> tcp_pending t2 = tcp_pending t1 @ es \<and>
        holds_texts (if_dev iface) ?p (snd_nxt ?p) xs es \<and> queued_texts (snd_nxt ?p) xs ys \<and>
        (\<forall>f. tcp_get f t2 = (if f = c then Some (?p\<lparr>t_queue := t_queue ?p @ ys,
           snd_nxt := snd_nxt ?p + of_nat (length data - (sent + n))\<rparr>) else tcp_get f t1))"
      by (rule Suc.IH [OF loop1]) (use get1 Suc.prems(3-10) cap n pass(7) in auto)
    then obtain t2 xs es ys where ih: "send_loop (send_pass c data) fuel wakes (sent + n) t1 = Some (Ok (length data), t2)"
      "lower t1 t2" "concat xs = drop (sent + n) data" "[] \<notin> set xs" "tcp_pending t2 = tcp_pending t1 @ es"
      "holds_texts (if_dev iface) ?p (snd_nxt ?p) xs es" "queued_texts (snd_nxt ?p) xs ys"
      and get2: "\<And>f. tcp_get f t2 = (if f = c then Some (?p\<lparr>t_queue := t_queue ?p @ ys,
           snd_nxt := snd_nxt ?p + of_nat (length data - (sent + n))\<rparr>) else tcp_get f t1)" by blast
    have "n + (length data - (sent + n)) = length data - sent" using n less by simp
    then have "(of_nat n + of_nat (length data - (sent + n)) :: u32) = of_nat (length data - sent)" by (metis of_nat_add)
    then have nxt: "snd_nxt p + of_nat n + of_nat (length data - (sent + n)) = snd_nxt p + of_nat (length data - sent)"
      by (simp add: add.assoc)
    have "concat (x # xs) = drop sent data" using slice_drop [of sent n data] ih(3) by (simp add: x_def)
    moreover have "x \<noteq> []" using pass(7, 8) by auto
    moreover have "holds_texts (if_dev iface) p (snd_nxt p) (x # xs) (e # es)"
      using pass(4, 8) ih(6) holds_texts_cong [of ?p p] by simp
    moreover have "queued_texts (snd_nxt p) (x # xs) (y # ys)" using pass(5, 6, 8) ih(7) by simp
    moreover have "send_loop (send_pass c data) (Suc fuel) wakes sent t = Some (Ok (length data), t2)"
      using pass(1) ih(1) by simp
    moreover have "\<forall>f. tcp_get f t2 = (if f = c then Some (p\<lparr>t_queue := t_queue p @ y # ys,
        snd_nxt := snd_nxt p + of_nat (length data - sent)\<rparr>) else tcp_get f t)"
      using get2 get1 nxt by simp
    ultimately show ?thesis
      using lower_trans [OF pass(2) ih(2)] ih(4, 5) pass(3)
      by (intro exI [of _ t2] exI [of _ "x # xs"] exI [of _ "e # es"] exI [of _ "y # ys"]) simp
  qed
qed simp

section \<open>Receiving\<close>

lemma softirq_handler_step: "softirq_step s = Some s' \<Longrightarrow> softirq_handler (Suc k) s = softirq_handler k s'"
  by simp

lemma softirq_handler_idle: "input_queue (st_link s) = [] \<Longrightarrow> softirq_handler (Suc k) s = Some s"
  by (simp add: softirq_step_def softirq_pop_def)

text \<open>The packet with the next text at the head of the queue: the text is appended, and its acknowledgment waits.\<close>

lemma receive_head:
  assumes loop: "tcp_loop (tcp_view s) a iface dev" and queue: "input_queue (st_link s) = e # es"
    and e: "holds_segment (if_dev iface) (rcv_nxt q) (snd_nxt q) (TCP_FLG_ACK OR TCP_FLG_PSH) w x (t_remote q) (t_local q) e"
    and q: "tcp_get d (tcp_view s) = Some q" "t_state q = Established" and only: "only_match (t_local q) (t_remote q) d (tcp_view s)"
    and addr: "addr (t_local q) = a" "addr (t_remote q) = a" and una: "snd_una q = snd_nxt q"
    and x: "x \<noteq> []" "length x \<le> unat (rcv_wnd q)" and wrap: "unat (rcv_nxt q) + unat (rcv_wnd q) < 2 ^ 32"
  shows "\<exists>t1 b. softirq_step s = Some (tcp_store t1 s) \<and> tcp_loop t1 a iface dev \<and> tcp_pending t1 = es @ [b] \<and>
    holds_segment (if_dev iface) (snd_nxt q) (rcv_nxt q + of_nat (length x)) TCP_FLG_ACK
      (rcv_wnd q - of_nat (length x)) [] (t_local q) (t_remote q) b \<and>
    only_match (t_local q) (t_remote q) d t1 \<and>
    (\<forall>f. tcp_get f t1 = (if f = d then Some (q\<lparr>t_buf := t_buf q @ x, rcv_nxt := rcv_nxt q + of_nat (length x),
       rcv_wnd := rcv_wnd q - of_nat (length x)\<rparr>) else tcp_get f (tcp_view s)))"
proof -
  let ?AP = "TCP_FLG_ACK OR TCP_FLG_PSH" and ?t = "tcp_view s"
  define t1 where "t1 = segment_arrives (sent_seg (rcv_nxt q) (snd_nxt q) ?AP w x) ?AP x (t_local q) (t_remote q) (tcp_rest ?t)"
  have sel: "tcp_pcb_select (t_local q) (t_remote q) (tcp_rest ?t) = Some d"
    using select_only [OF q(1) refl refl _ only] q(2) by simp
  have plain: "plain_ack ?AP" by (simp add: plain_ack_def flag_isset_def tcp_flags)
  note tl = text_loop [of "tcp_rest ?t" a iface dev d q, OF _ _ _ sel refl refl addr plain _ _ una x wrap t1_def]
  have get1: "\<forall>f. tcp_get f t1 = (if f = d then Some (q\<lparr>t_buf := t_buf q @ x, rcv_nxt := rcv_nxt q + of_nat (length x),
      rcv_wnd := rcv_wnd q - of_nat (length x)\<rparr>) else tcp_get f ?t)"
    using tl(1) loop q by simp
  have only1: "only_match (t_local q) (t_remote q) d t1" by (rule only_match_cong [OF only]) (use get1 in auto)
  have step: "softirq_step s = Some (tcp_store t1 s)"
    using softirq_head [OF loop _ _ _ e] queue addr by (simp add: t1_def)
  have loop1: "tcp_loop t1 a iface dev"
    unfolding t1_def using tcp_loop_extends [OF _ segment_arrives_ip, of "tcp_rest ?t" a iface dev] loop by simp
  show ?thesis using tl(2) loop q queue step loop1 get1 only1 by auto
qed

text \<open>A train at the receiving end: the text is appended piece by piece, and an acknowledgment for each piece waits.\<close>

lemma receive_train:
  assumes "tcp_loop (tcp_view s) a iface dev" and "input_queue (st_link s) = es @ as"
    and "holds_texts (if_dev iface) p (rcv_nxt q) xs es" and "[] \<notin> set xs"
    and "tcp_get d (tcp_view s) = Some q" and "t_state q = Established" and "only_match (t_local q) (t_remote q) d (tcp_view s)"
    and "t_local p = t_remote q" and "t_remote p = t_local q" and "addr (t_local q) = a" and "addr (t_remote q) = a"
    and "rcv_nxt p = snd_nxt q" and "snd_una q = snd_nxt q"
    and "length (concat xs) \<le> unat (rcv_wnd q)" and "unat (rcv_nxt q) + unat (rcv_wnd q) < 2 ^ 32"
  shows "\<exists>s' bs. (\<forall>k. softirq_handler (length xs + k) s = softirq_handler k s') \<and>
    tcp_loop (tcp_view s') a iface dev \<and> input_queue (st_link s') = as @ bs \<and>
    holds_acks (if_dev iface) q (rcv_nxt q) (rcv_wnd q) xs bs \<and>
    (\<forall>f. tcp_get f (tcp_view s') = (if f = d then Some (q\<lparr>t_buf := t_buf q @ concat xs,
       rcv_nxt := rcv_nxt q + of_nat (length (concat xs)), rcv_wnd := rcv_wnd q - of_nat (length (concat xs))\<rparr>)
     else tcp_get f (tcp_view s)))"
  using assms
proof (induction xs arbitrary: s q es as)
  case Nil
  then show ?case by (intro exI [of _ s] exI [of _ "[]"]) auto
next
  case (Cons x xs)
  let ?AP = "TCP_FLG_ACK OR TCP_FLG_PSH" and ?N = "of_nat (length x) :: u32" and ?t = "tcp_view s"
  obtain e es' where e: "es = e # es'" "holds_segment (if_dev iface) (rcv_nxt q) (rcv_nxt p) ?AP (rcv_wnd p) x (t_local p) (t_remote p) e"
    and texts: "holds_texts (if_dev iface) p (rcv_nxt q + ?N) xs es'"
    using Cons.prems(3) by auto
  have x: "x \<noteq> []" "[] \<notin> set xs" using Cons.prems(4) by auto
  have fit: "length x \<le> unat (rcv_wnd q)" "length (concat xs) \<le> unat (rcv_wnd q) - length x"
    using Cons.prems(14) by auto
  let ?q = "q\<lparr>t_buf := t_buf q @ x, rcv_nxt := rcv_nxt q + ?N, rcv_wnd := rcv_wnd q - of_nat (length x)\<rparr>"
  have queue: "input_queue (st_link s) = e # (es' @ as)" using Cons.prems(2) e(1) by simp
  obtain t1 b where step: "softirq_step s = Some (tcp_store t1 s)" and loop1: "tcp_loop t1 a iface dev"
    and b: "tcp_pending t1 = es' @ as @ [b]" "holds_segment (if_dev iface) (snd_nxt q) (rcv_nxt q + ?N) TCP_FLG_ACK
      (rcv_wnd q - of_nat (length x)) [] (t_local q) (t_remote q) b"
    and only1: "only_match (t_local q) (t_remote q) d t1"
    and get1: "\<And>f. tcp_get f t1 = (if f = d then Some ?q else tcp_get f ?t)"
    using receive_head [OF Cons.prems(1) queue e(2) [unfolded Cons.prems(8, 9, 12)] Cons.prems(5-7, 10, 11, 13) x(1) fit(1) Cons.prems(15)]
    by auto
  have grow: "unat (rcv_nxt q + ?N) = unat (rcv_nxt q) + length x"
    using Cons.prems(15) fit(1) unat_u16_less [of "rcv_wnd q"] by (simp add: unat_word_ariths unat_of_nat_u32)
  have wnd: "unat (rcv_wnd q - of_nat (length x)) = unat (rcv_wnd q) - length x" using fit(1) by (rule unat_sub_u16)
  have "\<exists>s' bs. (\<forall>k. softirq_handler (length xs + k) (tcp_store t1 s) = softirq_handler k s') \<and>
      tcp_loop (tcp_view s') a iface dev \<and> input_queue (st_link s') = (as @ [b]) @ bs \<and>
      holds_acks (if_dev iface) ?q (rcv_nxt ?q) (rcv_wnd ?q) xs bs \<and>
      (\<forall>f. tcp_get f (tcp_view s') = (if f = d then Some (?q\<lparr>t_buf := t_buf ?q @ concat xs,
         rcv_nxt := rcv_nxt ?q + of_nat (length (concat xs)), rcv_wnd := rcv_wnd ?q - of_nat (length (concat xs))\<rparr>)
       else tcp_get f (tcp_view (tcp_store t1 s))))"
    by (rule Cons.IH [of _ es'])
      (use loop1 b(1) texts x(2) get1 only1 Cons.prems(6, 8-13, 15) fit grow wnd in simp_all)
  then obtain s' bs where ih: "\<And>k. softirq_handler (length xs + k) (tcp_store t1 s) = softirq_handler k s'"
    "tcp_loop (tcp_view s') a iface dev" "input_queue (st_link s') = as @ b # bs"
    "holds_acks (if_dev iface) ?q (rcv_nxt ?q) (rcv_wnd ?q) xs bs"
    "\<And>f. tcp_get f (tcp_view s') = (if f = d then Some (?q\<lparr>t_buf := t_buf ?q @ concat xs,
         rcv_nxt := rcv_nxt ?q + of_nat (length (concat xs)), rcv_wnd := rcv_wnd ?q - of_nat (length (concat xs))\<rparr>)
       else tcp_get f t1)" by auto
  have "softirq_handler (length (x # xs) + k) s = softirq_handler k s'" for k
    using ih(1) [of k] step by simp
  moreover have "holds_acks (if_dev iface) q (rcv_nxt q) (rcv_wnd q) (x # xs) (b # bs)"
    using b(2) ih(4) holds_acks_cong [of ?q q] by simp
  moreover have "\<forall>f. tcp_get f (tcp_view s') = (if f = d then Some (q\<lparr>t_buf := t_buf q @ concat (x # xs),
       rcv_nxt := rcv_nxt q + of_nat (length (concat (x # xs))), rcv_wnd := rcv_wnd q - of_nat (length (concat (x # xs)))\<rparr>)
     else tcp_get f ?t)"
    using ih(5) get1 by (simp add: algebra_simps)
  ultimately show ?case using ih(2, 3) by (intro exI [of _ s'] exI [of _ "b # bs"]) auto
qed

section \<open>The acknowledgments\<close>

lemma unat_add_u32:
  fixes n :: u32
  assumes "unat n + k < 2 ^ 32"
  shows "unat (n + of_nat k) = unat n + k" and "0 < k \<Longrightarrow> n < n + of_nat k"
proof -
  show *: "unat (n + of_nat k) = unat n + k" using assms by (simp add: unat_word_ariths unat_of_nat_u32)
  show "0 < k \<Longrightarrow> n < n + of_nat k" using * by (simp add: word_less_nat_alt)
qed

lemma queued_texts_acked:
  assumes "queued_texts n (x # xs) qs" and "[] \<notin> set (x # xs)" and "unat n + length (concat (x # xs)) < 2 ^ 32"
  shows "drop_acked (n + of_nat (length x)) qs = tl qs" and "queued_texts (n + of_nat (length x)) xs (tl qs)"
proof -
  let ?m = "n + of_nat (length x) :: u32"
  obtain q qs' where qs: "qs = q # qs'" "q_seq q = n" "q_consume q = of_nat (length x)" "queued_texts ?m xs qs'"
    using assms(1) by auto
  have m: "unat ?m = unat n + length x" using assms(3) by (intro unat_add_u32) simp
  have "drop_acked ?m qs' = qs'"
  proof (cases xs)
    case (Cons y ys)
    then obtain r rs where r: "qs' = r # rs" "q_seq r = ?m" "q_consume r = of_nat (length y)" using qs(4) by auto
    have "?m < ?m + of_nat (length y)" using assms(2, 3) Cons m by (intro unat_add_u32) auto
    then show ?thesis using r by (simp add: drop_acked_dropWhile not_le)
  qed (use qs(4) in simp)
  then show "drop_acked ?m qs = tl qs" "queued_texts ?m xs (tl qs)" using qs by (simp_all add: drop_acked_dropWhile)
qed

text \<open>The acknowledgment of the oldest segment at the head of the queue.\<close>

lemma ack_head:
  assumes loop: "tcp_loop (tcp_view s) a iface dev" and queue: "input_queue (st_link s) = e # es"
    and e: "holds_segment (if_dev iface) (rcv_nxt p) m TCP_FLG_ACK v [] (t_remote p) (t_local p) e"
    and p: "tcp_get c (tcp_view s) = Some p" "t_state p = Established" and only: "only_match (t_local p) (t_remote p) c (tcp_view s)"
    and addr: "addr (t_local p) = a" "addr (t_remote p) = a" and m: "snd_una p < m" "m \<le> snd_nxt p"
    and wl: "snd_wl1 p \<le> rcv_nxt p" "snd_wl2 p \<le> m" and wrap: "unat (rcv_nxt p) + unat (rcv_wnd p) < 2 ^ 32"
  shows "\<exists>t1. softirq_step s = Some (tcp_store t1 s) \<and> tcp_loop t1 a iface dev \<and> tcp_pending t1 = es \<and>
    only_match (t_local p) (t_remote p) c t1 \<and>
    (\<forall>f. tcp_get f t1 = (if f = c then Some (p\<lparr>snd_una := m, t_queue := drop_acked m (t_queue p), snd_wnd := v,
       snd_wl1 := rcv_nxt p, snd_wl2 := m\<rparr>) else tcp_get f (tcp_view s)))"
proof -
  let ?t = "tcp_view s"
  define t1 where "t1 = segment_arrives (sent_seg (rcv_nxt p) m TCP_FLG_ACK v []) TCP_FLG_ACK [] (t_local p) (t_remote p) (tcp_rest ?t)"
  have sel: "tcp_pcb_select (t_local p) (t_remote p) (tcp_rest ?t) = Some c"
    using select_only [OF p(1) refl refl _ only] p(2) by simp
  note ack = ack_part_loop [of c "tcp_rest ?t" p, OF _ p(2) sel _ _ _ sent_ack_len wl(1) _ wrap t1_def]
  have get1: "\<forall>f. tcp_get f t1 = (if f = c then Some (p\<lparr>snd_una := m, t_queue := drop_acked m (t_queue p), snd_wnd := v,
      snd_wl1 := rcv_nxt p, snd_wl2 := m\<rparr>) else tcp_get f ?t)"
    using ack(1) p(1) m wl(2) by simp
  have "tcp_pending t1 = es" using ack(2) p(1) m wl(2) queue by simp
  moreover have "softirq_step s = Some (tcp_store t1 s)"
    using softirq_head [OF loop _ _ _ e] queue addr by (simp add: t1_def)
  moreover have "tcp_loop t1 a iface dev"
    unfolding t1_def using tcp_loop_extends [OF _ segment_arrives_ip, of "tcp_rest ?t" a iface dev] loop by simp
  moreover have "only_match (t_local p) (t_remote p) c t1" by (rule only_match_cong [OF only]) (use get1 in auto)
  ultimately show ?thesis using get1 by blast
qed

text \<open>All acknowledgments of a train at the sending end: nothing is under way any more.\<close>

lemma ack_train:
  assumes "tcp_loop (tcp_view s) a iface dev" and "input_queue (st_link s) = es" and "holds_acks (if_dev iface) q n w xs es"
    and "[] \<notin> set xs" and "tcp_get c (tcp_view s) = Some p" and "t_state p = Established"
    and "only_match (t_local p) (t_remote p) c (tcp_view s)"
    and "t_local q = t_remote p" and "t_remote q = t_local p" and "addr (t_local p) = a" and "addr (t_remote p) = a"
    and "snd_una p = n" and "snd_nxt p = n + of_nat (length (concat xs))" and "queued_texts n xs (t_queue p)"
    and "snd_nxt q = rcv_nxt p" and "snd_wl1 p \<le> rcv_nxt p" and "snd_wl2 p \<le> n"
    and "unat (rcv_nxt p) + unat (rcv_wnd p) < 2 ^ 32" and "unat n + length (concat xs) < 2 ^ 32"
  shows "\<exists>s' l1 l2. (\<forall>k. softirq_handler (length xs + k) s = softirq_handler k s') \<and>
    tcp_loop (tcp_view s') a iface dev \<and> input_queue (st_link s') = [] \<and>
    l1 \<le> rcv_nxt p \<and> l2 \<le> snd_nxt p \<and>
    (\<forall>f. tcp_get f (tcp_view s') = (if f = c then Some (p\<lparr>snd_una := snd_nxt p, t_queue := [],
       snd_wnd := (if xs = [] then snd_wnd p else w - of_nat (length (concat xs))), snd_wl1 := l1, snd_wl2 := l2\<rparr>)
     else tcp_get f (tcp_view s)))"
  using assms
proof (induction xs arbitrary: s p es n w)
  case Nil
  then have "p\<lparr>snd_una := snd_nxt p, t_queue := [], snd_wnd := snd_wnd p, snd_wl1 := snd_wl1 p, snd_wl2 := snd_wl2 p\<rparr> = p"
    by simp
  with Nil show ?case by (intro exI [of _ s] exI [of _ "snd_wl1 p"] exI [of _ "snd_wl2 p"]) auto
next
  case (Cons x xs)
  let ?m = "n + of_nat (length x) :: u32" and ?v = "w - of_nat (length x)" and ?t = "tcp_view s"
  obtain e es' where e: "es = e # es'" "holds_segment (if_dev iface) (snd_nxt q) ?m TCP_FLG_ACK ?v [] (t_local q) (t_remote q) e"
    and acks: "holds_acks (if_dev iface) q ?m ?v xs es'"
    using Cons.prems(3) by auto
  note acked = queued_texts_acked [OF Cons.prems(14) Cons.prems(4, 19)]
  have "0 < length x" using Cons.prems(4) by auto
  then have less: "n < ?m" and m: "unat ?m = unat n + length x"
    using unat_add_u32 [of n "length x"] Cons.prems(19) by simp_all
  have nxt: "snd_nxt p = ?m + of_nat (length (concat xs))" using Cons.prems(13) by (simp add: add.assoc)
  have le: "?m \<le> snd_nxt p"
    using unat_add_u32(1) [of ?m "length (concat xs)"] m Cons.prems(19) unfolding nxt by (simp add: word_le_nat_alt)
  have wl2: "snd_wl2 p \<le> ?m" and una: "snd_una p < ?m" using Cons.prems(12, 17) less by simp_all
  let ?p = "p\<lparr>snd_una := ?m, t_queue := tl (t_queue p), snd_wnd := ?v, snd_wl1 := rcv_nxt p, snd_wl2 := ?m\<rparr>"
  obtain t1 where step: "softirq_step s = Some (tcp_store t1 s)" and loop1: "tcp_loop t1 a iface dev" and pend: "tcp_pending t1 = es'"
    and only1: "only_match (t_local p) (t_remote p) c t1" and get1: "\<And>f. tcp_get f t1 = (if f = c then Some ?p else tcp_get f ?t)"
    using ack_head [OF Cons.prems(1) Cons.prems(2) [unfolded e(1)] e(2) [unfolded Cons.prems(8, 9, 15)] Cons.prems(5-7, 10, 11)
        una le Cons.prems(16) wl2 Cons.prems(18)] acked(1) by auto
  have "\<exists>s' l1 l2. (\<forall>k. softirq_handler (length xs + k) (tcp_store t1 s) = softirq_handler k s') \<and>
      tcp_loop (tcp_view s') a iface dev \<and> input_queue (st_link s') = [] \<and>
      l1 \<le> rcv_nxt ?p \<and> l2 \<le> snd_nxt ?p \<and>
      (\<forall>f. tcp_get f (tcp_view s') = (if f = c then Some (?p\<lparr>snd_una := snd_nxt ?p, t_queue := [],
         snd_wnd := (if xs = [] then snd_wnd ?p else ?v - of_nat (length (concat xs))), snd_wl1 := l1, snd_wl2 := l2\<rparr>)
       else tcp_get f (tcp_view (tcp_store t1 s))))"
    by (rule Cons.IH [of _ es' ?m ?v])
      (use loop1 pend acks get1 only1 Cons.prems(4, 6, 8-11, 15, 18, 19) nxt acked(2) m in simp_all)
  then obtain s' l1 l2 where ih: "\<And>k. softirq_handler (length xs + k) (tcp_store t1 s) = softirq_handler k s'"
    "tcp_loop (tcp_view s') a iface dev" "input_queue (st_link s') = []" "l1 \<le> rcv_nxt p" "l2 \<le> snd_nxt p"
    "\<And>f. tcp_get f (tcp_view s') = (if f = c then Some (?p\<lparr>snd_una := snd_nxt ?p, t_queue := [],
         snd_wnd := (if xs = [] then snd_wnd ?p else ?v - of_nat (length (concat xs))), snd_wl1 := l1, snd_wl2 := l2\<rparr>)
       else tcp_get f t1)" by auto
  have "softirq_handler (length (x # xs) + k) s = softirq_handler k s'" for k using ih(1) [of k] step by simp
  moreover have "\<forall>f. tcp_get f (tcp_view s') = (if f = c then Some (p\<lparr>snd_una := snd_nxt p, t_queue := [],
       snd_wnd := w - of_nat (length (concat (x # xs))), snd_wl1 := l1, snd_wl2 := l2\<rparr>) else tcp_get f ?t)"
    using ih(6) get1 by (simp add: algebra_simps)
  ultimately show ?case using ih(2-5) by (intro exI [of _ s'] exI [of _ l1] exI [of _ l2]) auto
qed

section \<open>The whole transfer\<close>

lemma length_le_concat: "[] \<notin> set xs \<Longrightarrow> length xs \<le> length (concat xs)"
proof (induction xs)
  case (Cons x xs)
  then have "1 \<le> length x" by (cases x) auto
  with Cons show ?case by simp
qed simp

text \<open>The two ends agree again when all is acknowledged.\<close>

lemma stream_linked:
  fixes data :: bytes
  assumes linked: "tcp_linked t a c d" and p: "tcp_get c t = Some p" and q: "tcp_get d t = Some q"
    and fit: "unat (rcv_nxt q) + length data < 2 ^ 32"
    and p': "p' = p\<lparr>snd_nxt := snd_nxt p + of_nat (length data), snd_una := snd_nxt p + of_nat (length data), t_queue := [],
      snd_wnd := rcv_wnd q - of_nat (length data), snd_wl1 := l1, snd_wl2 := l2\<rparr>"
    and l: "l1 \<le> rcv_nxt p" "l2 \<le> snd_nxt p + of_nat (length data)"
    and q': "q' = q\<lparr>t_buf := buf, rcv_nxt := rcv_nxt q + of_nat (length data), rcv_wnd := rcv_wnd q - of_nat (length data)\<rparr>"
    and get: "\<And>f. tcp_get f t' = (if f = c then Some p' else if f = d then Some q' else tcp_get f t)"
  shows "tcp_linked t' a c d"
proof -
  have c: "c \<noteq> d" "end_ok p" "end_ok q" "mirrors p q" "mirrors q p" "addr (t_local p) = a" "addr (t_local q) = a"
    and only: "only_match (t_local p) (t_remote p) c t" "only_match (t_local q) (t_remote q) d t"
    using linked p q by (auto simp: tcp_linked_def)
  note ends = c(2, 3) [unfolded end_ok_def] and mir = c(4, 5) [unfolded mirrors_def]
  have only': "only_match loc rem f t'" if "only_match loc rem f t" for loc rem f
    by (rule only_match_cong [OF that]) (use get p q c(1) in \<open>auto simp: p' q' tcp_match_def split: if_splits\<close>)
  have "rcv_nxt q \<le> rcv_nxt q + of_nat (length data)" using unat_add_u32(1) [OF fit] by (simp add: word_le_nat_alt)
  then have "snd_wl1 q \<le> rcv_nxt q + of_nat (length data)" using ends(2) by (blast intro: order_trans)
  moreover have "snd_wl2 q \<le> rcv_nxt p" using ends mir by auto
  moreover have "tcp_get c t' = Some p'" "tcp_get d t' = Some q'" using get c(1) by simp_all
  ultimately show ?thesis
    unfolding tcp_linked_def using c(1, 6, 7) ends mir l only' [OF only(1)] only' [OF only(2)]
    by (simp add: end_ok_def mirrors_def p' q')
qed

text \<open>
  What one end of a connection at rest sends, the other end gets, in any number of segments: the
  loop of \<open>send\<close> makes at most a pass for every byte and one more, the handler at most two for every
  byte and one more.
\<close>

lemma stream_over_loopback:
  assumes loop: "tcp_loop (tcp_view s) a iface dev" and empty: "input_queue (st_link s) = []"
    and linked: "tcp_linked (tcp_view s) a c d"
    and p: "tcp_get c (tcp_view s) = Some p" and q: "tcp_get d (tcp_view s) = Some q"
    and data: "data \<noteq> []" "length data \<le> unat (snd_wnd p)" "length data < fuel" "2 * length data < steps"
    and mss: "t_mss p \<noteq> 0" "40 + unat (t_mss p) \<le> unat (dev_mtu dev)"
    and wrap: "unat (rcv_nxt p) + unat (rcv_wnd p) < 2 ^ 32" "unat (rcv_nxt q) + unat (rcv_wnd q) < 2 ^ 32"
  shows "\<exists>t1 s' p' q'. tcp_send fuel c data wakes (tcp_view s) = Some (Ok (length data), t1) \<and>
    softirq_handler steps (tcp_store t1 s) = Some s' \<and>
    input_queue (st_link s') = [] \<and> tcp_loop (tcp_view s') a iface dev \<and> tcp_linked (tcp_view s') a c d \<and>
    tcp_get c (tcp_view s') = Some p' \<and> tcp_get d (tcp_view s') = Some q' \<and>
    t_mss p' = t_mss p \<and> t_buf p' = t_buf p \<and> rcv_nxt p' = rcv_nxt p \<and> rcv_wnd p' = rcv_wnd p \<and> snd_wnd p' = rcv_wnd q' \<and>
    t_mss q' = t_mss q \<and> snd_wnd q' = snd_wnd q \<and>
    t_buf q' = t_buf q @ data \<and> rcv_wnd q' = rcv_wnd q - of_nat (length data) \<and>
    rcv_nxt q' = rcv_nxt q + of_nat (length data)"
proof -
  let ?t = "tcp_view s" and ?i = "if_dev iface" and ?N = "of_nat (length data) :: u32"
  have c: "c \<noteq> d" "end_ok p" "end_ok q" "mirrors p q" "mirrors q p" "addr (t_local p) = a" "addr (t_local q) = a"
    and only: "only_match (t_local p) (t_remote p) c ?t" "only_match (t_local q) (t_remote q) d ?t"
    using linked p q by (auto simp: tcp_linked_def)
  note ends = c(2, 3) [unfolded end_ok_def] and mir = c(4, 5) [unfolded mirrors_def]
  have addr: "addr (t_remote p) = a" "addr (t_remote q) = a" using mir c(6, 7) by simp_all
  have est: "t_state p = Established" "t_state q = Established" and cap: "length data - 0 \<le> send_cap p"
    using ends data(2) by (simp_all add: send_cap_def)
  have wl2: "snd_wl2 p \<le> rcv_nxt q" using ends mir by auto
  have fit: "length data \<le> unat (rcv_wnd q)" using mir data(2) by (simp add: word_le_nat_alt)
  obtain t1 xs es ys where send: "tcp_send fuel c data wakes ?t = Some (Ok (length data), t1)" "lower ?t t1"
    and xs: "concat xs = data" "[] \<notin> set xs" and train: "tcp_pending t1 = es" "holds_texts ?i p (snd_nxt p) xs es"
    "queued_texts (snd_nxt p) xs ys"
    and get1: "\<And>f. tcp_get f t1 = (if f = c then Some (p\<lparr>t_queue := ys, snd_nxt := snd_nxt p + ?N\<rparr>) else tcp_get f ?t)"
    using send_train [OF loop p est(1) c(6) addr(1) le0 cap mss, of fuel wakes] data(3) empty ends
    unfolding tcp_send_def by auto
  let ?p = "p\<lparr>t_queue := ys, snd_nxt := snd_nxt p + ?N\<rparr>"
  have loop1: "tcp_loop t1 a iface dev" using send(2) by (intro tcp_loop_extends [OF loop]) (simp add: lower_def)
  have only1: "only_match loc rem f t1" if "only_match loc rem f ?t" for loc rem f
    by (rule only_match_cong [OF that]) (use get1 p in \<open>auto simp: tcp_match_def split: if_splits\<close>)
  let ?q = "q\<lparr>t_buf := t_buf q @ concat xs, rcv_nxt := rcv_nxt q + of_nat (length (concat xs)),
    rcv_wnd := rcv_wnd q - of_nat (length (concat xs))\<rparr>"
  have "\<exists>s' bs. (\<forall>k. softirq_handler (length xs + k) (tcp_store t1 s) = softirq_handler k s') \<and>
      tcp_loop (tcp_view s') a iface dev \<and> input_queue (st_link s') = [] @ bs \<and>
      holds_acks ?i q (rcv_nxt q) (rcv_wnd q) xs bs \<and>
      (\<forall>f. tcp_get f (tcp_view s') = (if f = d then Some ?q else tcp_get f (tcp_view (tcp_store t1 s))))"
    by (rule receive_train [of _ _ _ _ es "[]" p])
      (use loop1 train xs get1 c(1) q est(2) only1 [OF only(2)] mir c(6, 7) ends fit wrap(2) in simp_all)
  then obtain s2 bs where s2: "\<And>k. softirq_handler (length xs + k) (tcp_store t1 s) = softirq_handler k s2"
    "tcp_loop (tcp_view s2) a iface dev" "input_queue (st_link s2) = bs" "holds_acks ?i q (rcv_nxt q) (rcv_wnd q) xs bs"
    and get2: "\<And>f. tcp_get f (tcp_view s2) = (if f = d then Some ?q else tcp_get f t1)" by auto
  have only2: "only_match loc rem f (tcp_view s2)" if "only_match loc rem f ?t" for loc rem f
    by (rule only_match_cong [OF only1 [OF that]]) (use get2 get1 c(1) q in \<open>auto simp: tcp_match_def split: if_splits\<close>)
  have "\<exists>s' l1 l2. (\<forall>k. softirq_handler (length xs + k) s2 = softirq_handler k s') \<and>
      tcp_loop (tcp_view s') a iface dev \<and> input_queue (st_link s') = [] \<and> l1 \<le> rcv_nxt ?p \<and> l2 \<le> snd_nxt ?p \<and>
      (\<forall>f. tcp_get f (tcp_view s') = (if f = c then Some (?p\<lparr>snd_una := snd_nxt ?p, t_queue := [],
         snd_wnd := (if xs = [] then snd_wnd ?p else rcv_wnd q - of_nat (length (concat xs))), snd_wl1 := l1, snd_wl2 := l2\<rparr>)
       else tcp_get f (tcp_view s2)))"
    by (rule ack_train [of _ _ _ _ bs q "rcv_nxt q"])
      (use s2 xs get2 get1 c(1) p est(1) only2 [OF only(1)] mir c(6, 7) ends train(3) wrap fit wl2 in simp_all)
  moreover have ne: "xs \<noteq> []" using xs(1) data(1) by auto
  ultimately obtain s3 l1 l2 where s3: "\<And>k. softirq_handler (length xs + k) s2 = softirq_handler k s3"
    "tcp_loop (tcp_view s3) a iface dev" "input_queue (st_link s3) = []" "l1 \<le> rcv_nxt p" "l2 \<le> snd_nxt p + ?N"
    and get3: "\<And>f. tcp_get f (tcp_view s3) = (if f = c then Some (?p\<lparr>snd_una := snd_nxt ?p, t_queue := [],
         snd_wnd := rcv_wnd q - of_nat (length data), snd_wl1 := l1, snd_wl2 := l2\<rparr>)
       else tcp_get f (tcp_view s2))"
    unfolding if_not_P [OF ne] xs(1) by auto
  let ?p' = "?p\<lparr>snd_una := snd_nxt ?p, t_queue := [], snd_wnd := rcv_wnd q - of_nat (length data), snd_wl1 := l1, snd_wl2 := l2\<rparr>"
  have g: "tcp_get c (tcp_view s3) = Some ?p'" "tcp_get d (tcp_view s3) = Some ?q" using get3 get2 c(1) by simp_all
  have "unat (rcv_nxt q) + length data < 2 ^ 32" using wrap(2) fit by simp
  then have lk: "tcp_linked (tcp_view s3) a c d"
    by (rule stream_linked [OF linked p q _ _ s3(4, 5)]) (use get3 get2 get1 xs(1) in auto)
  have "2 * length xs < steps" using length_le_concat [OF xs(2)] xs(1) data(4) by simp
  then obtain k where "steps = length xs + (length xs + Suc k)"
    by (metis add.assoc add_Suc_right less_iff_Suc_add mult_2)
  then have "softirq_handler steps (tcp_store t1 s) = Some s3"
    using s2(1) s3(1) softirq_handler_idle [OF s3(3)] by (simp only:)
  with send(1) s3(2, 3) lk g xs(1) show ?thesis by (intro exI [of _ t1] exI [of _ s3] exI [of _ ?p'] exI [of _ ?q]) simp
qed

end
