(* ===== verification/Channel.thy ===== *)
theory Channel
  imports Stream
begin

text \<open>
  What an established connection promises to its users, as an abstract machine: a byte channel in
  each direction with a credit for the writer. The calls \<open>send\<close> and \<open>receive\<close> at both ends of a
  connection of the host with itself, with the software interrupt handler run between the calls,
  refine it.
\<close>

section \<open>Refinement of machines with a budget\<close>

text \<open>
  Operations that may be impossible in a state, and a sequence of them with its outputs.
\<close>

primrec run_ops :: "('op \<Rightarrow> 's \<Rightarrow> ('out \<times> 's) option) \<Rightarrow> 'op list \<Rightarrow> 's \<Rightarrow> ('out list \<times> 's) option" where
  "run_ops step [] s = Some ([], s)"
| "run_ops step (x # xs) s =
     (case step x s of
        None \<Rightarrow> None
      | Some (y, s') \<Rightarrow> map_option (map_prod ((#) y) id) (run_ops step xs s'))"

lemma run_ops_Cons: "run_ops step (x # xs) s = Some (zs, s'') \<longleftrightarrow>
    (\<exists>y s' ys. step x s = Some (y, s') \<and> run_ops step xs s' = Some (ys, s'') \<and> zs = y # ys)"
  by (auto split: option.splits)

text \<open>
  A simulation in which an operation uses up a part of a budget: here the sequence numbers that are
  left before the wrap-around.
\<close>

locale budget_simulation =
  fixes cost :: "'op \<Rightarrow> nat" and abs_step :: "'op \<Rightarrow> 'a \<Rightarrow> ('out \<times> 'a) option"
    and conc_step :: "'op \<Rightarrow> 's \<Rightarrow> ('out \<times> 's) option" and rel :: "nat \<Rightarrow> 's \<Rightarrow> 'a \<Rightarrow> bool"
  assumes simulates: "rel (cost x + k) s ch \<Longrightarrow> abs_step x ch = Some (y, ch') \<Longrightarrow>
    \<exists>s'. conc_step x s = Some (y, s') \<and> rel k s' ch'"
begin

lemma run_simulates:
  "rel (sum_list (map cost xs) + k) s ch \<Longrightarrow> run_ops abs_step xs ch = Some (ys, ch') \<Longrightarrow>
     \<exists>s'. run_ops conc_step xs s = Some (ys, s') \<and> rel k s' ch'"
proof (induction xs arbitrary: s ch ys)
  case (Cons x xs)
  then obtain y ch1 zs where run: "abs_step x ch = Some (y, ch1)" "run_ops abs_step xs ch1 = Some (zs, ch')" "ys = y # zs"
    unfolding run_ops_Cons by blast
  have "rel (cost x + (sum_list (map cost xs) + k)) s ch" using Cons.prems(1) by (simp add: add.assoc)
  from simulates [OF this run(1)] obtain s1 where s1: "conc_step x s = Some (y, s1)" "rel (sum_list (map cost xs) + k) s1 ch1"
    by blast
  from Cons.IH [OF s1(2) run(2)] s1(1) run(3) show ?case unfolding run_ops_Cons by blast
qed simp

end

section \<open>The abstract channel\<close>

text \<open>
  The bytes under way and the number of bytes the writer may still put in. A put renews the credit to
  the room that is left at the reader, because the reader acknowledges it; a take does not, because
  the reader says nothing.
\<close>

record channel =
  ch_data :: bytes
  ch_credit :: nat

datatype chan_op = Put bytes | Take nat

datatype chan_out = Wrote nat | Got bytes

fun chan_step :: "chan_op \<Rightarrow> channel \<Rightarrow> (chan_out \<times> channel) option" where
  "chan_step (Put data) ch =
     (if data \<noteq> [] \<and> length data \<le> ch_credit ch
      then Some (Wrote (length data), \<lparr>ch_data = ch_data ch @ data,
        ch_credit = RECV_BUF_SIZE - length (ch_data ch @ data)\<rparr>)
      else None)"
| "chan_step (Take n) ch =
     (if ch_data ch \<noteq> [] then Some (Got (take n (ch_data ch)), ch\<lparr>ch_data := drop n (ch_data ch)\<rparr>) else None)"

primrec put_bytes :: "chan_op \<Rightarrow> bytes" where
  "put_bytes (Put data) = data"
| "put_bytes (Take n) = []"

primrec got_bytes :: "chan_out \<Rightarrow> bytes" where
  "got_bytes (Wrote n) = []"
| "got_bytes (Got data) = data"

text \<open>The channel is a queue of bytes: nothing is lost, doubled, invented or moved.\<close>

lemma chan_step_fifo: "chan_step x ch = Some (y, ch') \<Longrightarrow> got_bytes y @ ch_data ch' = ch_data ch @ put_bytes x"
  by (cases x) (auto split: if_splits)

section \<open>The connection as a channel\<close>

text \<open>
  A put is a call of \<open>send\<close> followed by a run of the software interrupt handler, a take one pass of
  \<open>receive\<close> that does not have to wait.
\<close>

fun conn_step :: "nat \<Rightarrow> nat \<Rightarrow> chan_op \<Rightarrow> stack \<Rightarrow> (chan_out \<times> stack) option" where
  "conn_step c d (Put data) s =
     (case tcp_send (Suc (length data)) c data [] (tcp_view s) of
        Some (Ok n, t) \<Rightarrow> map_option (Pair (Wrote n)) (softirq_handler (Suc (2 * length data)) (tcp_store t s))
      | _ \<Rightarrow> None)"
| "conn_step c d (Take n) s =
     (case receive_pass d n (tcp_view s) of
        (Return (Ok data), t) \<Rightarrow> Some (Got data, tcp_store t s)
      | _ \<Rightarrow> None)"

definition is_channel :: "ip_addr \<Rightarrow> ip_iface \<Rightarrow> device \<Rightarrow> nat \<Rightarrow> nat \<Rightarrow> nat \<Rightarrow> stack \<Rightarrow> channel \<Rightarrow> bool" where
  "is_channel a iface dev c d k s ch \<longleftrightarrow>
     tcp_loop (tcp_view s) a iface dev \<and> input_queue (st_link s) = [] \<and> tcp_linked (tcp_view s) a c d \<and>
     (\<exists>p q. tcp_get c (tcp_view s) = Some p \<and> tcp_get d (tcp_view s) = Some q \<and>
        t_mss p \<noteq> 0 \<and> 40 + unat (t_mss p) \<le> unat (dev_mtu dev) \<and>
        unat (rcv_nxt p) + unat (rcv_wnd p) < 2 ^ 32 \<and> unat (rcv_nxt q) + RECV_BUF_SIZE + k < 2 ^ 32 \<and> win_ok q \<and>
        t_buf q = ch_data ch \<and> unat (snd_wnd p) = ch_credit ch)"

lemma put_simulates:
  assumes "is_channel a iface dev c d (length data + k) s ch" and "data \<noteq> []" and "length data \<le> ch_credit ch"
  shows "\<exists>s'. conn_step c d (Put data) s = Some (Wrote (length data), s') \<and>
    is_channel a iface dev c d k s' \<lparr>ch_data = ch_data ch @ data, ch_credit = RECV_BUF_SIZE - length (ch_data ch @ data)\<rparr> \<and>
    (\<forall>j other. is_channel a iface dev d c j s other \<longrightarrow> is_channel a iface dev d c j s' other)"
proof -
  obtain p q where s: "tcp_loop (tcp_view s) a iface dev" "input_queue (st_link s) = []" "tcp_linked (tcp_view s) a c d"
    and get: "tcp_get c (tcp_view s) = Some p" "tcp_get d (tcp_view s) = Some q"
    and p: "t_mss p \<noteq> 0" "40 + unat (t_mss p) \<le> unat (dev_mtu dev)" "unat (rcv_nxt p) + unat (rcv_wnd p) < 2 ^ 32"
    and q: "unat (rcv_nxt q) + RECV_BUF_SIZE + (length data + k) < 2 ^ 32" "win_ok q"
    and ch: "t_buf q = ch_data ch" "unat (snd_wnd p) = ch_credit ch"
    using assms(1) unfolding is_channel_def by blast
  have est: "t_state p = Established" "t_state q = Established" "length data \<le> unat (rcv_wnd q)"
    using s(3) get assms(3) ch(2) by (auto simp: tcp_linked_def end_ok_def mirrors_def word_le_nat_alt)
  then have wnd: "unat (rcv_wnd q) + length (ch_data ch) = RECV_BUF_SIZE" using q(2) ch(1) by (simp add: win_ok_def)
  then have "unat (rcv_nxt q) + unat (rcv_wnd q) < 2 ^ 32" using q(1) by simp
  from stream_over_loopback [OF s get assms(2) _ _ _ p(1, 2, 3) this, of "Suc (length data)" "Suc (2 * length data)" "[]"]
  obtain t1 s' p' q' where send: "tcp_send (Suc (length data)) c data [] (tcp_view s) = Some (Ok (length data), t1)"
    "softirq_handler (Suc (2 * length data)) (tcp_store t1 s) = Some s'" "input_queue (st_link s') = []"
    and s': "tcp_loop (tcp_view s') a iface dev" "tcp_linked (tcp_view s') a c d"
    "tcp_get c (tcp_view s') = Some p'" "tcp_get d (tcp_view s') = Some q'"
    and p': "t_mss p' = t_mss p" "rcv_nxt p' = rcv_nxt p" "rcv_wnd p' = rcv_wnd p" "snd_wnd p' = rcv_wnd q'" "t_buf p' = t_buf p"
    and q': "t_buf q' = t_buf q @ data" "rcv_wnd q' = rcv_wnd q - of_nat (length data)"
    "rcv_nxt q' = rcv_nxt q + of_nat (length data)" "t_mss q' = t_mss q" "snd_wnd q' = snd_wnd q"
    using assms(3) ch(2) by auto
  have "unat (rcv_wnd q') = unat (rcv_wnd q) - length data" using q'(2) est(3) by (simp add: unat_sub_u16)
  then have wnd': "unat (rcv_wnd q') + length (ch_data ch @ data) = RECV_BUF_SIZE" using wnd est(3) by simp
  have est': "t_state p' = Established" "t_state q' = Established" using s'(2-4) by (auto simp: tcp_linked_def end_ok_def)
  have nxt: "unat (rcv_nxt q') = unat (rcv_nxt q) + length data"
    unfolding q'(3) by (rule unat_add_u32(1)) (use q(1) in simp)
  have "win_ok q'" using wnd' q'(1) ch(1) est'(2) by (simp add: win_ok_def)
  moreover have "unat (snd_wnd p') = RECV_BUF_SIZE - length (ch_data ch @ data)" using p'(4) wnd' by simp
  ultimately have "is_channel a iface dev c d k s' \<lparr>ch_data = ch_data ch @ data,
      ch_credit = RECV_BUF_SIZE - length (ch_data ch @ data)\<rparr>"
    unfolding is_channel_def using s' send(3) p p'(1-3) q(1) q'(1) ch(1) nxt by simp
  moreover have "is_channel a iface dev d c j s' other" if "is_channel a iface dev d c j s other" for j other
    using that s' send(3) get p'(2, 3, 5) q'(4, 5) q(1) nxt wnd' est(1) est'(1) tcp_linked_sym [OF s'(2)]
    by (auto simp: is_channel_def win_ok_def)
  ultimately show ?thesis using send by (simp del: softirq_handler.simps)
qed

lemma take_simulates:
  assumes "is_channel a iface dev c d k s ch" and "ch_data ch \<noteq> []"
  shows "\<exists>s'. conn_step c d (Take n) s = Some (Got (take n (ch_data ch)), s') \<and>
    is_channel a iface dev c d k s' (ch\<lparr>ch_data := drop n (ch_data ch)\<rparr>) \<and>
    (\<forall>j other. is_channel a iface dev d c j s other \<longrightarrow> is_channel a iface dev d c j s' other)"
proof -
  obtain p q where s: "tcp_loop (tcp_view s) a iface dev" "input_queue (st_link s) = []" "tcp_linked (tcp_view s) a c d"
    and get: "tcp_get c (tcp_view s) = Some p" "tcp_get d (tcp_view s) = Some q"
    and p: "t_mss p \<noteq> 0" "40 + unat (t_mss p) \<le> unat (dev_mtu dev)" "unat (rcv_nxt p) + unat (rcv_wnd p) < 2 ^ 32"
    and q: "unat (rcv_nxt q) + RECV_BUF_SIZE + k < 2 ^ 32" "win_ok q"
    and ch: "t_buf q = ch_data ch" "unat (snd_wnd p) = ch_credit ch"
    using assms(1) unfolding is_channel_def by blast
  note rd = receive_linked [OF s(3) get(2) q(2) assms(2) [folded ch(1)], of n]
  let ?t = "snd (receive_pass d n (tcp_view s))" and ?m = "min n (length (t_buf q))"
  let ?q = "q\<lparr>t_buf := drop n (t_buf q), rcv_wnd := rcv_wnd q + of_nat ?m\<rparr>"
  have "c \<noteq> d" and est: "t_state q = Established" using s(3) get by (auto simp: tcp_linked_def end_ok_def)
  then have get': "tcp_get c ?t = Some p" "tcp_get d ?t = Some ?q" and host: "tcp_host ?t = st_host s"
    unfolding rd(3) using get by simp_all
  have "unat (rcv_wnd q) + length (t_buf q) = RECV_BUF_SIZE" using q(2) est by (simp add: win_ok_def)
  moreover have "unat (rcv_wnd q + of_nat ?m) = unat (rcv_wnd q) + ?m"
    by (rule take_buf_ok(2) [OF q(2) _ refl]) (use assms(2) ch(1) est in \<open>simp add: can_take_def\<close>)
  ultimately have wnd: "unat (rcv_wnd ?q) + length (t_buf ?q) = RECV_BUF_SIZE" by simp
  then have win: "win_ok ?q" and wrap: "unat (rcv_nxt q) + unat (rcv_wnd ?q) < 2 ^ 32" using q(1) est by (simp_all add: win_ok_def)
  have loop: "tcp_loop ?t a iface dev" using s(1) host by (simp add: tcp_loop_def)
  have empty: "input_queue (st_link (tcp_store ?t s)) = []" using s(2) host by (simp add: tcp_store_def)
  have "is_channel a iface dev c d k (tcp_store ?t s) (ch\<lparr>ch_data := drop n (ch_data ch)\<rparr>)"
    unfolding is_channel_def using loop empty win rd(2) get' p q(1) ch by simp
  moreover have "is_channel a iface dev d c j (tcp_store ?t s) other" if "is_channel a iface dev d c j s other" for j other
    using that loop empty wrap get get' tcp_linked_sym [OF rd(2)] by (auto simp: is_channel_def)
  moreover have "receive_pass d n (tcp_view s) = (Return (Ok (take n (ch_data ch))), ?t)"
    using rd(1) ch(1) by (metis prod.collapse)
  ultimately show ?thesis by (cases "receive_pass d n (tcp_view s)") auto
qed

text \<open>One operation in one direction, which leaves the other direction as it was.\<close>

lemma conn_step_simulates:
  assumes "is_channel a iface dev c d (length (put_bytes x) + k) s ch" and "chan_step x ch = Some (y, ch')"
  shows "\<exists>s'. conn_step c d x s = Some (y, s') \<and> is_channel a iface dev c d k s' ch' \<and>
    (\<forall>j other. is_channel a iface dev d c j s other \<longrightarrow> is_channel a iface dev d c j s' other)"
proof (cases x)
  case (Put data)
  with assms(2) have "data \<noteq> []" "length data \<le> ch_credit ch" and y: "y = Wrote (length data)"
    "ch' = \<lparr>ch_data = ch_data ch @ data, ch_credit = RECV_BUF_SIZE - length (ch_data ch @ data)\<rparr>"
    by (simp_all split: if_splits)
  from put_simulates [OF _ this(1, 2)] assms(1) Put y show ?thesis by simp
next
  case (Take n)
  with assms(2) have "ch_data ch \<noteq> []" and y: "y = Got (take n (ch_data ch))" "ch' = ch\<lparr>ch_data := drop n (ch_data ch)\<rparr>"
    by (simp_all split: if_splits)
  from take_simulates [OF _ this(1)] assms(1) Take y show ?thesis by simp
qed

section \<open>Both directions\<close>

text \<open>
  An operation together with the end that calls it: what the near end puts, the far end takes, and
  the other way round.
\<close>

datatype side = Near | Far

fun forth :: "side \<times> chan_op \<Rightarrow> bool" where
  "forth (e, Put data) \<longleftrightarrow> e = Near"
| "forth (e, Take n) \<longleftrightarrow> e = Far"

fun duplex_step :: "side \<times> chan_op \<Rightarrow> channel \<times> channel \<Rightarrow> (chan_out \<times> channel \<times> channel) option" where
  "duplex_step x (there, other) =
     (if forth x then map_option (map_prod id (\<lambda>ch. (ch, other))) (chan_step (snd x) there)
      else map_option (map_prod id (Pair there)) (chan_step (snd x) other))"

definition conn_duplex :: "nat \<Rightarrow> nat \<Rightarrow> side \<times> chan_op \<Rightarrow> stack \<Rightarrow> (chan_out \<times> stack) option" where
  "conn_duplex c d x s = (if forth x then conn_step c d (snd x) s else conn_step d c (snd x) s)"

definition is_duplex :: "ip_addr \<Rightarrow> ip_iface \<Rightarrow> device \<Rightarrow> nat \<Rightarrow> nat \<Rightarrow> nat \<Rightarrow> stack \<Rightarrow> channel \<times> channel \<Rightarrow> bool" where
  "is_duplex a iface dev c d k s chs \<longleftrightarrow>
     is_channel a iface dev c d k s (fst chs) \<and> is_channel a iface dev d c k s (snd chs)"

lemma is_channel_mono: "is_channel a iface dev c d (n + k) s ch \<Longrightarrow> is_channel a iface dev c d k s ch"
  by (auto simp: is_channel_def)

interpretation conn: budget_simulation "\<lambda>x. length (put_bytes (snd x))" duplex_step "conn_duplex c d" "is_duplex a iface dev c d"
proof
  fix x k s chs y chs'
  assume rel: "is_duplex a iface dev c d (length (put_bytes (snd x)) + k) s chs" and step: "duplex_step x chs = Some (y, chs')"
  note rel = rel [unfolded is_duplex_def]
  show "\<exists>s'. conn_duplex c d x s = Some (y, s') \<and> is_duplex a iface dev c d k s' chs'"
  proof (cases "forth x")
    case True
    with step obtain ch where ch: "chan_step (snd x) (fst chs) = Some (y, ch)" "chs' = (ch, snd chs)"
      by (cases chs) (auto simp: map_option_case split: option.splits)
    from conn_step_simulates [OF conjunct1 [OF rel] ch(1)] is_channel_mono [OF conjunct2 [OF rel]] ch(2) True
    show ?thesis by (auto simp: conn_duplex_def is_duplex_def)
  next
    case False
    with step obtain ch where ch: "chan_step (snd x) (snd chs) = Some (y, ch)" "chs' = (fst chs, ch)"
      by (cases chs) (auto simp: map_option_case split: option.splits)
    from conn_step_simulates [OF conjunct2 [OF rel] ch(1)] is_channel_mono [OF conjunct1 [OF rel]] ch(2) False
    show ?thesis by (auto simp: conn_duplex_def is_duplex_def)
  qed
qed

text \<open>What goes in and comes out in one direction.\<close>

definition puts_of :: "bool \<Rightarrow> (side \<times> chan_op) list \<Rightarrow> bytes" where
  "puts_of b xs = concat (map (\<lambda>x. put_bytes (snd x)) (filter (\<lambda>x. forth x = b) xs))"

definition gots_of :: "bool \<Rightarrow> (side \<times> chan_op) list \<Rightarrow> chan_out list \<Rightarrow> bytes" where
  "gots_of b xs ys = concat (map (\<lambda>xy. got_bytes (snd xy)) (filter (\<lambda>xy. forth (fst xy) = b) (zip xs ys)))"

lemma duplex_fifo:
  "run_ops duplex_step xs chs = Some (ys, chs') \<Longrightarrow>
     gots_of True xs ys @ ch_data (fst chs') = ch_data (fst chs) @ puts_of True xs \<and>
     gots_of False xs ys @ ch_data (snd chs') = ch_data (snd chs) @ puts_of False xs"
proof (induction xs arbitrary: chs ys)
  case (Cons x xs)
  then obtain y chs1 zs where run: "duplex_step x chs = Some (y, chs1)" "run_ops duplex_step xs chs1 = Some (zs, chs')" "ys = y # zs"
    unfolding run_ops_Cons by blast
  have "if forth x then got_bytes y @ ch_data (fst chs1) = ch_data (fst chs) @ put_bytes (snd x) \<and> snd chs1 = snd chs
    else got_bytes y @ ch_data (snd chs1) = ch_data (snd chs) @ put_bytes (snd x) \<and> fst chs1 = fst chs"
    using run(1) chan_step_fifo by (cases chs) (auto simp: map_option_case split: option.splits if_splits)
  with Cons.IH [OF run(2)] run(3) show ?case
    by (cases "forth x") (simp_all add: puts_of_def gots_of_def)
qed (simp add: puts_of_def gots_of_def)

end
