(* ===== verification/Claims_Loop.thy ===== *)
theory Claims_Loop
  imports Example Teardown Retrans_Bound Channel
begin

text \<open>
  TCP end to end over the loopback device: \<open>connect\<close>, \<open>accept\<close>, \<open>send\<close>, \<open>receive\<close> and \<open>close\<close> on one host,
  with the software interrupt handler in between.
\<close>

section \<open>Auxiliary facts\<close>

text \<open>The loop of the handler ends when the queue is empty.\<close>

lemma softirq_step_None: "softirq_step s = None \<longleftrightarrow> input_queue (st_link s) = []"
  by (auto simp: softirq_step_def softirq_pop_def Let_def split: list.splits)

text \<open>The calls find what the interrupt handler has left.\<close>

lemma linked_connected: "tcp_linked t a c d \<Longrightarrow> fst (connect_pass c t) = Return (Ok ())"
  by (auto simp: tcp_linked_def end_ok_def connect_pass_def)

lemma loop_accept:
  assumes "tcp_loop t a iface dev" and "tcp_get l t = Some lp" and "t_state lp = Listen" and "t_backlog lp = [d]"
    and "tcp_get d t = Some q" and "addr (t_remote q) = a"
  shows "fst (accept_pass l t) = Return (Ok (d, t_remote q))"
proof -
  obtain r where "route_lookup a (tcp_ip t) = Some r" "by_index (tcp_link t) (if_dev (rt_iface r)) = Some dev"
    and "40 \<le> unat (dev_mtu dev)"
    using assms(1) by (auto simp: tcp_loop_def loopback_to_def)
  then show ?thesis
    using accept_takes [OF assms(2, 3), of "[]" d "[]" q r dev] assms(4-6) by auto
qed

text \<open>What has arrived at an end at rest can be read.\<close>

lemma delivered_received:
  assumes "tcp_linked t a c d" and "tcp_get d t = Some q'" and "t_buf q' = t_buf q @ data"
    and "rcv_wnd q' = rcv_wnd q - of_nat (length data)" and "win_ok q" and "t_state q = Established"
    and "length data \<le> unat (rcv_wnd q)" and "data \<noteq> []"
  shows "fst (receive_pass d n t) = Return (Ok (take n (t_buf q @ data)))" and "tcp_linked (snd (receive_pass d n t)) a c d"
proof -
  have "win_ok q'" using assms by (auto simp: win_ok_def unat_sub_u16 tcp_linked_def end_ok_def)
  from receive_linked [OF assms(1, 2) this, of n] assms(3, 8)
  show "fst (receive_pass d n t) = Return (Ok (take n (t_buf q @ data)))" "tcp_linked (snd (receive_pass d n t)) a c d"
    by simp_all
qed

section \<open>Handshake\<close>

text \<open>
  C27. \<open>connect\<close> to a listening socket of the same host: the SYN is sent, one run of the software
  interrupt handler carries the three segments of the handshake and ends with an empty queue, and
  then \<open>connect\<close> returns, \<open>accept\<close> on the listener returns the new connection with the endpoint
  \<open>connect\<close> has chosen, and the two ends agree on the state of the connection. The conditions on the
  random numbers say that neither initial sequence number leads to a wrap-around.
\<close>

theorem tcp_loopback_handshake:
  assumes "stack_wf s" and loop: "tcp_loop (tcp_view s) a iface dev" and "input_queue (st_link s) = []"
    and "tcp_get c (tcp_view s) = Some p" and "t_queue p = []" and "addr (t_local p) = ip_any" and "t_state p = Closed"
    and "tcp_get l (tcp_view s) = Some lp" and "t_state lp = Listen" and "t_mode lp = Socket"
    and "endp_none (t_remote lp)" and "t_backlog lp = []" and "0 < backlog_max lp"
    and "choose_local (t_local p) rem (tcp_view s) = Ok loc" and "addr rem = a"
    and "tcp_pcb_select rem loc (tcp_view s) = Some l"
    and "fst (tcp_pcb_alloc (tcp_view s)) = Some d"
    and "unat (tcp_rand (tcp_view s) 0) + 65536 < 2 ^ 32" and "tcp_rand (tcp_view s) 2 \<noteq> - 1"
  shows "\<exists>s1 s4. on_tcp (connect_start c rem) s = (Ok (), s1) \<and> softirq_handler (4 + k) s1 = Some s4 \<and>
    fst (connect_pass c (tcp_view s4)) = Return (Ok ()) \<and>
    fst (accept_pass l (tcp_view s4)) = Return (Ok (d, loc)) \<and>
    input_queue (st_link s4) = [] \<and> tcp_linked (tcp_view s4) a c d"
proof -
  obtain s1 s2 s3 s4 q where steps: "on_tcp (connect_start c rem) s = (Ok (), s1)"
    "softirq_step s1 = Some s2" "softirq_step s2 = Some s3" "softirq_step s3 = Some s4"
    and s4: "input_queue (st_link s4) = []" "tcp_loop (tcp_view s4) a iface dev" "tcp_linked (tcp_view s4) a c d"
    "tcp_get l (tcp_view s4) = Some (lp\<lparr>t_backlog := [d]\<rparr>)" "tcp_get d (tcp_view s4) = Some q" "t_remote q = loc"
    using handshake_over_loopback [of s a iface dev c p l lp rem loc d] assms by (auto simp: stack_wf_def)
  have "softirq_handler (4 + k) s1 = Some s4"
    using steps s4(1) softirq_step_None [of s4] by (simp add: numeral_eq_Suc)
  moreover have "addr loc = a"
    using connect_endpoints(1) [OF loop] assms by blast
  ultimately show ?thesis
    using steps(1) s4 linked_connected [OF s4(3)] loop_accept [OF s4(2, 4) _ _ s4(5)] assms(9) by auto
qed

text \<open>A host with a listening socket on port 80 and a fresh socket.\<close>

definition ex_client :: tcp_pcb where
  "ex_client = (tcp_pcb_empty 0)\<lparr>t_mode := Socket\<rparr>"

definition ex_local_stack :: stack where
  "ex_local_stack = ex_stack\<lparr>st_tcp := [Some ex_client, Some ex_listen]\<rparr>"

lemma ex_local_get: "tcp_get f (tcp_view ex_local_stack) =
    (if f = 0 then Some ex_client else if f = 1 then Some ex_listen else None)"
  by (auto simp: tcp_get_def ex_local_stack_def slot_get_def less_Suc_eq nth_Cons split: nat.splits)

lemma ex_tcp_loop: "tcp_host t = ex_host \<Longrightarrow> tcp_loop t (IpAddr 127 0 0 1) ex_lo ex_lo_dev"
  using ex_loopback by (simp add: tcp_loop_def ex_host_def)
    (simp add: ex_lower ip_broadcast_def IP_PROTOCOL_TCP_def IP_PROTOCOL_UDP_def IP_PROTOCOL_ICMP_def)

lemma ex_tcp_pair_wf:
  assumes "win_ok p" and "win_ok q" and "t_task p = 0" and "t_task q = 1"
  shows "stack_wf (ex_stack\<lparr>st_tcp := [Some p, Some q]\<rparr>)"
proof -
  let ?s = "ex_stack\<lparr>st_tcp := [Some p, Some q]\<rparr>"
  have get: "tcp_get f (tcp_view ?s) = (if f = 0 then Some p else if f = 1 then Some q else None)" for f
    by (auto simp: tcp_get_def slot_get_def less_Suc_eq nth_Cons split: nat.splits)
  have "length (tcp_tasks (tcp_view ?s)) = 4" by (simp add: ex_stack_def ex_host_def)
  then have "tcp_wf (tcp_view ?s)"
    using assms unfolding tcp_wf_def by (auto simp: get TCP_PCB_SIZE_MAX_def split: if_splits)
  moreover have "udp_wf (udp_view ?s) \<longleftrightarrow> udp_wf (udp_view ex_stack)" by (simp add: udp_view_def)
  ultimately show ?thesis using ex_stack_wf by (simp add: stack_wf_def)
qed

theorem tcp_loopback_handshake_witness:
  "\<exists>s1 s4. on_tcp (connect_start 0 (ip_endp_new (IpAddr 127 0 0 1) 80)) ex_local_stack = (Ok (), s1) \<and>
     softirq_handler 4 s1 = Some s4 \<and> fst (connect_pass 0 (tcp_view s4)) = Return (Ok ()) \<and>
     fst (accept_pass 1 (tcp_view s4)) = Return (Ok (2, ip_endp_new (IpAddr 127 0 0 1) 49152))"
proof -
  let ?s = ex_local_stack and ?a = "IpAddr 127 0 0 1"
  let ?rem = "ip_endp_new ?a 80" and ?loc = "ip_endp_new ?a 49152"
  have wf: "stack_wf ?s"
    unfolding ex_local_stack_def
    by (rule ex_tcp_pair_wf) (simp_all add: win_ok_def ex_client_def ex_pcbs)
  have st: "st_host ?s = ex_host" by (simp add: ex_local_stack_def ex_stack_def)
  then have host: "tcp_host (tcp_view ?s) = ex_host" by simp
  have pcbs: "st_tcp ?s = [Some ex_client, Some ex_listen]" by (simp add: ex_local_stack_def)
  have sel: "tcp_pcb_select ?rem ?loc (tcp_view ?s) = Some 1" "tcp_pcb_select ?loc ?rem (tcp_view ?s) = None"
    by (simp_all add: tcp_pcb_select_def pcbs ex_client_def ex_pcbs tcp_match_def endp_none_def ip_any_def)
  obtain r where "route_lookup ?a ex_ip = Some r" "rt_iface r = ex_lo" using ex_loopback by (auto simp: loopback_to_def)
  then have "choose_addr (t_local ex_client) ?rem (tcp_view ?s) = Ok (ip_endp_new ?a 0)"
    by (simp add: choose_addr_def st ex_host_def ex_client_def ex_lo_def) (simp add: ex_pcbs)
  moreover have "port_scan (\<lambda>q. tcp_pcb_select (ip_endp_new ?a q) ?rem (tcp_view ?s) \<noteq> None) 49152 = Some 49152"
    using sel(2) by (subst port_scan.simps) (simp add: DYNAMIC_PORT_MAX_def)
  ultimately have loc: "choose_local (t_local ex_client) ?rem (tcp_view ?s) = Ok ?loc"
    using sel(2) by (simp add: choose_local_def choose_port_def DYNAMIC_PORT_MIN_def) (simp add: ip_endp_new_def)
  have "tcp_rand (tcp_view ?s) n = 7" for n by (simp add: tcp_rand_def st ex_host_def ex_lower)
  moreover have "t_queue ex_client = []" "addr (t_local ex_client) = ip_any" "t_state ex_client = Closed"
    "t_state ex_listen = Listen" "t_mode ex_listen = Socket" "endp_none (t_remote ex_listen)" "t_backlog ex_listen = []"
    "0 < backlog_max ex_listen" "addr ?rem = ?a"
    by (simp_all add: ex_client_def ex_pcbs endp_none_def)
  moreover have "input_queue (st_link ?s) = []" "fst (tcp_pcb_alloc (tcp_view ?s)) = Some 2"
    by (simp_all add: ex_local_stack_def ex_stack_def ex_host_def ex_ip_def ex_arp_def ex_link_def tcp_pcb_alloc_def
        TCP_PCB_SIZE_MAX_def case_prod_beta Let_def)
  ultimately show ?thesis
    using tcp_loopback_handshake [OF wf ex_tcp_loop [OF host], of 0 ex_client 1 ex_listen ?rem ?loc 2 0] loc sel(1)
    by (auto simp: ex_local_get)
qed

section \<open>Transfer\<close>

text \<open>
  C8. A stream over an established connection of the host with itself: \<open>send\<close> of any data that fits the
  window returns the number of its bytes, however many segments it takes; one run of the software
  interrupt handler carries all the segments and their acknowledgments and ends with an empty queue;
  then \<open>receive\<close> at the other end returns the buffered bytes followed by the data, and the two ends
  agree again, before and after the call, so that the next transfer can follow. \<open>send\<close> needs at most a
  pass for every byte and one more, the handler two for every byte and one more.
\<close>

theorem tcp_loopback_stream:
  assumes wf: "stack_wf s" and "tcp_loop (tcp_view s) a iface dev" and "input_queue (st_link s) = []"
    and "tcp_linked (tcp_view s) a c d" and "tcp_get c (tcp_view s) = Some p" and q: "tcp_get d (tcp_view s) = Some q"
    and data: "data \<noteq> []" and fit: "length data \<le> unat (snd_wnd p)" and "length data < fuel" and "2 * length data < steps"
    and "t_mss p \<noteq> 0" and "40 + unat (t_mss p) \<le> unat (dev_mtu dev)"
    and "unat (rcv_nxt p) + unat (rcv_wnd p) < 2 ^ 32" and "unat (rcv_nxt q) + unat (rcv_wnd q) < 2 ^ 32"
  shows "\<exists>t1 s'. tcp_send fuel c data wakes (tcp_view s) = Some (Ok (length data), t1) \<and>
    softirq_handler steps (tcp_store t1 s) = Some s' \<and>
    fst (receive_pass d n (tcp_view s')) = Return (Ok (take n (t_buf q @ data))) \<and>
    input_queue (st_link s') = [] \<and> tcp_linked (tcp_view s') a c d \<and>
    tcp_linked (snd (receive_pass d n (tcp_view s'))) a c d"
proof -
  obtain t1 s' q' where send: "tcp_send fuel c data wakes (tcp_view s) = Some (Ok (length data), t1)"
    "softirq_handler steps (tcp_store t1 s) = Some s'" "input_queue (st_link s') = []"
    and s': "tcp_linked (tcp_view s') a c d" "tcp_get d (tcp_view s') = Some q'" "t_buf q' = t_buf q @ data"
    "rcv_wnd q' = rcv_wnd q - of_nat (length data)"
    using stream_over_loopback [OF assms(2-14), of wakes] by blast
  have est: "t_state q = Established" "length data \<le> unat (rcv_wnd q)"
    using assms(4, 5) q fit by (auto simp: tcp_linked_def end_ok_def mirrors_def word_le_nat_alt)
  have "win_ok q" using wf tcp_wfD(2) [OF _ q] by (simp add: stack_wf_def)
  from delivered_received [OF s' this est data, of n] send s'(1) show ?thesis by blast
qed

text \<open>A host with both ends of a connection to itself.\<close>

definition ex_near :: tcp_pcb where
  "ex_near = (tcp_pcb_empty 0)\<lparr>t_state := Established, t_local := ip_endp_new (IpAddr 127 0 0 1) 49152,
     t_remote := ip_endp_new (IpAddr 127 0 0 1) 80, snd_nxt := 101, snd_una := 101, snd_wnd := 65535,
     rcv_nxt := 501, rcv_wnd := 65535, t_mss := 536\<rparr>"

definition ex_far :: tcp_pcb where
  "ex_far = (tcp_pcb_empty 1)\<lparr>t_state := Established, t_local := ip_endp_new (IpAddr 127 0 0 1) 80,
     t_remote := ip_endp_new (IpAddr 127 0 0 1) 49152, snd_nxt := 501, snd_una := 501, snd_wnd := 65535,
     rcv_nxt := 101, rcv_wnd := 65535, t_mss := 536\<rparr>"

definition ex_linked :: stack where
  "ex_linked = ex_stack\<lparr>st_tcp := [Some ex_near, Some ex_far]\<rparr>"

lemmas ex_ends = ex_near_def ex_far_def tcp_pcb_empty_def ip_endp_new_def

lemma ex_far_buf: "t_buf ex_far = []"
  by (simp add: ex_ends)

lemma ex_linked_get:
  "tcp_get f (tcp_view ex_linked) = (if f = 0 then Some ex_near else if f = 1 then Some ex_far else None)"
  by (auto simp: tcp_get_def ex_linked_def slot_get_def less_Suc_eq nth_Cons split: nat.splits)

lemma ex_linked_wf: "stack_wf ex_linked"
  unfolding ex_linked_def by (rule ex_tcp_pair_wf) (simp_all add: win_ok_def ex_ends RECV_BUF_SIZE_def)

lemma ex_linked_host: "tcp_host (tcp_view ex_linked) = ex_host" "input_queue (st_link ex_linked) = []"
  by (simp_all add: ex_linked_def ex_stack_def) (simp add: ex_host_def ex_lower)

lemma ex_linked_linked: "tcp_linked (tcp_view ex_linked) (IpAddr 127 0 0 1) 0 1"
proof -
  have "only_match (t_local ex_near) (t_remote ex_near) 0 (tcp_view ex_linked)"
    "only_match (t_local ex_far) (t_remote ex_far) 1 (tcp_view ex_linked)"
    by (auto simp: only_match_def ex_linked_get ex_ends tcp_match_def split: if_splits)
  moreover have "end_ok ex_near" "end_ok ex_far" "mirrors ex_near ex_far" "mirrors ex_far ex_near"
    "addr (t_local ex_near) = IpAddr 127 0 0 1" "addr (t_local ex_far) = IpAddr 127 0 0 1"
    by (simp_all add: ex_ends end_ok_def mirrors_def)
  ultimately show ?thesis by (simp add: tcp_linked_def ex_linked_get)
qed

text \<open>A thousand bytes, which take two segments of at most 536 bytes.\<close>

lemma ex_ends_no_wrap:
  "unat (rcv_nxt ex_near) + unat (rcv_wnd ex_near) < 2 ^ 32" "unat (rcv_nxt ex_far) + unat (rcv_wnd ex_far) < 2 ^ 32"
  "t_mss ex_near \<noteq> 0" "40 + unat (t_mss ex_near) \<le> unat (dev_mtu ex_lo_dev)"
  by (simp_all add: ex_ends ex_lo_dev_def device_new_def)

theorem tcp_loopback_stream_witness:
  "\<exists>t1 s'. tcp_send 1001 0 (replicate 1000 5) [] (tcp_view ex_linked) = Some (Ok 1000, t1) \<and>
     softirq_handler 2001 (tcp_store t1 ex_linked) = Some s' \<and>
     fst (receive_pass 1 4096 (tcp_view s')) = Return (Ok (replicate 1000 5))"
proof -
  let ?d = "replicate 1000 5 :: bytes"
  have get: "tcp_get 0 (tcp_view ex_linked) = Some ex_near" "tcp_get 1 (tcp_view ex_linked) = Some ex_far"
    by (simp_all add: ex_linked_get)
  have d: "?d \<noteq> []" "length ?d \<le> unat (snd_wnd ex_near)" "length ?d < 1001" "2 * length ?d < 2001"
    by (simp_all add: ex_ends)
  have "take 4096 (t_buf ex_far @ ?d) = ?d" "length ?d = 1000" by (simp_all add: ex_far_buf)
  with tcp_loopback_stream [OF ex_linked_wf ex_tcp_loop [OF ex_linked_host(1)] ex_linked_host(2) ex_linked_linked get
      d ex_ends_no_wrap(3, 4, 1, 2), of "[]" 4096]
  show ?thesis by (simp only:) blast
qed

text \<open>
  C12. A connection of the host with itself refines a pair of byte channels, one for each direction.
  Whatever sequence of puts and takes at both ends the abstract channels allow, \<open>send\<close> with a run of
  the software interrupt handler for a put and \<open>receive\<close> for a take do with the same results, and end
  with the bytes of the channels in the receive buffers. So in each direction, what \<open>receive\<close> returns
  over any number of calls, followed by what is still buffered, is what was buffered followed by what
  \<open>send\<close> was given: nothing is lost, doubled or out of order, and the directions do not disturb each
  other. The sequence numbers of the data must not reach the wrap-around.
\<close>

theorem tcp_channel_refinement:
  assumes wf: "stack_wf s" and "tcp_loop (tcp_view s) a iface dev" and "input_queue (st_link s) = []"
    and linked: "tcp_linked (tcp_view s) a c d" and p: "tcp_get c (tcp_view s) = Some p" and q: "tcp_get d (tcp_view s) = Some q"
    and "t_mss p \<noteq> 0" and "40 + unat (t_mss p) \<le> unat (dev_mtu dev)"
    and "t_mss q \<noteq> 0" and "40 + unat (t_mss q) \<le> unat (dev_mtu dev)"
    and total: "k = sum_list (map (\<lambda>x. length (put_bytes (snd x))) ops)"
    and wrap: "unat (rcv_nxt p) + RECV_BUF_SIZE + k < 2 ^ 32" "unat (rcv_nxt q) + RECV_BUF_SIZE + k < 2 ^ 32"
    and run: "run_ops duplex_step ops (\<lparr>ch_data = t_buf q, ch_credit = unat (snd_wnd p)\<rparr>,
      \<lparr>ch_data = t_buf p, ch_credit = unat (snd_wnd q)\<rparr>) = Some (outs, there, other)"
  shows "\<exists>s' p' q'. run_ops (conn_duplex c d) ops s = Some (outs, s') \<and> tcp_linked (tcp_view s') a c d \<and>
    tcp_get c (tcp_view s') = Some p' \<and> t_buf p' = ch_data other \<and>
    tcp_get d (tcp_view s') = Some q' \<and> t_buf q' = ch_data there \<and>
    gots_of True ops outs @ t_buf q' = t_buf q @ puts_of True ops \<and>
    gots_of False ops outs @ t_buf p' = t_buf p @ puts_of False ops"
proof -
  have win: "win_ok p" "win_ok q" using wf tcp_wfD(2) [OF _ p] tcp_wfD(2) [OF _ q] by (simp_all add: stack_wf_def)
  have "unat (rcv_wnd p) \<le> RECV_BUF_SIZE" "unat (rcv_wnd q) \<le> RECV_BUF_SIZE"
    using unat_u16_less [of "rcv_wnd p"] unat_u16_less [of "rcv_wnd q"] unfolding RECV_BUF_SIZE_def by linarith+
  then have "is_duplex a iface dev c d (k + 0) s (\<lparr>ch_data = t_buf q, ch_credit = unat (snd_wnd p)\<rparr>,
      \<lparr>ch_data = t_buf p, ch_credit = unat (snd_wnd q)\<rparr>)"
    unfolding is_duplex_def is_channel_def using assms(2-10) wrap win tcp_linked_sym [OF linked] by simp
  from conn.run_simulates [OF this [unfolded total] run]
  obtain s' where s': "run_ops (conn_duplex c d) ops s = Some (outs, s')" "is_duplex a iface dev c d 0 s' (there, other)"
    by blast
  then obtain p' q' where "tcp_linked (tcp_view s') a c d" "tcp_get c (tcp_view s') = Some p'" "t_buf p' = ch_data other"
    "tcp_get d (tcp_view s') = Some q'" "t_buf q' = ch_data there"
    unfolding is_duplex_def is_channel_def by auto
  with s'(1) duplex_fifo [OF run] show ?thesis by auto
qed

theorem tcp_channel_refinement_witness:
  "\<exists>s'. run_ops (conn_duplex 0 1) [(Near, Put [1, 2, 3]), (Far, Take 2), (Far, Put [9]), (Near, Put [4]), (Far, Take 10), (Near, Take 5)]
     ex_linked = Some ([Wrote 3, Got [1, 2], Wrote 1, Wrote 1, Got [3, 4], Got [9]], s')"
proof -
  let ?ops = "[(Near, Put [1, 2, 3]), (Far, Take 2), (Far, Put [9]), (Near, Put [4]), (Far, Take 10), (Near, Take 5)]"
  have get: "tcp_get 0 (tcp_view ex_linked) = Some ex_near" "tcp_get 1 (tcp_view ex_linked) = Some ex_far"
    by (simp_all add: ex_linked_get)
  have run: "run_ops duplex_step ?ops (\<lparr>ch_data = t_buf ex_far, ch_credit = unat (snd_wnd ex_near)\<rparr>,
        \<lparr>ch_data = t_buf ex_near, ch_credit = unat (snd_wnd ex_far)\<rparr>) =
      Some ([Wrote 3, Got [1, 2], Wrote 1, Wrote 1, Got [3, 4], Got [9]],
        \<lparr>ch_data = [], ch_credit = 65533\<rparr>, \<lparr>ch_data = [], ch_credit = 65534\<rparr>)"
    by (simp add: ex_ends RECV_BUF_SIZE_def)
  have k: "5 = sum_list (map (\<lambda>x. length (put_bytes (snd x))) ?ops)" by simp
  have far: "t_mss ex_far \<noteq> 0" "40 + unat (t_mss ex_far) \<le> unat (dev_mtu ex_lo_dev)"
    "unat (rcv_nxt ex_near) + RECV_BUF_SIZE + 5 < 2 ^ 32" "unat (rcv_nxt ex_far) + RECV_BUF_SIZE + 5 < 2 ^ 32"
    by (simp_all add: ex_ends RECV_BUF_SIZE_def ex_lo_dev_def device_new_def)
  from tcp_channel_refinement [OF ex_linked_wf ex_tcp_loop [OF ex_linked_host(1)] ex_linked_host(2) ex_linked_linked get
      ex_ends_no_wrap(3, 4) far(1, 2) k far(3, 4) run]
  show ?thesis by blast
qed

text \<open>
  The credit of a channel does not come back by taking: \<open>receive\<close> opens the window but sends nothing, so
  a sender that has filled the window learns of the room only by another segment of the receiver. A
  connection whose window is used up stalls for good: \<open>send\<close> waits, whatever the other end reads.
\<close>

theorem tcp_window_not_reopened:
  assumes "tcp_linked (tcp_view s) a c d" and p: "tcp_get c (tcp_view s) = Some p" and "snd_wnd p = 0"
    and "tcp_get d (tcp_view s) = Some q" and "win_ok q" and "t_buf q \<noteq> []" and "data \<noteq> []"
  defines "t' \<equiv> snd (receive_pass d (length (t_buf q)) (tcp_view s))"
  shows "fst (receive_pass d (length (t_buf q)) (tcp_view s)) = Return (Ok (t_buf q))"
    and "tcp_host t' = st_host s"
    and "\<exists>x. fst (send_pass c data 0 t') = SendWait (t_task p) x"
proof -
  note rd = receive_linked [OF assms(1, 4-6), of "length (t_buf q)", folded t'_def]
  show "fst (receive_pass d (length (t_buf q)) (tcp_view s)) = Return (Ok (t_buf q))" using rd(1) by simp
  show "tcp_host t' = st_host s" using rd(3) by simp
  have "c \<noteq> d" "t_state p = Established" using assms(1) p by (auto simp: tcp_linked_def end_ok_def)
  moreover from this have "tcp_get c t' = Some p" using rd(3) p by simp
  ultimately show "\<exists>x. fst (send_pass c data 0 t') = SendWait (t_task p) x"
    using assms(3, 7) by (simp add: send_pass_def send_cap_def)
qed

section \<open>Loss\<close>

text \<open>
  C25. A lost segment is sent again and the transfer completes. After a \<open>send\<close> on a connection at rest,
  in any state in which the segment is gone, the table is as \<open>send\<close> has left it, no other control block
  has anything to repeat, and the clock is past the timeout of the segment but not past its
  deadline: one tick of the TCP timer followed by one run of the software interrupt handler brings the
  data to the other end, where \<open>receive\<close> returns it, and the two ends agree again.
\<close>

theorem tcp_lost_segment_recovered:
  assumes wf: "stack_wf s" and loop: "tcp_loop (tcp_view s) a iface dev" and empty: "input_queue (st_link s) = []"
    and linked: "tcp_linked (tcp_view s) a c d" and p: "tcp_get c (tcp_view s) = Some p" and q: "tcp_get d (tcp_view s) = Some q"
    and data: "data \<noteq> []" "length data \<le> unat (t_mss p)" "length data \<le> unat (snd_wnd p)" "40 + length data \<le> unat (dev_mtu dev)"
    and wrap: "unat (rcv_nxt p) + unat (rcv_wnd p) < 2 ^ 32" "unat (rcv_nxt q) + unat (rcv_wnd q) < 2 ^ 32"
    and idle: "\<forall>f r. tcp_get f (tcp_view s) = Some r \<longrightarrow> t_queue r = [] \<and> t_state r \<noteq> TimeWait"
  shows "\<exists>t1. tcp_send (2 + k) c data wakes (tcp_view s) = Some (Ok (length data), t1) \<and>
    (\<forall>s'. tcp_loop (tcp_view s') a iface dev \<and> segment_lost t1 (fst (tcp_now (tcp_view s))) (tcp_view s') \<longrightarrow>
      (\<exists>s2. softirq_handler (3 + m) (tcp_store (tcp_on_timer (tcp_view s')) s') = Some s2 \<and>
        fst (receive_pass d n (tcp_view s2)) = Return (Ok (take n (t_buf q @ data))) \<and>
        input_queue (st_link s2) = [] \<and> tcp_linked (tcp_view s2) a c d))"
proof -
  let ?sent = "fst (tcp_now (tcp_view s))"
  let ?p = "p\<lparr>t_queue := [sent_entry ?sent (snd_nxt p) data], snd_nxt := snd_nxt p + of_nat (length data)\<rparr>"
  have ends: "c \<noteq> d" "end_ok p" "end_ok q" "mirrors p q" "mirrors q p" "addr (t_local p) = a" "addr (t_local q) = a"
    and only: "only_match (t_local p) (t_remote p) c (tcp_view s)" "only_match (t_local q) (t_remote q) d (tcp_view s)"
    using linked p q by (auto simp: tcp_linked_def)
  have est: "t_state q = Established" "length data \<le> unat (rcv_wnd q)"
    using ends(3, 4) data(3) by (auto simp: end_ok_def mirrors_def word_le_nat_alt)
  have win: "win_ok q" using wf tcp_wfD(2) [OF _ q] by (simp add: stack_wf_def)
  obtain t1 where send: "tcp_send (2 + k) c data wakes (tcp_view s) = Some (Ok (length data), t1)"
    and get1: "\<And>f. tcp_get f t1 = (if f = c then Some ?p else tcp_get f (tcp_view s))"
    and same: "\<And>loc rem f. only_match loc rem f (tcp_view s) \<Longrightarrow> only_match loc rem f t1"
    using linked_send [OF loop _ linked p data, of k wakes] empty by (auto simp: numeral_2_eq_2)
  have "\<exists>s2. softirq_handler (3 + m) (tcp_store (tcp_on_timer (tcp_view s')) s') = Some s2 \<and>
      fst (receive_pass d n (tcp_view s2)) = Return (Ok (take n (t_buf q @ data))) \<and>
      input_queue (st_link s2) = [] \<and> tcp_linked (tcp_view s2) a c d"
    if loop': "tcp_loop (tcp_view s') a iface dev" and lost: "segment_lost t1 ?sent (tcp_view s')" for s'
  proof -
    have get: "tcp_get f (tcp_view s') = tcp_get f t1" for f using lost by (simp add: segment_lost_def)
    have only': "only_match (t_local p) (t_remote p) c (tcp_view s')" "only_match (t_local q) (t_remote q) d (tcp_view s')"
      using same [OF only(1)] same [OF only(2)] by (simp_all add: only_match_def get)
    have self: "segment_lost (tcp_view s') ?sent (tcp_view s')" using lost by (simp add: segment_lost_def)
    have g: "tcp_get c (tcp_view s') = Some ?p" "tcp_get d (tcp_view s') = Some q" using get get1 ends(1) q by simp_all
    have idle': "\<forall>f r. f \<noteq> c \<longrightarrow> tcp_get f (tcp_view s') = Some r \<longrightarrow> t_queue r = [] \<and> t_state r \<noteq> TimeWait"
      using idle get get1 by simp
    obtain s2 s3 q' where s3: "softirq_step (tcp_store (tcp_on_timer (tcp_view s')) s') = Some s2" "softirq_step s2 = Some s3"
      "input_queue (st_link s3) = []" and d: "tcp_linked (tcp_view s3) a c d" "tcp_get d (tcp_view s3) = Some q'"
      "t_buf q' = t_buf q @ data" "rcv_wnd q' = rcv_wnd q - of_nat (length data)"
      using recovery_over_loopback [OF loop' ends refl g only' data(1) est(2) data(4) wrap self idle'] by auto
    from s3 have "softirq_handler (3 + m) (tcp_store (tcp_on_timer (tcp_view s')) s') = Some s3"
      using softirq_step_None [of s3] by (simp add: numeral_eq_Suc)
    with s3(3) d delivered_received [OF d win est data(1), of n] show ?thesis by blast
  qed
  with send show ?thesis by blast
qed

theorem tcp_lost_segment_recovered_witness:
  "\<exists>t1 s'. tcp_send 2 0 [1, 2, 3] [] (tcp_view ex_linked) = Some (Ok 3, t1) \<and>
     segment_lost t1 (fst (tcp_now (tcp_view ex_linked))) (tcp_view s') \<and>
     (\<exists>s2. softirq_handler 3 (tcp_store (tcp_on_timer (tcp_view s')) s') = Some s2 \<and>
        fst (receive_pass 1 100 (tcp_view s2)) = Return (Ok [1, 2, 3]))"
proof -
  let ?d = "[1, 2, 3] :: bytes" and ?T = "fst (tcp_now (tcp_view ex_linked))" and ?a = "IpAddr 127 0 0 1"
  note loop = ex_tcp_loop [OF ex_linked_host(1)] and get = ex_linked_get [of 0, simplified] ex_linked_get [of 1, simplified]
  have data: "?d \<noteq> []" "length ?d \<le> unat (t_mss ex_near)" "length ?d \<le> unat (snd_wnd ex_near)" "40 + length ?d \<le> unat (dev_mtu ex_lo_dev)"
    and wrap: "unat (rcv_nxt ex_near) + unat (rcv_wnd ex_near) < 2 ^ 32" "unat (rcv_nxt ex_far) + unat (rcv_wnd ex_far) < 2 ^ 32"
    by (simp_all add: ex_ends ex_lo_dev_def device_new_def)
  have idle: "\<forall>f r. tcp_get f (tcp_view ex_linked) = Some r \<longrightarrow> t_queue r = [] \<and> t_state r \<noteq> TimeWait"
    by (auto simp: ex_linked_get ex_ends split: if_splits)
  obtain t1 where send: "tcp_send (2 + 0) 0 ?d [] (tcp_view ex_linked) = Some (Ok (length ?d), t1)"
    and rest: "\<And>s'. tcp_loop (tcp_view s') ?a ex_lo ex_lo_dev \<and> segment_lost t1 ?T (tcp_view s') \<Longrightarrow>
      \<exists>s2. softirq_handler (3 + 0) (tcp_store (tcp_on_timer (tcp_view s')) s') = Some s2 \<and>
        fst (receive_pass (Suc 0) 100 (tcp_view s2)) = Return (Ok (take 100 (t_buf ex_far @ ?d))) \<and>
        input_queue (st_link s2) = [] \<and> tcp_linked (tcp_view s2) ?a 0 (Suc 0)"
    using tcp_lost_segment_recovered [OF ex_linked_wf loop ex_linked_host(2) ex_linked_linked [simplified] get data wrap idle]
    by blast
  have two: "Suc (Suc 0) = 2 + 0" by simp
  have loop1: "tcp_loop t1 ?a ex_lo ex_lo_dev"
    using linked_send [OF loop _ ex_linked_linked get(1) data, of 0 "[]", unfolded two] ex_linked_host(2) send by auto
  let ?s = "tcp_store (tcp_later (?T + TCP_DEFAULT_RTO) t1) ex_linked"
  have lost: "segment_lost t1 ?T (tcp_view ?s)"
    using tcp_later_lost [of ?T "?T + TCP_DEFAULT_RTO" t1] by (simp add: TCP_DEFAULT_RTO_def TCP_RETRANS_DEADLINE_def)
  have "tcp_loop (tcp_view ?s) ?a ex_lo ex_lo_dev" using loop1 by simp
  from rest [OF conjI [OF this lost]] send lost show ?thesis
    by (intro exI [of _ t1] exI [of _ ?s]) (auto simp: ex_far_buf simp del: softirq_handler.simps)
qed

text \<open>
  C11. How often the timer sends a segment again, in packets that reach the loopback device. Take a segment
  that has just been queued, alone with its sequence number, and any run of ticks of its connection
  (\<open>retrans_emit\<close>) with other activity in between (\<open>other_step\<close>: the connection keeps its endpoints or is
  freed, the segment stays in the queue as it is or leaves it, no other segment gets its number). At most
  five of the packets sent by the ticks have its sequence number, and each of these holds exactly this
  segment. While it is queued, its timeout is the initial 200 ms doubled as often as it has been sent
  again. A whole tick of the TCP timer, over all connections, always continues such a run.
\<close>

theorem tcp_retransmission_bound:
  assumes "tcp_loop t a iface dev" and "tcp_get d t = Some p" and "addr (t_local p) = a" and "addr (t_remote p) = a"
    and "\<forall>y \<in> set (t_queue p). 40 + length (q_data y) \<le> unat (dev_mtu dev)"
    and "filter (\<lambda>y. q_seq y = q_seq x) (t_queue p) = [x]" and "q_first x = q_last x" and "q_rto x = TCP_DEFAULT_RTO"
    and "tick_run a iface dev d (q_seq x) t es t'"
  shows "count_list (map packet_seq es) (q_seq x) \<le> 5 \<and>
    (\<forall>e \<in> set es. packet_seq e = q_seq x \<longrightarrow>
       (\<exists>ack wnd. holds_segment (if_dev iface) (q_seq x) ack (q_flg x) wnd (q_data x) (t_local p) (t_remote p) e)) \<and>
    (\<forall>p' y. tcp_get d t' = Some p' \<and> y \<in> set (t_queue p') \<and> q_seq y = q_seq x \<longrightarrow>
       q_rto y = 2 ^ count_list (map packet_seq es) (q_seq x) * TCP_DEFAULT_RTO) \<and>
    (\<exists>new. tick_run a iface dev d (q_seq x) t (es @ new) (tcp_on_timer t'))"
proof (intro conjI allI impI)
  let ?k = "count_list (map packet_seq es) (q_seq x)"
  have "run_inv a iface dev d x (t_local p) (t_remote p) [] t"
    using assms(1, 2, 5-8) by (intro run_inv_start) (simp_all add: numbered_def)
  then have inv: "run_inv a iface dev d x (t_local p) (t_remote p) es t'" by (rule tick_run_inv [OF assms(9) _ assms(3, 4)])
  then show "?k \<le> 5" "\<forall>e \<in> set es. packet_seq e = q_seq x \<longrightarrow>
       (\<exists>ack wnd. holds_segment (if_dev iface) (q_seq x) ack (q_flg x) wnd (q_data x) (t_local p) (t_remote p) e)"
    by (simp_all add: run_inv_def)
  show "\<exists>new. tick_run a iface dev d (q_seq x) t (es @ new) (tcp_on_timer t')"
    by (rule on_timer_run [OF assms(9) inv assms(3, 4)])
  fix p' y assume y: "tcp_get d t' = Some p' \<and> y \<in> set (t_queue p') \<and> q_seq y = q_seq x"
  then have "y \<in> set (numbered (q_seq x) p')" "slot_inv dev x (t_local p) (t_remote p) ?k p'"
    using inv by (simp_all add: numbered_def run_inv_def)
  then show "q_rto y = 2 ^ ?k * TCP_DEFAULT_RTO" by (auto simp: slot_inv_def q_tries_def mult.commute)
qed

text \<open>
  Three bytes that are never acknowledged: the tick after 200 ms and the one 400 ms later both send
  them again. In between the packets are taken from the queue.
\<close>

definition ex_waiting :: tcp_pcb where
  "ex_waiting = ex_near\<lparr>t_queue := [sent_entry 0 101 [1, 2, 3]], snd_nxt := 104\<rparr>"

definition ex_unacked :: tcp_state where
  "ex_unacked = tcp_later 200000000 (tcp_view (ex_stack\<lparr>st_tcp := [Some ex_waiting, Some ex_far]\<rparr>))"

lemma ex_unacked_facts:
  "tcp_loop ex_unacked (IpAddr 127 0 0 1) ex_lo ex_lo_dev" "tcp_get 0 ex_unacked = Some ex_waiting"
  "tcp_clock ex_unacked 0 = 200000000"
proof -
  have "tcp_host (tcp_view (ex_stack\<lparr>st_tcp := [Some ex_waiting, Some ex_far]\<rparr>)) = ex_host" by (simp add: ex_stack_def)
  from ex_tcp_loop [OF this] show "tcp_loop ex_unacked (IpAddr 127 0 0 1) ex_lo ex_lo_dev" by (simp add: ex_unacked_def)
qed (simp_all add: ex_unacked_def, simp add: tcp_get_def slot_get_def)

lemma ex_unacked_run:
  "\<exists>es t'. tick_run (IpAddr 127 0 0 1) ex_lo ex_lo_dev 0 101 ex_unacked es t' \<and> length es = 2"
proof -
  let ?a = "IpAddr 127 0 0 1" and ?x = "sent_entry 0 101 [1, 2, 3]"
  have p: "addr (t_local ex_waiting) = ?a" "addr (t_remote ex_waiting) = ?a" "t_queue ex_waiting = [?x]"
    by (simp_all add: ex_waiting_def ex_ends)
  have x: "q_data ?x = [1, 2, 3]" "q_first ?x = 0" "q_last ?x = 0" "q_rto ?x = 200000000" "43 \<le> unat (dev_mtu ex_lo_dev)"
    by (simp_all add: sent_entry_def TCP_DEFAULT_RTO_def ex_lo_dev_def device_new_def)
  let ?t1 = "retrans_emit 0 ex_unacked"
  obtain es1 q where one: "tcp_pending ?t1 = tcp_pending ex_unacked @ es1" "tcp_get 0 ?t1 = Some q"
    "t_local q = t_local ex_waiting" "t_remote q = t_remote ex_waiting" "length es1 = 1" "t_queue q = [q_backoff 200000000 ?x]"
    using tick_packets [OF ex_unacked_facts(1, 2) p(1, 2)] p(3) x ex_unacked_facts(3)
    by (auto simp: deadline_passed_def q_due_def TCP_RETRANS_DEADLINE_def dest: list_all2_lengthD)
  let ?t2 = "tcp_later 600000000 ?t1" and ?y = "q_backoff 200000000 ?x"
  have y: "q_data ?y = [1, 2, 3]" "q_first ?y = 0" "q_last ?y = 200000000" "q_rto ?y = 400000000"
    using x by (simp_all add: q_backoff_def q_due_def)
  have other: "other_step ?a ex_lo ex_lo_dev 0 101 ?t1 ?t2"
    using one(2, 6) y(1) x(5) retrans_emit_loop [OF ex_unacked_facts(1), of 0] by (simp add: other_step_def)
  have loop2: "tcp_loop ?t2 ?a ex_lo ex_lo_dev" using other by (simp add: other_step_def)
  have get2: "tcp_get 0 ?t2 = Some q" using one(2) by simp
  obtain es2 where two: "tcp_pending (retrans_emit 0 ?t2) = tcp_pending ?t2 @ es2" "length es2 = 1"
    using tick_packets [OF loop2 get2] one(3, 4, 6) p(1, 2) y x(5)
    by (auto simp: deadline_passed_def q_due_def TCP_RETRANS_DEADLINE_def dest: list_all2_lengthD)
  have "tick_run ?a ex_lo ex_lo_dev 0 101 ex_unacked ([] @ es1) ?t1"
    using tick_run.tick [OF tick_run.start] one(1) by (metis append_eq_conv_conj)
  from tick_run.tick [OF tick_run.other [OF this other]] two(1)
  have "tick_run ?a ex_lo ex_lo_dev 0 101 ex_unacked (es1 @ es2) (retrans_emit 0 ?t2)" by simp
  with one(5) two(2) show ?thesis by (intro exI [of _ "es1 @ es2"]) auto
qed

theorem tcp_retransmission_bound_witness:
  "\<exists>es t'. tick_run (IpAddr 127 0 0 1) ex_lo ex_lo_dev 0 101 ex_unacked es t' \<and> length es = 2 \<and>
     count_list (map packet_seq es) 101 \<le> 5"
proof -
  let ?x = "sent_entry 0 101 [1, 2, 3]"
  obtain es t' where run: "tick_run (IpAddr 127 0 0 1) ex_lo ex_lo_dev 0 101 ex_unacked es t'" "length es = 2"
    using ex_unacked_run by blast
  have x: "q_seq ?x = 101" "q_first ?x = q_last ?x" "q_rto ?x = TCP_DEFAULT_RTO" "q_data ?x = [1, 2, 3]"
    by (simp_all add: sent_entry_def)
  have "addr (t_local ex_waiting) = IpAddr 127 0 0 1" "addr (t_remote ex_waiting) = IpAddr 127 0 0 1"
    "t_queue ex_waiting = [?x]" "43 \<le> unat (dev_mtu ex_lo_dev)"
    by (simp_all add: ex_waiting_def ex_ends ex_lo_dev_def device_new_def)
  with tcp_retransmission_bound [OF ex_unacked_facts(1, 2), of ?x es t'] run x show ?thesis by auto
qed

section \<open>Closing\<close>

text \<open>
  C36. A connection of the host with itself is closed from both ends. \<open>close\<close> at the first end succeeds,
  and one run of the software interrupt handler carries the FIN and its acknowledgment; the second end
  then reads all the data it has with one call, and the end of the data (no bytes) with the next. \<open>close\<close> at
  the second end, after these reads, succeeds, one run of the handler carries its FIN and the
  acknowledgment, and the second end is gone; the first waits in \<open>TimeWait\<close>, and the first tick of the TCP
  timer after its waiting time removes it. The two ends are at rest before, both receive windows are open,
  and neither window wraps around the end of the sequence space.
\<close>

theorem tcp_loopback_teardown:
  assumes wf: "stack_wf s" and loop: "tcp_loop (tcp_view s) a iface dev" and empty: "input_queue (st_link s) = []"
    and linked: "tcp_linked (tcp_view s) a c d" and p: "tcp_get c (tcp_view s) = Some p"
    and q: "tcp_get d (tcp_view s) = Some q" and backlog: "t_backlog q = []" and "rcv_wnd p \<noteq> 0" and "rcv_wnd q \<noteq> 0"
    and "unat (rcv_nxt p) + unat (rcv_wnd p) < 2 ^ 32" and "unat (rcv_nxt q) + 65535 + 1 < 2 ^ 32"
    and n: "length (t_buf q) \<le> n"
  shows "\<exists>s1 s2 s3 s4 s5 s6 p'. on_tcp (tcp_close c) s = (Ok (), s1) \<and> softirq_handler (3 + k) s1 = Some s2 \<and>
    on_tcp (receive_pass d n) s2 = (Return (Ok (t_buf q)), s3) \<and>
    on_tcp (receive_pass d m) s3 = (Return (Ok []), s4) \<and>
    on_tcp (tcp_close d) s4 = (Ok (), s5) \<and> softirq_handler (3 + k) s5 = Some s6 \<and>
    input_queue (st_link s6) = [] \<and> tcp_get d (tcp_view s6) = None \<and>
    tcp_get c (tcp_view s6) = Some p' \<and> t_state p' = TimeWait \<and>
    (\<forall>t. tcp_get c t = Some p' \<and> tw_timer p' < fst (tcp_now t) \<longrightarrow> tcp_get c (tcp_on_timer t) = None)"
proof -
  have pair: "tcp_pair (tcp_view s) a c p d q" and st: "t_state p = Established" "t_state q = Established"
    using linked_pair [OF linked p q] by simp_all
  have win: "win_ok q" using wf tcp_wfD(2) [OF _ q] by (simp add: stack_wf_def)
  have small: "unat (rcv_nxt q) + unat (rcv_wnd q) < 2 ^ 32" using assms(11) unat_u16_less [of "rcv_wnd q"] by linarith
  obtain s1 s1' s2 p' w where first: "on_tcp (tcp_close c) s = (Ok (), s1)" "softirq_step s1 = Some s1'"
    "softirq_step s1' = Some s2" "tcp_loop (tcp_view s2) a iface dev" "input_queue (st_link s2) = []"
    and pair2: "tcp_pair (tcp_view s2) a c p' d (fin_received w q)"
    and p': "t_state p' = FinWait2" "rcv_nxt p' = rcv_nxt p" "rcv_wnd p' = rcv_wnd p"
    using first_close [OF loop empty pair st] small assms(9, 10) by auto
  let ?q = "fin_received w q"
  have q': "t_state ?q = CloseWait" "t_buf ?q = t_buf q" "win_ok ?q"
    using st win by (simp_all add: fin_received_def finned_def win_ok_def)
  obtain s3 s4 where reads: "on_tcp (receive_pass d n) s2 = (Return (Ok (t_buf q)), s3)"
    "on_tcp (receive_pass d m) s3 = (Return (Ok []), s4)" "tcp_loop (tcp_view s4) a iface dev" "input_queue (st_link s4) = []"
    and pair4: "tcp_pair (tcp_view s4) a c p' d (?q\<lparr>t_buf := [], rcv_wnd := 65535\<rparr>)"
    using read_to_end [OF first(4) pair2 q'(1, 3), of n m] n first(5) unfolding q'(2) by auto
  let ?r = "?q\<lparr>t_buf := [], rcv_wnd := 65535\<rparr>"
  have r: "t_state ?r = CloseWait" "t_backlog ?r = []" using st backlog by (simp_all add: fin_received_def finned_def)
  have wnd: "rcv_wnd p' \<noteq> 0" "unat (rcv_nxt p') + unat (rcv_wnd p') < 2 ^ 32" "unat (rcv_nxt ?r) + unat (rcv_wnd ?r) < 2 ^ 32"
    using p' no_wrap_one [of "rcv_nxt q"] assms(8, 10, 11) by (simp_all add: fin_received_def)
  have pair4': "tcp_pair (tcp_view s4) a d ?r c p'" using pair4 by (simp add: tcp_pair_sym)
  obtain s5 s5' s6 v where second: "on_tcp (tcp_close d) s4 = (Ok (), s5)" "softirq_step s5 = Some s5'"
    "softirq_step s5' = Some s6" "input_queue (st_link s6) = []"
    and get: "\<And>f. tcp_get f (tcp_view s6) = (if f = d then None else if f = c then Some (fin_received v p')
       else tcp_get f (tcp_view s4))"
    using second_close [OF reads(3, 4) pair4' r(1) p'(1) r(2) wnd] by auto
  have "softirq_handler (3 + k) s1 = Some s2" "softirq_handler (3 + k) s5 = Some s6"
    using first(2, 3, 5) second(2-4) softirq_step_None [of s2] softirq_step_None [of s6] by (simp_all add: numeral_eq_Suc)
  moreover have tw: "t_state (fin_received v p') = TimeWait" using p'(1) by (simp add: fin_received_def finned_def)
  moreover have "tcp_get d (tcp_view s6) = None" "tcp_get c (tcp_view s6) = Some (fin_received v p')"
    using get tcp_pairD(1) [OF pair] by simp_all
  moreover note timewait_expires [OF _ tw]
  ultimately show ?thesis using first(1) reads(1, 2) second(1, 4) by blast
qed

text \<open>The same connection, with two bytes at the second end that have not been read.\<close>

definition ex_unread :: stack where
  "ex_unread = ex_stack\<lparr>st_tcp := [Some (ex_near\<lparr>snd_wnd := 65533\<rparr>), Some (ex_far\<lparr>t_buf := [7, 8], rcv_wnd := 65533\<rparr>)]\<rparr>"

lemma ex_unread_facts:
  "stack_wf ex_unread" "tcp_host (tcp_view ex_unread) = ex_host" "input_queue (st_link ex_unread) = []"
  "tcp_get f (tcp_view ex_unread) = (if f = 0 then Some (ex_near\<lparr>snd_wnd := 65533\<rparr>)
     else if f = 1 then Some (ex_far\<lparr>t_buf := [7, 8], rcv_wnd := 65533\<rparr>) else None)"
proof -
  show "stack_wf ex_unread"
    unfolding ex_unread_def by (rule ex_tcp_pair_wf) (simp_all add: win_ok_def ex_ends RECV_BUF_SIZE_def)
  show "tcp_host (tcp_view ex_unread) = ex_host" by (simp add: ex_unread_def ex_stack_def)
  then show "input_queue (st_link ex_unread) = []" by (simp add: ex_host_def ex_lower)
  show "tcp_get f (tcp_view ex_unread) = (if f = 0 then Some (ex_near\<lparr>snd_wnd := 65533\<rparr>)
     else if f = 1 then Some (ex_far\<lparr>t_buf := [7, 8], rcv_wnd := 65533\<rparr>) else None)"
    by (auto simp: tcp_get_def ex_unread_def slot_get_def less_Suc_eq nth_Cons split: nat.splits)
qed

lemma ex_unread_linked: "tcp_linked (tcp_view ex_unread) (IpAddr 127 0 0 1) 0 1"
  by (simp add: tcp_linked_def ex_unread_facts end_ok_def mirrors_def only_match_def tcp_match_def)
    (auto simp: ex_ends split: if_splits)

theorem tcp_loopback_teardown_witness:
  "\<exists>s1 s2 s3 s4 s5 s6. on_tcp (tcp_close 0) ex_unread = (Ok (), s1) \<and> softirq_handler 3 s1 = Some s2 \<and>
     on_tcp (receive_pass 1 100) s2 = (Return (Ok [7, 8]), s3) \<and> on_tcp (receive_pass 1 100) s3 = (Return (Ok []), s4) \<and>
     on_tcp (tcp_close 1) s4 = (Ok (), s5) \<and> softirq_handler 3 s5 = Some s6 \<and> tcp_get 1 (tcp_view s6) = None"
proof -
  let ?p = "ex_near\<lparr>snd_wnd := 65533\<rparr>" and ?q = "ex_far\<lparr>t_buf := [7, 8], rcv_wnd := 65533\<rparr>"
  have hyps: "t_backlog ?q = []" "rcv_wnd ?p \<noteq> 0" "rcv_wnd ?q \<noteq> 0"
    "unat (rcv_nxt ?p) + unat (rcv_wnd ?p) < 2 ^ 32" "unat (rcv_nxt ?q) + 65535 + 1 < 2 ^ 32" "length (t_buf ?q) \<le> 100"
    by (simp_all add: ex_ends)
  have get: "tcp_get 0 (tcp_view ex_unread) = Some ?p" "tcp_get 1 (tcp_view ex_unread) = Some ?q"
    by (simp_all add: ex_unread_facts)
  have "t_buf ?q = [7, 8]" by simp
  with tcp_loopback_teardown [OF ex_unread_facts(1) ex_tcp_loop [OF ex_unread_facts(2)] ex_unread_facts(3) ex_unread_linked
      get hyps, of 0 100] show ?thesis by (metis add_0_right)
qed

end
