(* ===== verification/Softirq.thy ===== *)
theory Softirq
  imports Stack_Props
begin

text \<open>
  The input queue between the threads that fill it and the dispatcher that empties it (\<^verbatim>\<open>net.rs\<close>,
  \<^verbatim>\<open>platform/linux/softirq.rs\<close>, \<^verbatim>\<open>intr.rs\<close>), as a step relation. A thread queues a packet and only
  then sends \<open>SIGUSR1\<close>; signals that are sent while one is pending are merged into it; the dispatcher
  removes the pending signal before it empties the queue. The theory shows that no packet is left
  behind in any interleaving, although there may be fewer signals than packets.
\<close>

section \<open>Steps\<close>

text \<open>
  \<open>softirqs\<close> of the operating system counts the calls of \<open>softirq::raise\<close> that are due because a packet
  was queued, \<open>sf_sent\<close> those that have reached \<open>kill\<close>. \<open>sf_pending\<close> is the pending signal of the process,
  \<open>sf_running\<close> says that the dispatcher is inside \<open>softirq_handler\<close>. \<open>sf_in\<close> and \<open>sf_out\<close> are the packets
  queued and taken out so far.
\<close>

record soft =
  sf_stack :: stack
  sf_sent :: nat
  sf_pending :: bool
  sf_running :: bool
  sf_in :: "input_entry list"
  sf_out :: "input_entry list"

abbreviation sf_queue :: "soft \<Rightarrow> input_entry list" where
  "sf_queue x \<equiv> input_queue (st_link (sf_stack x))"

abbreviation sf_due :: "soft \<Rightarrow> nat" where
  "sf_due x \<equiv> softirqs (lk_os (st_link (sf_stack x)))"

abbreviation sf_panicked :: "soft \<Rightarrow> bool" where
  "sf_panicked x \<equiv> panicked (lk_os (st_link (sf_stack x)))"

text \<open>The dispatcher runs, waits for \<open>SIGUSR1\<close>, and has the handler for it.\<close>

definition soft_ready :: "link \<Rightarrow> bool" where
  "soft_ready l \<longleftrightarrow> intr_dispatch SIGUSR1 (irqs l) = [SoftirqIsr] \<and>
     (case dispatcher l of None \<Rightarrow> False | Some sigmask \<Rightarrow> SIGUSR1 \<in> set sigmask)"

definition soft_start :: "stack \<Rightarrow> soft" where
  "soft_start s = \<lparr>sf_stack = s, sf_sent = softirqs (lk_os (st_link s)), sf_pending = False, sf_running = False,
     sf_in = [], sf_out = []\<rparr>"

text \<open>
  The steps of the threads that have queued a packet and of the dispatcher: \<open>kill\<close>, the return of
  \<open>sigwait\<close>, a pass of the handler, and its end. A panic ends the thread.
\<close>

inductive own_step :: "soft \<Rightarrow> soft \<Rightarrow> bool" where
  raise: "sf_sent x < sf_due x \<Longrightarrow> own_step x (x\<lparr>sf_sent := Suc (sf_sent x), sf_pending := True\<rparr>)"
| sigwait: "sf_pending x \<Longrightarrow> \<not> sf_running x \<Longrightarrow> \<not> sf_panicked x \<Longrightarrow>
    soft_ready (st_link (sf_stack x)) \<Longrightarrow>
    own_step x (x\<lparr>sf_pending := False, sf_running := True\<rparr>)"
| pass: "sf_running x \<Longrightarrow> \<not> sf_panicked x \<Longrightarrow> softirq_step (sf_stack x) = Some s' \<Longrightarrow>
    own_step x (x\<lparr>sf_stack := s', sf_out := sf_out x @ [hd (sf_queue x)],
                  sf_in := sf_in x @ drop (length (tl (sf_queue x))) (input_queue (st_link s'))\<rparr>)"
| leave: "sf_running x \<Longrightarrow> \<not> sf_panicked x \<Longrightarrow> softirq_step (sf_stack x) = None \<Longrightarrow>
    own_step x (x\<lparr>sf_running := False\<rparr>)"

inductive_cases own_stepE: "own_step x y"

text \<open>
  Any other step of any thread or interrupt handler: it obeys the contract of the operations that
  send and receive packets, so it appends to the queue and owes a signal for every packet it queues.
\<close>

inductive soft_step :: "soft \<Rightarrow> soft \<Rightarrow> bool" where
  own: "own_step x y \<Longrightarrow> soft_step x y"
| others: "link_extends (st_link (sf_stack x)) (st_link s') \<Longrightarrow>
    soft_step x (x\<lparr>sf_stack := s', sf_in := sf_in x @ drop (length (sf_queue x)) (input_queue (st_link s'))\<rparr>)"

text \<open>From a stack with an empty queue whose dispatcher is ready.\<close>

inductive soft_reach :: "soft \<Rightarrow> bool" where
  start: "input_queue (st_link s) = [] \<Longrightarrow> soft_ready (st_link s) \<Longrightarrow>
    soft_reach (soft_start s)"
| step: "soft_reach x \<Longrightarrow> soft_step x y \<Longrightarrow> soft_reach y"

section \<open>What a pass does to the queue\<close>

lemma ip_deliver_extends: "link_extends (st_link s) (st_link (ip_deliver h hdr payload iface s))"
  using udp_input_ip [of "udp_view s" hdr payload iface] tcp_input_below [of "tcp_view s" hdr payload iface]
    icmp_input_ip [of "st_ip s" hdr payload iface]
  by (simp add: ip_deliver_def ip_extends_def tcp_below_def split: ip_handler.splits)

lemma ip_input_extends: "link_extends (st_link s) (st_link (ip_input data dev s))"
  using icmp_output_ip [of "st_ip s"]
  by (simp add: ip_input_def ip_deliver_extends ip_extends_def ip_panic_def split: ip_verdict.splits)

lemma net_dispatch_extends: "link_extends (st_link s) (st_link (net_dispatch h data i s))"
  using arp_input_ip [of "st_ip s" data i]
  by (simp add: net_dispatch_def ip_input_extends ip_extends_def split: net_handler.splits option.splits)

text \<open>A pass takes the first packet out, and otherwise obeys the contract too.\<close>

lemma softirq_step_extends:
  assumes "softirq_step s = Some s'"
  shows "\<exists>e es. input_queue (st_link s) = e # es \<and>
    link_extends ((st_link s)\<lparr>input_queue := es\<rparr>) (st_link s')"
proof -
  obtain e es where q: "input_queue (st_link s) = e # es"
    using assms by (cases "input_queue (st_link s)") (simp_all add: softirq_step_def softirq_pop_def)
  let ?s = "st_with_link ((st_link s)\<lparr>input_queue := es\<rparr>) s"
  have "link_extends (st_link ?s) (st_link s')"
    using assms q by (auto simp: softirq_step_def softirq_pop_def Let_def net_dispatch_extends split: option.splits
        simp del: st_with_link_simps)
  with q show ?thesis by simp
qed

lemma softirq_step_idle: "softirq_step s = None \<longleftrightarrow> input_queue (st_link s) = []"
  by (simp add: softirq_step_def softirq_pop_def Let_def split: list.splits)

text \<open>The contract, as the invariant needs it.\<close>

lemma link_extends_queue:
  assumes "link_extends l l'"
  obtains es where "input_queue l' = input_queue l @ es" and "softirqs (lk_os l') = softirqs (lk_os l) + length es"
    and "soft_ready l' = soft_ready l"
  using assms by (auto simp: link_extends_def os_extends_def soft_ready_def)

lemma soft_ready_queue [simp]: "soft_ready (l\<lparr>input_queue := q\<rparr>) = soft_ready l"
  by (simp add: soft_ready_def)

text \<open>A successful \<open>net::run\<close> makes the dispatcher ready.\<close>

lemma dispatched_in: "intr_dispatch sig q \<noteq> [] \<Longrightarrow> sig \<in> irq ` set q"
  by (cases "filter (\<lambda>e. irq e = sig) q") (auto simp: intr_dispatch_def dest!: filter_eq_ConsD)

lemma net_run_ready:
  assumes "intr_dispatch SIGUSR1 (irqs l) = [SoftirqIsr]" and "net_run l = (Ok (), l')"
  shows "soft_ready l'"
  using assms dispatched_in [of SIGUSR1 "irqs l"]
  by (auto simp: net_run_def platform_run_def intr_run_def timer_run_def and_then_def soft_ready_def case_prod_beta Let_def
      split: if_splits)

section \<open>No packet is left behind\<close>

definition soft_inv :: "soft \<Rightarrow> bool" where
  "soft_inv x \<longleftrightarrow> sf_in x = sf_out x @ sf_queue x \<and> sf_sent x \<le> sf_due x \<and>
     (sf_queue x \<noteq> [] \<longrightarrow> sf_running x \<or> sf_pending x \<or> sf_sent x < sf_due x) \<and>
     soft_ready (st_link (sf_stack x))"

lemma own_step_inv: "own_step x y \<Longrightarrow> soft_inv x \<Longrightarrow> soft_inv y"
proof (induction rule: own_step.induct)
  case (pass x s')
  obtain e es where q: "sf_queue x = e # es" and "link_extends ((st_link (sf_stack x))\<lparr>input_queue := es\<rparr>) (st_link s')"
    using softirq_step_extends [OF pass.hyps(3)] by blast
  then show ?case using pass by (auto simp: soft_inv_def elim: link_extends_queue)
qed (auto simp: soft_inv_def softirq_step_idle)

lemma soft_step_inv: "soft_step x y \<Longrightarrow> soft_inv x \<Longrightarrow> soft_inv y"
proof (induction rule: soft_step.induct)
  case (others x s')
  from others.hyps show ?case
  proof (cases rule: link_extends_queue)
    case (1 es)
    with others.prems show ?thesis by (cases es) (auto simp: soft_inv_def)
  qed
qed (rule own_step_inv)

lemma soft_reach_inv: "soft_reach x \<Longrightarrow> soft_inv x"
  by (induction rule: soft_reach.induct) (simp add: soft_inv_def soft_start_def, rule soft_step_inv)

section \<open>Every packet is handled\<close>

text \<open>
  At least \<open>n\<close> packets are taken out in the end, whatever the order of the steps, unless a thread
  panics: as long as they are not, some step is possible, and every possible step leads on.
\<close>

inductive handles :: "nat \<Rightarrow> soft \<Rightarrow> bool" where
  finished: "n \<le> length (sf_out x) \<or> sf_panicked x \<Longrightarrow> handles n x"
| onward: "\<exists>y. own_step x y \<Longrightarrow> (\<And>y. own_step x y \<Longrightarrow> handles n y) \<Longrightarrow> handles n x"

definition soft_work :: "soft \<Rightarrow> nat" where
  "soft_work x = 3 * (sf_due x - sf_sent x) + (if sf_pending x then 2 else 0)"

text \<open>While a packet waits, some step is possible, and each passes a packet on or leaves less to do before the next pass.\<close>

lemma own_step_possible:
  assumes "soft_inv x" and "sf_queue x \<noteq> []" and "\<not> sf_panicked x"
  shows "\<exists>y. own_step x y"
proof (cases "sf_running x")
  case True
  then obtain s' where "softirq_step (sf_stack x) = Some s'"
    using assms(2) softirq_step_idle [of "sf_stack x"] by auto
  with True assms(3) show ?thesis by (blast intro: own_step.pass)
next
  case False
  with assms show ?thesis by (auto simp: soft_inv_def intro: own_step.sigwait own_step.raise)
qed

lemma own_step_progress:
  assumes "own_step x y" and "sf_queue x \<noteq> []"
  shows "length (sf_out y) = Suc (length (sf_out x)) \<or> sf_out y = sf_out x \<and> soft_work y < soft_work x"
  using assms by (cases rule: own_step.cases) (auto simp: soft_work_def softirq_step_idle)

lemma own_step_in: "own_step x y \<Longrightarrow> length (sf_in x) \<le> length (sf_in y)"
  by (auto elim!: own_stepE)

lemma soft_inv_handles: "soft_inv x \<Longrightarrow> n \<le> length (sf_in x) \<Longrightarrow> handles n x"
proof (induction x rule: wf_induct_rule [OF wf_measures, of "[\<lambda>x. n - length (sf_out x), soft_work]"])
  case (1 x)
  show ?case
  proof (cases "n \<le> length (sf_out x) \<or> sf_panicked x")
    case False
    with 1(2, 3) have wait: "sf_queue x \<noteq> []" "\<not> sf_panicked x" by (auto simp: soft_inv_def)
    show ?thesis
    proof (rule handles.onward)
      show "\<exists>y. own_step x y" by (rule own_step_possible [OF 1(2) wait])
      fix y assume y: "own_step x y"
      show "handles n y"
      proof (rule 1(1))
        show "(y, x) \<in> measures [\<lambda>x. n - length (sf_out x), soft_work]"
          using own_step_progress [OF y wait(1)] False by auto
        show "soft_inv y" using y 1(2) by (rule own_step_inv)
        show "n \<le> length (sf_in y)" using 1(3) own_step_in [OF y] by simp
      qed
    qed
  qed (rule handles.finished)
qed

end
