(* ===== verification/Claims_Net.thy ===== *)
theory Claims_Net
  imports Example Errors Softirq
begin

text \<open>
  The properties of UDP and of the layers below it, each with an instance on the example machine.
\<close>

section \<open>UDP\<close>

text \<open>
  C16. Whatever calls and datagrams come in after start-up, the UDP table has at most 16 slots,
  every control block has a task of its own, and no two control blocks with a port are bound to
  endpoints that overlap.
\<close>

theorem udp_table_invariant:
  assumes "s = fold udp_apply es \<lparr>udp_host = h, udp_pcbs = []\<rparr>"
  shows "length (udp_pcbs s) \<le> 16 \<and>
    (\<forall>d e p q. udp_pcb_get d s = Some p \<longrightarrow> udp_pcb_get e s = Some q \<longrightarrow> d \<noteq> e \<longrightarrow>
       u_task p \<noteq> u_task q \<and> (port (u_local p) \<noteq> 0 \<longrightarrow> \<not> udp_match (u_local p) q))"
proof -
  have wf: "udp_wf s" unfolding assms by (rule udp_events_wf [OF udp_empty_wf])
  show ?thesis
    using udp_wfD(1) [OF wf] udp_wfD(3, 4) [OF wf] by (auto simp: UDP_PCB_SIZE_MAX_def)
qed

theorem udp_table_invariant_witness:
  "length (udp_pcbs (fold udp_apply [UOpen, UBind 0 ex_local, UOpen] \<lparr>udp_host = ex_host, udp_pcbs = []\<rparr>)) \<le> 16"
  using udp_table_invariant [OF refl, of "[UOpen, UBind 0 ex_local, UOpen]" ex_host] by blast

text \<open>
  C17. A datagram that \<open>output\<close> builds for a bound endpoint is accepted by \<open>input\<close> on the receiving
  host, is appended to the queue of exactly that endpoint with the sender's endpoint, and notifies
  its task.
\<close>

theorem udp_datagram_delivered:
  assumes "udp_wf s" and "udp_pcb_get d s = Some p" and "port (u_local p) \<noteq> 0"
    and "addr (u_local p) = addr dst \<or> addr (u_local p) = ip_any" and "port dst = port (u_local p)"
    and "addr dst \<noteq> ip_any" and "8 + length data \<le> 65535"
    and "ip_src hdr = addr src" and "ip_dst hdr = addr dst"
    and "s' = udp_input hdr (udp_datagram src dst data) iface s"
  shows "udp_pending s' e = udp_pending s e @ (if e = d then [(src, data)] else []) \<and>
    host_tasks (udp_host s') = task_notify (u_task p) (host_tasks (udp_host s))"
proof -
  have endp: "ip_endp_new (addr src) (port src) = src" by (simp add: ip_endp_new_def)
  note valid = udp_datagram_valid [OF assms(7-9)] and fields = udp_datagram_fields [OF assms(7), of src dst]
  show ?thesis
    using udp_input_delivers [OF assms(1-3) _ valid, of iface] assms(4-9) endp
    unfolding assms(10) by (simp add: fields)
qed

theorem udp_datagram_delivered_witness:
  "udp_pending (udp_input (ex_hdr IP_PROTOCOL_UDP (IpAddr 192 0 2 1) (IpAddr 192 0 2 2))
     (udp_datagram ex_peer (ip_endp_new (IpAddr 192 0 2 2) 7) [1, 2, 3]) ex_if ex_udp) 0 = [(ex_peer, [1, 2, 3])]"
proof -
  have "udp_pending ex_udp 0 = []" by (simp add: udp_pending_def ex_udp_get ex_udp_pcb_def)
  then show ?thesis
    using udp_datagram_delivered [of ex_udp 0 ex_udp_pcb "ip_endp_new (IpAddr 192 0 2 2) 7" "[1, 2, 3]"
        "ex_hdr IP_PROTOCOL_UDP (IpAddr 192 0 2 1) (IpAddr 192 0 2 2)" ex_peer _ ex_if 0] ex_udp_wf
    by (simp add: ex_udp_get) (simp add: ex_udp_pcb_def ip_endp_new_def ip_any_def ex_peer_def)
qed

text \<open>
  C18. A thread that waits in \<open>recvfrom\<close> on a bound socket is woken by the next valid datagram for
  it, and its call returns that datagram (cut to the size of the buffer) with the sender's endpoint.
\<close>

theorem udp_receiver_woken:
  assumes "udp_wf s" and "recvfrom_pass d n s = (WaitOn t snap, s1)"
    and "udp_pcb_get d s = Some p" and "port (u_local p) \<noteq> 0"
    and "addr (u_local p) = ip_dst hdr \<or> addr (u_local p) = ip_any"
    and "udp_valid hdr data" and "udp_dst data = port (u_local p)" and "ip_dst hdr \<noteq> ip_any"
  shows "fst (task_wait_poll snap (host_tasks (udp_host (udp_input hdr data iface s1)) ! t)) \<noteq> None \<and>
    (\<exists>s2. recvfrom d n [(Notified, udp_input hdr data iface s1)] s =
       Some (Inr (ip_endp_new (ip_src hdr) (udp_src data), take n (drop UDP_HDR_SIZE data)), s2))"
  using recvfrom_woken [OF assms, of iface] by blast

theorem udp_receiver_woken_witness:
  "\<exists>s2. recvfrom 0 2 [(Notified, udp_input (ex_hdr IP_PROTOCOL_UDP (IpAddr 192 0 2 1) (IpAddr 192 0 2 2))
       (udp_datagram ex_peer (ip_endp_new (IpAddr 192 0 2 2) 7) [1, 2, 3]) ex_if ex_udp)] ex_udp =
     Some (Inr (ex_peer, [1, 2]), s2)"
proof -
  let ?hdr = "ex_hdr IP_PROTOCOL_UDP (IpAddr 192 0 2 1) (IpAddr 192 0 2 2)"
  let ?data = "udp_datagram ex_peer (ip_endp_new (IpAddr 192 0 2 2) 7) [1, 2, 3]"
  have wait: "recvfrom_pass 0 2 ex_udp = (WaitOn 0 (task_snapshot 0 (host_tasks (udp_host ex_udp))), ex_udp)"
    by (simp add: recvfrom_pass_def ex_udp_get ex_udp_pcb_def)
  have valid: "udp_valid ?hdr ?data"
    by (rule udp_datagram_valid) (simp_all add: ex_peer_def ip_endp_new_def)
  have fields: "udp_src ?data = port ex_peer" "udp_dst ?data = 7" "drop UDP_HDR_SIZE ?data = [1, 2, 3]"
    using udp_datagram_fields [of "[1, 2, 3]" ex_peer "ip_endp_new (IpAddr 192 0 2 2) 7"]
    by (simp_all add: ip_endp_new_def)
  show ?thesis
    using udp_receiver_woken [OF ex_udp_wf wait, of ex_udp_pcb ?hdr ?data ex_if] valid
    by (simp add: ex_udp_get fields) (simp add: ex_udp_pcb_def ip_endp_new_def ip_any_def ex_peer_def)
qed

text \<open>
  \<open>sendto\<close> on a socket without a port always finds a dynamic port, and the port it gets is not
  in use by any socket the address overlaps with.
\<close>

theorem udp_dynamic_port:
  assumes "udp_wf s" and "udp_pcb_get d s = Some p"
  shows "\<exists>q s'. udp_assign_dynamic_port d a s = (Ok q, s') \<and>
    (\<forall>e r. udp_pcb_get e s = Some r \<longrightarrow> \<not> udp_match (ip_endp_new a q) r)"
  using udp_assign_succeeds [OF udp_wfD(1) [OF assms(1)] assms(2)] .

theorem udp_dynamic_port_witness: "\<exists>q s'. udp_assign_dynamic_port 0 ip_any ex_udp = (Ok q, s')"
  using udp_dynamic_port [OF ex_udp_wf, of 0 ex_udp_pcb ip_any] by (auto simp: ex_udp_get)

section \<open>IP and ICMP\<close>

text \<open>
  C20. \<open>route_lookup\<close> is longest prefix match: it returns a matching route such that every earlier
  matching route has a shorter prefix and no later one a longer prefix, and nothing only if no
  route matches.
\<close>

theorem ip_longest_prefix:
  "case route_lookup dst s of
     None \<Rightarrow> \<forall>r \<in> set (ip_routes s). \<not> route_matches dst r
   | Some b \<Rightarrow> longest_match dst (ip_routes s) b"
  using route_loop_longest [where dst = dst and rs = "ip_routes s"] by (simp add: route_lookup_def)

theorem ip_longest_prefix_witness:
  "\<exists>b. route_lookup (IpAddr 127 0 0 1) ex_ip = Some b \<and> longest_match (IpAddr 127 0 0 1) (ip_routes ex_ip) b"
  using ip_longest_prefix [where dst = "IpAddr 127 0 0 1" and s = ex_ip] ex_loopback
  by (auto simp: loopback_to_def)

text \<open>
  C21. An IP packet that \<open>build_packet\<close> makes passes every check of \<open>input\<close> on a host with an
  interface for its destination, padding behind it included, and reaches the handler of its
  protocol with exactly the payload that was sent and the addresses of the sender.
\<close>

theorem ip_packet_roundtrip:
  assumes "build_packet protocol data src dst ident = Ok buf"
    and "dev_get_iface FAMILY_IP dev = Some iface"
    and "dst \<in> {if_unicast iface, if_broadcast iface, ip_broadcast}"
    and "find (\<lambda>p. fst p = protocol) protocols = Some (protocol, h)"
  shows "ip_input_verdict (buf @ pad) dev protocols = IpDeliver h data iface \<and>
    ip_src (buf @ pad) = src \<and> ip_dst (buf @ pad) = dst"
  using ip_packet_delivered [OF assms(1, 2) _ assms(4), of pad] assms(3) by auto

theorem ip_packet_roundtrip_witness:
  "\<exists>buf. build_packet IP_PROTOCOL_UDP [1, 2] (IpAddr 192 0 2 1) (IpAddr 192 0 2 2) 9 = Ok buf \<and>
     ip_input_verdict (buf @ [0, 0]) ex_tap_dev (ip_protocols ex_ip) = IpDeliver UdpInput [1, 2] ex_if"
proof -
  let ?p = "build_packet IP_PROTOCOL_UDP [1, 2] (IpAddr 192 0 2 1) (IpAddr 192 0 2 2) 9"
  obtain buf where buf: "?p = Ok buf"
    using build_packet_layout [of "[1, 2]" IP_PROTOCOL_UDP "IpAddr 192 0 2 1" "IpAddr 192 0 2 2" 9]
    by (simp add: IP_HDR_SIZE_MIN_def)
  have "dev_get_iface FAMILY_IP ex_tap_dev = Some ex_if"
    by (simp add: ex_tap_dev_def dev_get_iface_def iface_family_def)
  then show ?thesis
    using ip_packet_roundtrip [OF buf, of ex_tap_dev ex_if "ip_protocols ex_ip" UdpInput "[0, 0]"] buf
    by (simp add: ex_if_def ex_ip_def IP_PROTOCOL_UDP_def IP_PROTOCOL_ICMP_def)
qed

text \<open>
  C22. An ICMP echo request is answered by exactly one echo reply to its sender, with the same
  identifier, sequence number and data; any other ICMP message, and one with a wrong checksum, is
  ignored.
\<close>

theorem icmp_echo_answered:
  assumes "length data \<le> 65535"
  shows "icmp_input hdr (icmp_message ICMP_TYPE_ECHO code dep data) iface s =
      snd (icmp_output ICMP_TYPE_ECHO_REPLY 0 dep data (if_unicast iface) (ip_src hdr) s) \<and>
    (length msg < 8 \<or> cksum16 msg 0 \<noteq> 0 \<or> icmp_ty msg \<noteq> ICMP_TYPE_ECHO \<longrightarrow> icmp_input hdr msg iface s = s)"
  using icmp_input_echo [OF assms] icmp_input_other by blast

theorem icmp_echo_answered_witness:
  "icmp_input (ex_hdr IP_PROTOCOL_ICMP (IpAddr 192 0 2 1) (IpAddr 192 0 2 2))
     (icmp_message ICMP_TYPE_ECHO 0 0x00010002 [5, 6]) ex_if ex_ip =
   snd (icmp_output ICMP_TYPE_ECHO_REPLY 0 0x00010002 [5, 6] (IpAddr 192 0 2 2) (IpAddr 192 0 2 1) ex_ip)"
  using icmp_echo_answered [where data = "[5, 6]" and code = 0 and dep = "0x00010002" and iface = ex_if and s = ex_ip
      and hdr = "ex_hdr IP_PROTOCOL_ICMP (IpAddr 192 0 2 1) (IpAddr 192 0 2 2)"]
  by (simp add: ex_if_def)

section \<open>ARP\<close>

text \<open>
  C23. Address resolution: the request a host sends for an address of ours makes us reply with our
  hardware address, and after such a reply arrives, \<open>resolve\<close> gives the hardware address of its
  sender.
\<close>

theorem arp_exchange:
  assumes "cache_wf (arp_cache s)" and "by_index (arp_link s) i = Some dev"
    and "dev_get_iface FAMILY_IP dev = Some iface" and "6 \<le> length mac"
  shows "arp_input (arp_request_packet mac spa (if_unicast iface)) i s =
      snd (arp_reply dev (ether_hdr_dst mac) spa (if_unicast iface) (arp_learn spa (ether_hdr_dst mac) s)) \<and>
    fst (arp_resolve out spa (arp_input (arp_reply_packet mac spa tha (if_unicast iface)) i s)) =
      Ok (Some (ether_hdr_dst mac))"
proof -
  note valid = arp_packets_valid [OF assms(4)] and fields = arp_packet_fields [OF assms(4)]
  have "arp_input (arp_reply_packet mac spa tha (if_unicast iface)) i s = arp_learn spa (ether_hdr_dst mac) s"
    using arp_input_valid [OF valid(3) assms(2, 3)] by (simp add: fields valid ARP_OP_REQUEST_def ARP_OP_REPLY_def)
  moreover have "arp_input (arp_request_packet mac spa (if_unicast iface)) i s =
      snd (arp_reply dev (ether_hdr_dst mac) spa (if_unicast iface) (arp_learn spa (ether_hdr_dst mac) s))"
    using arp_input_valid [OF valid(1) assms(2, 3)] by (simp add: fields valid)
  ultimately show ?thesis using arp_learn_select [OF assms(1)] by (simp add: arp_resolve_def)
qed

theorem arp_exchange_witness:
  "fst (arp_resolve ex_if (IpAddr 192 0 2 1)
     (arp_input (arp_reply_packet [2, 0, 0, 0, 0, 9] (IpAddr 192 0 2 1) ETHER_ADDR_ANY (IpAddr 192 0 2 2)) 1 ex_arp)) =
   Ok (Some (EtherAddr 2 0 0 0 0 9))"
proof -
  have "by_index (arp_link ex_arp) 1 = Some ex_tap_dev" "dev_get_iface FAMILY_IP ex_tap_dev = Some ex_if"
    by (simp_all add: by_index_def ex_arp_def ex_link_def ex_tap_dev_def dev_get_iface_def iface_family_def)
  then show ?thesis
    using arp_exchange [OF ex_cache_wf, of 1 ex_tap_dev ex_if "[2, 0, 0, 0, 0, 9]" "IpAddr 192 0 2 1" ex_if ETHER_ADDR_ANY]
    by (simp add: ex_if_def ether_hdr_dst_def)
qed

text \<open>
  C24. Whatever arrives, is looked up or expires, the ARP cache never holds more than 32 entries
  and at most one entry for an address.
\<close>

datatype arp_event = AInput bytes nat | AResolve ip_iface ip_addr | ATimer

fun arp_apply :: "arp_event \<Rightarrow> arp_state \<Rightarrow> arp_state" where
  "arp_apply (AInput data i) s = arp_input data i s"
| "arp_apply (AResolve iface pa) s = snd (arp_resolve iface pa s)"
| "arp_apply ATimer s = arp_on_timer s"

lemma arp_events_wf: "cache_wf (arp_cache s) \<Longrightarrow> cache_wf (arp_cache (fold arp_apply es s))"
proof (induction es arbitrary: s)
  case (Cons e es)
  then show ?case by (cases e) (simp_all add: arp_input_wf arp_resolve_wf arp_on_timer_wf)
qed simp

theorem arp_cache_invariant:
  assumes "s = fold arp_apply es \<lparr>arp_link = l, arp_cache = []\<rparr>"
  shows "length (arp_cache s) \<le> 32 \<and> distinct (map ce_pa (arp_cache s))"
  using arp_events_wf [of "\<lparr>arp_link = l, arp_cache = []\<rparr>" es] unfolding assms
  by (simp add: cache_wf_def CACHE_SIZE_def)

theorem arp_cache_invariant_witness:
  "length (arp_cache (fold arp_apply [AResolve ex_if (IpAddr 192 0 2 1), ATimer] ex_arp)) \<le> 32"
  using arp_cache_invariant [OF refl, of "[AResolve ex_if (IpAddr 192 0 2 1), ATimer]" ex_link]
  by (simp add: ex_arp_def)

text \<open>
  The timer removes exactly the entries that are at least 30 seconds old and not static, and
  keeps the others in their order.
\<close>

theorem arp_expiry:
  "arp_cache (arp_on_timer s) =
     filter (\<lambda>e. ce_state e = Static \<or> fst (arp_now s) - ce_timestamp e < 30 * 10 ^ 9) (arp_cache s)"
  by (auto simp: arp_on_timer_def case_prod_beta Let_def cache_expire_filter expired_def CACHE_TIMEOUT_def
      intro!: filter_cong)

section \<open>Drivers and platform\<close>

text \<open>
  C26. A frame that the TAP driver sends is taken by a TAP driver whose device has the destination
  address, or by any if it is the broadcast address: the packet goes to the input queue under its
  type, with zeros appended up to the minimum payload of 46 bytes. Other devices ignore it.
\<close>

theorem tap_frame_roundtrip:
  assumes "device_wf dev" and "6 \<le> length dst" and "length data \<le> 1500"
  shows "tap_input dev' (tap_frame dev ty data dst) l =
    (if take 6 dst = take 6 (dev_addr dev') \<or> take 6 dst = ether_bytes ETHER_ADDR_BROADCAST
     then snd (net_input_handler ty (data @ replicate (46 - length data) 0) dev' l) else l)"
  using tap_frame_received [of dst dev data dev' ty l] assms by (simp add: device_wf_def ether_sizes)

theorem tap_frame_roundtrip_witness:
  "tap_input ex_tap_dev (tap_frame ex_tap_dev ETHER_TYPE_ARP [1, 2, 3] ex_mac) ex_link =
   snd (net_input_handler ETHER_TYPE_ARP ([1, 2, 3] @ replicate 43 0) ex_tap_dev ex_link)"
proof -
  have "device_wf ex_tap_dev" "dev_addr ex_tap_dev = ex_mac"
    by (simp_all add: device_wf_def ex_lower ADDR_LEN_def)
  then show ?thesis
    using tap_frame_roundtrip [of ex_tap_dev ex_mac "[1, 2, 3]" ex_tap_dev ETHER_TYPE_ARP ex_link]
    by (simp add: ex_mac_def)
qed

text \<open>
  Opening the TAP device leaks no descriptor: when it fails, at whatever system call, the open
  descriptors are those from before; when it succeeds there is exactly one more, and closing the
  device closes it.
\<close>

theorem tap_open_close_descriptors:
  "open_fds (snd (snd (tap_open tap dev s))) =
     (if is_err (fst (tap_open tap dev s)) then open_fds s else fst (fd_open s) # open_fds s) \<and>
   (tap_fd tap' = fst (fd_open s) \<and> tap_fd tap' \<noteq> - 1 \<and> \<not> is_err (fst (tap_open tap dev s)) \<longrightarrow>
     open_fds (snd (snd (tap_close tap' dev' (snd (snd (tap_open tap dev s)))))) = open_fds s)"
  by (simp add: tap_open_fds tap_close_def fd_close_def)

definition ex_tap :: ether_tap where
  "ex_tap = \<lparr>tap_name = ''tap0'', configured_addr = None, tap_fd = 0, tap_irq = 35\<rparr>"

theorem tap_open_close_descriptors_witness:
  "open_fds (snd (snd (tap_close ex_tap ex_tap_dev (snd (snd (tap_open ex_tap ex_tap_dev ex_os)))))) = []"
proof -
  have "fst (fd_open ex_os) = 0" by (simp add: fd_open_def syscall_def ex_os_def)
  moreover have "\<not> is_err (fst (tap_open ex_tap ex_tap_dev ex_os))"
    by (simp add: tap_open_def tap_mac_def query_mac_def fd_open_def syscall_def ex_os_def ex_tap_def
        fd_close_def numeral_eq_Suc)
  ultimately show ?thesis
    using tap_open_close_descriptors [where tap = ex_tap and dev = ex_tap_dev and s = ex_os and tap' = ex_tap
        and dev' = ex_tap_dev]
    by (simp add: ex_tap_def ex_os_def)
qed

text \<open>
  After any sequence of \<open>register\<close> calls, a signal runs all handlers registered for it, in the
  order of their registration, although the dispatcher stops after the first handler that is not
  shared.
\<close>

theorem intr_dispatch_complete:
  assumes "tab = fold (\<lambda>(i, h, flags, name) q. snd (intr_register i h flags name q)) regs []"
  shows "intr_dispatch sig tab = map isr (filter (\<lambda>e. irq e = sig) tab)"
proof -
  have "irqs_wf q \<Longrightarrow> irqs_wf (fold (\<lambda>(i, h, flags, name) q. snd (intr_register i h flags name q)) regs q)" for q
    by (induction regs arbitrary: q) (auto simp: intr_register_wf)
  then show ?thesis unfolding assms by (intro intr_dispatch_all) simp
qed

theorem intr_dispatch_complete_witness:
  "intr_dispatch 35 (fold (\<lambda>(i, h, flags, name) q. snd (intr_register i h flags name q))
     [(35, TapIsr 0, FLAG_SHARED, ''a''), (10, SoftirqIsr, 0, ''b''), (35, TapIsr 1, FLAG_SHARED, ''c'')] []) =
   [TapIsr 0, TapIsr 1]"
  using intr_dispatch_complete [OF refl, of 35
      "[(35, TapIsr 0, FLAG_SHARED, ''a''), (10, SoftirqIsr, 0, ''b''), (35, TapIsr 1, FLAG_SHARED, ''c'')]"]
  by (simp add: intr_register_def shared_def FLAG_SHARED_def)

text \<open>
  C40. The queue between the threads and the software interrupt, in every interleaving: packets leave
  it in the order in which they came in, none is lost or doubled; when all threads have sent their
  signals, none is pending and the dispatcher is not inside the handler, the queue is empty; and
  from every reachable state, whatever the order of the steps, every packet queued so far is taken
  out in the end, unless a thread panics. Signals that are merged do no harm.
\<close>

theorem softirq_no_packet_lost:
  assumes "soft_reach x"
  shows "sf_in x = sf_out x @ sf_queue x \<and>
    (sf_sent x = sf_due x \<and> \<not> sf_pending x \<and> \<not> sf_running x \<longrightarrow> sf_queue x = []) \<and>
    handles (length (sf_in x)) x"
  using soft_reach_inv [OF assms] soft_inv_handles [OF soft_reach_inv [OF assms], of "length (sf_in x)"]
  by (auto simp: soft_inv_def)

text \<open>A packet that the driver has just queued; its signal has not been sent yet.\<close>

definition ex_soft_stack :: stack where
  "ex_soft_stack = st_with_link (ex_link\<lparr>irqs := [\<lparr>irq = SIGUSR1, isr = SoftirqIsr, irq_flags = 0, irq_name = ''softirq''\<rparr>],
     dispatcher := Some [SIGHUP, SIGUSR1]\<rparr>) ex_stack"

definition ex_arrived :: stack where
  "ex_arrived = st_with_link (snd (net_input_handler PROTOCOL_TYPE_IP [1, 2, 3] ex_tap_dev (st_link ex_soft_stack))) ex_soft_stack"

definition ex_soft :: soft where
  "ex_soft = (soft_start ex_soft_stack)\<lparr>sf_stack := ex_arrived, sf_in := [\<lparr>ie_ty = PROTOCOL_TYPE_IP, ie_data = [1, 2, 3], ie_dev = 1\<rparr>]\<rparr>"

lemma ex_arrived_queue:
  "input_queue (st_link ex_soft_stack) = []"
  "input_queue (st_link ex_arrived) = [\<lparr>ie_ty = PROTOCOL_TYPE_IP, ie_data = [1, 2, 3], ie_dev = 1\<rparr>]"
  by (simp_all add: ex_arrived_def ex_soft_stack_def net_input_handler_def by_index_def ex_lower)

theorem softirq_no_packet_lost_witness: "sf_out ex_soft = [] \<and> length (sf_queue ex_soft) = 1 \<and> handles 1 ex_soft"
proof -
  have "soft_ready (st_link ex_soft_stack)"
    by (simp add: ex_soft_stack_def soft_ready_def intr_dispatch_def)
  then have "soft_reach (soft_start ex_soft_stack)" by (rule soft_reach.start [OF ex_arrived_queue(1)])
  moreover have "link_extends (st_link (sf_stack (soft_start ex_soft_stack))) (st_link ex_arrived)"
    by (simp add: soft_start_def ex_arrived_def net_input_handler_extends)
  then have "soft_step (soft_start ex_soft_stack) ex_soft"
    using soft_step.others [of "soft_start ex_soft_stack" ex_arrived]
    by (simp add: ex_soft_def soft_start_def ex_arrived_queue)
  ultimately have "soft_reach ex_soft" by (rule soft_reach.step)
  from softirq_no_packet_lost [OF this] show ?thesis
    by (simp add: ex_soft_def soft_start_def ex_arrived_queue)
qed

text \<open>
  The timer interrupt runs exactly the handlers whose interval has passed since they last ran,
  in the order of the table, and restarts exactly their intervals.
\<close>

theorem timer_scan_spec:
  "timer_isr ts s =
     (let t = clock s (clock_reads s); due = (\<lambda>e. tm_interval e \<le> t - tm_last e)
      in (map tm_handler (filter due ts), map (\<lambda>e. if due e then e\<lparr>tm_last := t\<rparr> else e) ts,
          s\<lparr>clock_reads := Suc (clock_reads s)\<rparr>))"
  by (simp add: timer_isr_def now_def timer_scan_eq Let_def)

text \<open>
  C28. No wake-up is lost: once a thread has taken a snapshot, any notification after it, however
  mixed with other threads entering, polling and being interrupted, makes its wait return.
\<close>

theorem task_no_lost_wakeup:
  assumes "0 < count_list es TNotify" and "count_list es TNotify < 2 ^ 64"
  shows "fst (task_wait_poll (snapshot t) (fold task_apply es t)) \<noteq> None"
  using assms by (rule no_lost_wakeup)

theorem task_no_lost_wakeup_witness:
  "fst (task_wait_poll (snapshot task_init) (fold task_apply [TEnter, TNotify, TInterrupt] task_init)) \<noteq> None"
  by (rule task_no_lost_wakeup) simp_all

text \<open>
  C29. An interrupt reaches every thread that waits: in every reachable state of a task, once it is
  interrupted all waiting threads return \<open>Interrupted\<close>, and the last of them clears the flag.
\<close>

theorem task_interrupt_reaches_all:
  assumes "task_reach (t, ws)" and "ws \<noteq> []"
  shows "fst (poll_all ws (interrupt t)) = replicate (length ws) (Some Interrupted) \<and>
    \<not> interrupted (snd (poll_all ws (interrupt t)))"
proof -
  have "unat (wc (interrupt t)) = length ws"
    using task_reach_counted [OF assms(1)] by (simp add: waiters_counted_def interrupt_def)
  then show ?thesis using poll_all_interrupted [of "interrupt t" ws] assms(2) by (simp add: interrupt_def)
qed

theorem task_interrupt_reaches_all_witness:
  "fst (poll_all [0] (interrupt (task_init\<lparr>wc := 1\<rparr>))) = [Some Interrupted]"
proof -
  have "task_step (task_init, []) (task_init\<lparr>wc := 1\<rparr>, [0])"
    by (rule enter_sleep) (simp_all add: task_wait_enter_def task_init_def)
  then have "task_reach (task_init\<lparr>wc := 1\<rparr>, [0])" by (rule task_next [OF task_start])
  from task_interrupt_reaches_all [OF this] show ?thesis by simp
qed

section \<open>Encodings\<close>

text \<open>
  C30. \<open>cksum16\<close> is the Internet checksum: the ones' complement of the ones' complement sum of the
  16-bit words of the buffer and the initial value, for every buffer up to the largest packet.
\<close>

theorem cksum16_spec:
  assumes "length data \<le> 65535" and "unat init \<le> 65535"
  shows "unat (cksum16 data init) = 65535 - oc_reduce (unat init + word_sum data)"
  using unat_cksum16 [OF sum_fits_packet] assms by simp

theorem cksum16_spec_witness: "unat (cksum16 [0x45, 0, 0xff] 0) = 65535 - oc_reduce (0x45 + 0xff)"
  using cksum16_spec [of "[0x45, 0, 0xff]" 0] by simp

text \<open>
  C31. Storing the checksum of a buffer with a zeroed field in that field makes the verification of
  the receiver succeed; the checksum of a pseudo header and a segment can be computed in two parts.
\<close>

theorem cksum16_verifies:
  assumes "even (length pre)" and "length pre + length post \<le> 65535"
  shows "cksum16 (pre @ u16_to_ne (cksum16 (pre @ [0, 0] @ post) 0) @ post) 0 = 0 \<and>
    cksum16 post (cksum_init pre) = cksum16 (pre @ post) 0"
proof -
  have "sum_fits (pre @ u16_to_ne (cksum16 (pre @ [0, 0] @ post) 0) @ post) 0" "sum_fits (pre @ post) 0"
    using assms(2) by (auto intro!: sum_fits_packet simp: u16_to_ne_def)
  then show ?thesis using cksum_stored [OF assms(1)] cksum_chain [OF assms(1)] by blast
qed

theorem cksum16_verifies_witness:
  "cksum16 ([8, 0] @ u16_to_ne (cksum16 ([8, 0] @ [0, 0] @ [1, 2, 3]) 0) @ [1, 2, 3]) 0 = 0"
  using cksum16_verifies [of "[8, 0]" "[1, 2, 3]"] by simp

text \<open>
  C32. Every textual form parses back: IP addresses, Ethernet addresses, endpoints and socket
  addresses are recovered from what their \<open>Display\<close> prints.
\<close>

theorem text_roundtrips:
  "ip_from_str (ip_to_str a) = Ok a \<and> ether_from_str (ether_to_str m) = Ok m \<and>
   endp_from_str (endp_to_str e) = Ok e \<and> sa_from_str (sa_to_str sa) = Ok sa"
  by (simp add: ip_from_to_str ether_from_to_str endp_from_to_str sa_str_roundtrip)

section \<open>Errors\<close>

text \<open>
  C19. A call that fails leaves nothing behind: a failed \<open>open\<close> of a socket, \<open>bind\<close> or \<open>listen\<close> leaves the
  whole stack as it was, and a TCP \<open>open\<close> that fails before it waits (no free slot, no route, no
  port, endpoint in use, SYN not sent) leaves every slot of the connection table as it was, the one
  it had allocated included.
\<close>

theorem failed_calls_leave_tables:
  "(sock_open family ty s = (Err, s') \<longrightarrow> s' = s) \<and> (sock_bind desc a s = (Err, s') \<longrightarrow> s' = s) \<and>
   (sock_listen desc n s = (Err, s') \<longrightarrow> s' = s) \<and>
   (open_start loc rem active t = (Err, t') \<longrightarrow> (\<forall>e. tcp_get e t' = tcp_get e t))"
  by (auto dest: sock_open_fails sock_bind_fails sock_listen_fails open_start_fails)

text \<open>A passive \<open>open\<close> of an endpoint that a listener uses, and a socket of an unknown type.\<close>

theorem failed_calls_leave_tables_witness:
  "sock_open AF_INET 9 ex_stack = (Err, ex_stack) \<and>
   (\<exists>t'. open_start ex_local (ip_endp_new ip_any 0) False ex_tcp = (Err, t') \<and> (\<forall>e. tcp_get e t' = tcp_get e ex_tcp))"
proof -
  obtain s' where s': "sock_open AF_INET 9 ex_stack = (Err, s')"
    by (simp add: sock_open_def SOCK_STREAM_def SOCK_DGRAM_def Let_def)
  obtain t1 where alloc: "tcp_pcb_alloc ex_tcp = (Some 4, t1)"
    using ex_alloc by (cases "tcp_pcb_alloc ex_tcp") auto
  have get: "tcp_get 1 t1 = Some ex_listen"
    using tcp_alloc_get [OF ex_alloc, of 1] by (simp add: alloc ex_tcp_get)
  have "tcp_match ex_local (ip_endp_new ip_any 0) ex_listen"
    by (simp add: tcp_match_def ex_pcbs endp_none_def)
  then have "tcp_pcb_select ex_local (ip_endp_new ip_any 0) t1 \<noteq> None"
    using get tcp_select_None [of ex_local "ip_endp_new ip_any 0" t1] by blast
  with alloc have "open_start ex_local (ip_endp_new ip_any 0) False ex_tcp = (Err, snd (tcp_pcb_release 4 t1))"
    by (simp add: open_start_def)
  with s' show ?thesis
    using failed_calls_leave_tables [where family = AF_INET and ty = 9 and s = ex_stack and s' = s'
        and loc = ex_local and rem = "ip_endp_new ip_any 0" and active = False and t = ex_tcp] by blast
qed

text \<open>
  A \<open>connect\<close> that could not send its SYN leaves the endpoints it has chosen in the control block, and
  every further \<open>connect\<close> of the socket to the same peer fails, because the check for an endpoint in
  use finds the socket itself.
\<close>

theorem tcp_connect_retry_fails:
  assumes "tcp_get d t = Some p" and "choose_local (t_local p) rem t = Ok loc" and "addr loc \<noteq> ip_any"
    and "connect_start d rem t = (Err, t')"
  shows "connect_start d rem t' = (Err, t')"
  using connect_retry [OF assms] .

end
