(* ===== verification/Reach.thy ===== *)
theory Reach
  imports Sock_Props
begin

text \<open>
  The states of a running program: what any number of threads can do, one critical section at a
  time, from the empty tables of program start. Every such state satisfies the invariant of the
  stack. Two locales state what a predicate on states has to be closed under so that the set-up of a
  program and every call of the socket interface, with its waits, keep it.
\<close>

section \<open>Configuration\<close>

lemma and_then_preserves:
  assumes "P (snd r)" and "\<And>s. P s \<Longrightarrow> P (snd (f s))"
  shows "P (snd (and_then r f))"
  using assms by (auto simp: and_then_def split: prod.splits result.splits)

text \<open>An operation of the link layer that registers something does not touch the devices.\<close>

lemma registrations_wf:
  assumes "link_wf l"
  shows "link_wf (snd (link_intr_register n h flags name l))" and "link_wf (snd (link_timer_register iv th l))"
    and "link_wf (snd (net_register_protocol ty nh l))" and "link_wf (snd (timer_init l))"
proof -
  show intr: "link_wf (snd (link_intr_register n h flags name l))" for n h flags name
    using assms intr_register_wf [of "irqs l" n h flags name]
    by (simp add: link_intr_register_def link_wf_def case_prod_beta)
  show "link_wf (snd (link_timer_register iv th l))" "link_wf (snd (net_register_protocol ty nh l))"
    using assms by (simp_all add: link_timer_register_def net_register_protocol_def link_wf_def case_prod_beta Let_def)
  show "link_wf (snd (timer_init l))"
    using intr [of SIGALRM TimerIsr FLAG_QUIET "''timer''"]
    by (auto simp: timer_init_def link_wf_def case_prod_beta Let_def split: prod.splits result.splits)
qed

lemma platform_init_wf: "link_wf l \<Longrightarrow> link_wf (snd (platform_init l))"
  unfolding platform_init_def softirq_init_def task_init_irq_def
  by (intro and_then_preserves [where P = link_wf] registrations_wf)

lemma arp_init_wf: "link_wf l \<Longrightarrow> link_wf (snd (arp_init l))"
  unfolding arp_init_def by (intro and_then_preserves [where P = link_wf] registrations_wf)

definition ip_wf :: "ip_state \<Rightarrow> bool" where
  "ip_wf i \<longleftrightarrow> link_wf (ip_link i) \<and> cache_wf (arp_cache (ip_arp i))"

lemma on_link_wf: "ip_wf i \<Longrightarrow> (\<And>l. link_wf l \<Longrightarrow> link_wf (snd (f l))) \<Longrightarrow> ip_wf (snd (on_link f i))"
  by (simp add: on_link_def ip_wf_def case_prod_beta)

lemma ip_register_protocol_wf: "ip_wf i \<Longrightarrow> ip_wf (snd (ip_register_protocol n h i))"
  by (simp add: ip_register_protocol_def ip_wf_def)

lemma net_init_wf: "ip_wf i \<Longrightarrow> ip_wf (snd (net_init i))"
  unfolding net_init_def icmp_init_def udp_init_def tcp_init_def
  by (intro and_then_preserves [where P = ip_wf] on_link_wf ip_register_protocol_wf platform_init_wf arp_init_wf)
    (simp_all add: ip_init_def registrations_wf)

lemma ip_iface_register_wf: "ip_wf i \<Longrightarrow> ip_wf (snd (ip_iface_register n a m i))"
  by (auto simp: ip_iface_register_def ip_wf_def link_wf_def dev_add_iface_def by_index_def ip_route_add_def
      device_wf_def nth_list_update Let_def split: result.splits option.splits if_splits)

lemma set_default_gateway_wf: "ip_wf i \<Longrightarrow> ip_wf (snd (set_default_gateway iface gw i))"
  by (simp add: set_default_gateway_def ip_route_add_def ip_wf_def)

text \<open>Opening and closing a device changes its address, its descriptor and its flags.\<close>

definition dev_kept :: "device \<Rightarrow> device \<Rightarrow> bool" where
  "dev_kept d d' \<longleftrightarrow> dev_index d' = dev_index d \<and> (device_wf d \<longrightarrow> device_wf d')"

lemma device_open_kept: "dev_kept d (fst (snd (device_open d s)))"
  by (auto simp: dev_kept_def device_open_def ops_open_def tap_open_def device_wf_def copy_at_length ether_sizes
      case_prod_beta Let_def
      split: dev_ops.splits result.splits prod.splits)

lemma device_close_kept: "dev_kept d (fst (snd (device_close d s)))"
  by (auto simp: dev_kept_def device_close_def ops_close_def tap_close_def device_wf_def case_prod_beta Let_def
      split: dev_ops.splits result.splits prod.splits)

lemma open_all_kept: "list_all2 dev_kept ds (fst (snd (open_all ds s)))"
proof (induction ds arbitrary: s)
  case (Cons d ds)
  then show ?case
    using device_open_kept [of d s]
    by (auto simp: case_prod_beta Let_def dev_kept_def list_all2_same split: prod.splits result.splits)
qed simp

lemma close_all_kept: "list_all2 dev_kept ds (fst (close_all ds s))"
proof (induction ds arbitrary: s)
  case (Cons d ds)
  then show ?case
    using device_close_kept [of d s] by (auto simp: case_prod_beta Let_def)
qed simp

lemma link_wf_kept: "link_wf l \<Longrightarrow> list_all2 dev_kept (devices l) ds \<Longrightarrow> irqs l' = irqs l \<Longrightarrow> devices l' = ds \<Longrightarrow> link_wf l'"
  by (auto simp: link_wf_def list_all2_conv_all_nth dev_kept_def)

lemma platform_run_wf: "link_wf l \<Longrightarrow> link_wf (snd (platform_run l))"
  unfolding platform_run_def
  by (rule and_then_preserves [where P = link_wf])
    (simp_all add: intr_run_def timer_run_def link_wf_def case_prod_beta Let_def)

lemma net_run_wf: "link_wf l \<Longrightarrow> link_wf (snd (net_run l))"
  unfolding net_run_def
  by (rule and_then_preserves [where P = link_wf], erule platform_run_wf)
    (simp add: case_prod_beta link_wf_kept [OF _ open_all_kept])

lemma net_shutdown_wf: "link_wf l \<Longrightarrow> link_wf (net_shutdown l)"
  by (simp add: net_shutdown_def platform_shutdown_def intr_shutdown_def timer_shutdown_def case_prod_beta
      link_wf_kept [OF _ close_all_kept])

section \<open>Reachable states\<close>

definition at_start :: "stack \<Rightarrow> bool" where
  "at_start s \<longleftrightarrow> devices (st_link s) = [] \<and> net_protocols (st_link s) = [] \<and> input_queue (st_link s) = [] \<and>
     irqs (st_link s) = [] \<and> timers (st_link s) = [] \<and> \<not> timer_created (st_link s) \<and>
     dispatcher (st_link s) = None \<and> arp_cache (ip_arp (st_ip s)) = [] \<and> ip_protocols (st_ip s) = [] \<and>
     ip_ifaces (st_ip s) = [] \<and> ip_routes (st_ip s) = [] \<and> st_udp s = [] \<and> st_tcp s = [] \<and> st_socks s = []"

text \<open>
  A step is the start of a subsystem, the registration of a device or an interface, a signal or a
  single packet handled by the dispatcher thread, a critical section of UDP or TCP on behalf of any
  thread, or any change of the socket table, which the invariants do not mention. The set names the
  control blocks of TCP that were re-opened by \<open>listen\<close> or \<open>connect\<close> while text of an earlier connection
  was left in their buffer; one that has been freed can be forgotten.
\<close>

inductive stack_reach :: "nat set \<Rightarrow> stack \<Rightarrow> bool" where
  start: "at_start s \<Longrightarrow> stack_reach {} s"
| init: "stack_reach D s \<Longrightarrow> stack_reach D (st_with_ip (snd (net_init (st_ip s))) s)"
| loopback: "stack_reach D s \<Longrightarrow> stack_reach D (st_with_link (snd (loopback_init (st_link s))) s)"
| tap: "stack_reach D s \<Longrightarrow> stack_reach D (st_with_link (snd (ether_tap_init irq_no name a (st_link s))) s)"
| iface: "stack_reach D s \<Longrightarrow> stack_reach D (st_with_ip (snd (ip_iface_register i unicast netmask (st_ip s))) s)"
| gateway: "stack_reach D s \<Longrightarrow> stack_reach D (st_with_ip (snd (set_default_gateway ifc gw (st_ip s))) s)"
| run: "stack_reach D s \<Longrightarrow> stack_reach D (st_with_link (snd (net_run (st_link s))) s)"
| shutdown: "stack_reach D s \<Longrightarrow> stack_reach D (st_with_link (net_shutdown (st_link s)) s)"
| packet: "stack_reach D s \<Longrightarrow> softirq_step s = Some s' \<Longrightarrow> stack_reach D s'"
| signal: "stack_reach D s \<Longrightarrow> intr_main fuel reads sigs s = Some (ended, s') \<Longrightarrow> stack_reach D s'"
| tcp: "stack_reach D s \<Longrightarrow> stack_reach (D \<union> reopened e (tcp_view s)) (tcp_store (tcp_apply e (tcp_view s)) s)"
| udp: "stack_reach D s \<Longrightarrow> stack_reach D (udp_store (udp_apply u (udp_view s)) s)"
| socks: "stack_reach D s \<Longrightarrow> stack_reach D (s\<lparr>st_socks := ks\<rparr>)"
| forget: "stack_reach D s \<Longrightarrow> tcp_get d (tcp_view s) = None \<Longrightarrow> stack_reach (D - {d}) s"

lemma at_start_wf: "at_start s \<Longrightarrow> stack_wf s"
  using udp_empty_wf [of "st_host s"] tcp_init_wf [of "st_host s"]
  by (simp add: at_start_def stack_wf_def link_wf_def cache_wf_def udp_view_def tcp_view_def)

lemma stack_wf_ip_wf: "stack_wf_on D s \<Longrightarrow> ip_wf (st_ip s)"
  by (simp add: stack_wf_on_def ip_wf_def)

lemma stack_wf_config:
  assumes "stack_wf_on D s"
  shows "(\<And>i. ip_wf i \<Longrightarrow> ip_wf (f i)) \<Longrightarrow> stack_wf_on D (st_with_ip (f (st_ip s)) s)"
    and "(\<And>l. link_wf l \<Longrightarrow> link_wf (g l)) \<Longrightarrow> stack_wf_on D (st_with_link (g (st_link s)) s)"
  using stack_wf_ip [OF assms, of "f (st_ip s)"] stack_wf_link [OF assms, of "g (st_link s)"]
    stack_wf_ip_wf [OF assms] by (auto simp: ip_wf_def)

lemma reach_wf: "stack_reach D s \<Longrightarrow> stack_wf_on D s"
proof (induction rule: stack_reach.induct)
  case (init D s)
  show ?case using init.IH by (rule stack_wf_config(1)) (rule net_init_wf)
next
  case (loopback D s)
  show ?case using loopback.IH by (rule stack_wf_config(2)) (rule loopback_init_wf)
next
  case (tap D s irq_no name a)
  show ?case using tap.IH by (rule stack_wf_config(2)) (rule ether_tap_init_wf)
next
  case (iface D s i unicast netmask)
  show ?case using iface.IH by (rule stack_wf_config(1)) (rule ip_iface_register_wf)
next
  case (gateway D s ifc gw)
  show ?case using gateway.IH by (rule stack_wf_config(1)) (rule set_default_gateway_wf)
next
  case (run D s)
  show ?case using run.IH by (rule stack_wf_config(2)) (rule net_run_wf)
next
  case (shutdown D s)
  show ?case using shutdown.IH by (rule stack_wf_config(2)) (rule net_shutdown_wf)
next
  case (signal D s fuel reads sigs ended s')
  show ?case using signal.IH signal.hyps(2) by (rule intr_main_wf)
next
  case (packet D s s')
  show ?case using packet.IH packet.hyps(2) by (rule softirq_step_wf)
next
  case (forget D s d)
  then show ?case by (simp add: stack_wf_on_def tcp_wf_on_forget)
qed (simp_all add: at_start_wf tcp_event_wf stack_udp_event_wf)

definition reachable :: "stack \<Rightarrow> bool" where
  "reachable s \<longleftrightarrow> (\<exists>D. stack_reach D s)"

section \<open>Set-up\<close>

text \<open>What the set-up of a program does: it starts subsystems and registers devices and addresses.\<close>

locale config_steps =
  fixes R :: "stack \<Rightarrow> bool"
  assumes init_step: "R s \<Longrightarrow> R (st_with_ip (snd (net_init (st_ip s))) s)"
    and loopback_step: "R s \<Longrightarrow> R (st_with_link (snd (loopback_init (st_link s))) s)"
    and tap_step: "R s \<Longrightarrow> R (st_with_link (snd (ether_tap_init irq_no name a (st_link s))) s)"
    and iface_step: "R s \<Longrightarrow> R (st_with_ip (snd (ip_iface_register i unicast netmask (st_ip s))) s)"
    and gateway_step: "R s \<Longrightarrow> R (st_with_ip (snd (set_default_gateway ifc gw (st_ip s))) s)"
    and run_step: "R s \<Longrightarrow> R (st_with_link (snd (net_run (st_link s))) s)"

interpretation stack_conf: config_steps "stack_reach D" for D
  by unfold_locales (rule stack_reach.intros, assumption)+

interpretation reach_conf: config_steps reachable
  by unfold_locales (auto simp: reachable_def intro: stack_reach.intros)

section \<open>The calls of the socket interface\<close>

text \<open>
  A predicate that the threads keep: it is closed under every critical section of TCP and UDP, except
  that a control block of UDP is only released by the \<open>close\<close> of its socket; under \<open>open\<close> and \<open>close\<close>; and
  under the last step of \<open>accept\<close>, which enters a connection that TCP has handed over.
\<close>

locale thread_steps =
  fixes R :: "stack \<Rightarrow> bool"
  assumes tcp_step: "R s \<Longrightarrow> R (tcp_store (tcp_apply e (tcp_view s)) s)"
    and udp_step: "R s \<Longrightarrow> u \<notin> range UClose \<Longrightarrow> R (udp_store (udp_apply u (udp_view s)) s)"
    and open_step: "R s \<Longrightarrow> R (snd (sock_open family ty s))"
    and close_step: "R s \<Longrightarrow> R (snd (sock_close desc s))"
    and enter_step: "R s0 \<Longrightarrow> sock_get i s0 = Some k \<Longrightarrow> so_ty k = SOCK_STREAM \<Longrightarrow> R s \<Longrightarrow>
      tcp_get d (tcp_view s) \<noteq> None \<Longrightarrow> 
      R (snd (sock_alloc \<lparr>so_family = so_family k, so_ty = SOCK_STREAM, so_desc = d\<rparr> s))"
begin

lemma on_tcp_kept: "R s \<Longrightarrow> snd (f (tcp_view s)) = tcp_apply e (tcp_view s) \<Longrightarrow> R (snd (on_tcp f s))"
  using tcp_step [of s e] by (simp add: on_tcp_def case_prod_beta)

lemma on_udp_kept:
  "R s \<Longrightarrow> snd (f (udp_view s)) = udp_apply u (udp_view s) \<Longrightarrow> u \<notin> range UClose \<Longrightarrow> R (snd (on_udp f s))"
  using udp_step [of s u] by (simp add: on_udp_def case_prod_beta)

lemma passes_kept:
  assumes "R s"
  shows "R (snd (on_tcp (tcp_bind d loc) s))" and "R (snd (on_tcp (tcp_listen d n) s))"
    and "R (snd (on_tcp (accept_pass d) s))" and "R (snd (on_tcp (connect_start d rem) s))"
    and "R (snd (on_tcp (connect_pass d) s))" and "R (snd (on_tcp (\<lambda>t. (r, transition d Closed t)) s))"
    and "R (snd (on_tcp (set_mss d) s))" and "R (snd (on_tcp (send_pass d data sent) s))"
    and "R (snd (on_tcp (receive_pass d n) s))"
    and "R (snd (on_udp (udp_bind d loc) s))" and "R (snd (on_udp (udp_sendto d data rem) s))"
    and "R (snd (on_udp (recvfrom_pass d n) s))"
  using on_tcp_kept [OF assms, of "tcp_bind d loc" "EBind d loc"] on_tcp_kept [OF assms, of "tcp_listen d n" "EListen d n"]
    on_tcp_kept [OF assms, of "accept_pass d" "EAccept d"] on_tcp_kept [OF assms, of "connect_start d rem" "EConnect d rem"]
    on_tcp_kept [OF assms, of "connect_pass d" "EConnectPass d"] on_tcp_kept [OF assms, of "\<lambda>t. (r, transition d Closed t)" "EConnectInterrupted d"]
    on_tcp_kept [OF assms, of "set_mss d" "ESetMss d"] on_tcp_kept [OF assms, of "send_pass d data sent" "ESend d data sent"]
    on_tcp_kept [OF assms, of "receive_pass d n" "EReceive d n"] on_udp_kept [OF assms, of "udp_bind d loc" "UBind d loc"]
    on_udp_kept [OF assms, of "udp_sendto d data rem" "USendto d data rem"] on_udp_kept [OF assms, of "recvfrom_pass d n" "URecv d n"]
  by (simp_all add: image_iff)

lemma bind_kept: "R s \<Longrightarrow> R (snd (sock_bind desc a s))"
  by (simp add: sock_bind_def passes_kept split: option.splits result.splits)

lemma sendto_kept: "R s \<Longrightarrow> R (snd (sock_sendto desc data a s))"
  by (simp add: sock_sendto_def passes_kept split: option.splits result.splits)

lemma listen_kept: "R s \<Longrightarrow> R (snd (sock_listen desc n s))"
  by (simp add: sock_listen_def passes_kept split: option.splits)

lemma accept_kept:
  assumes "R s" and "\<forall>w \<in> set wakes. R (snd w)" and "sock_accept desc wakes s = Some (r, s')"
  shows "R s'"
proof -
  have pass: "R s2 \<and> (\<forall>d rem. r2 = Ok (d, rem) \<longrightarrow> tcp_get d (tcp_view s2) \<noteq> None)"
    if block: "blocking (on_tcp (accept_pass l)) (\<lambda>s. (Err, s)) wakes s = Some (r2, s2)" for l r2 s2
  proof
    show "R s2" using blocking_preserves [OF block, of R] assms(1, 2) by (simp add: passes_kept)
    show "\<forall>d rem. r2 = Ok (d, rem) \<longrightarrow> tcp_get d (tcp_view s2) \<noteq> None"
      by (rule blocking_result [OF block]) (use accept_returns_child in \<open>blast, simp\<close>)
  qed
  show ?thesis
    using assms(1, 3) enter_step [OF assms(1), where i = desc]
    by (auto simp: sock_accept_def sock_typed_def case_prod_beta Let_def split: option.splits result.splits if_splits
        dest!: pass)
qed

lemma connect_kept:
  assumes "R s" and "\<forall>w \<in> set wakes. R (snd w)" and "sock_connect desc a wakes s = Some (r, s')"
  shows "R s'"
proof -
  have block: "R s2"
    if "blocking (on_tcp (connect_pass d)) (on_tcp (\<lambda>t. (Err, transition d Closed t))) wakes s1 = Some (r2, s2)"
      and "R s1" for d r2 s1 s2
    using blocking_preserves [OF that(1), of R] that(2) assms by (simp add: passes_kept)
  have start: "R s1" if "on_tcp (connect_start d e) s = (r1, s1)" for d e r1 s1
    using passes_kept(4) [OF assms(1), of d e] that by simp
  have mss: "R s3" if "on_tcp (set_mss d) s2 = (r3, s3)" "R s2" for d r3 s2 s3
    using passes_kept(7) [OF that(2), of d] that(1) by simp
  show ?thesis
    using assms(1, 3)
    by (auto simp: sock_connect_def split: option.splits result.splits prod.splits dest: start block mss)
qed

lemma send_kept:
  assumes "R s" and "\<forall>w \<in> set wakes. R (snd w)" and "sock_send fuel desc data wakes s = Some (r, s')"
  shows "R s'"
  using assms send_loop_preserves [where P = R and r = r and s' = s' and s = s and wakes = wakes]
  by (auto simp: sock_send_def passes_kept split: option.splits)

lemma recv_kept:
  assumes "R s" and "\<forall>w \<in> set wakes. R (snd w)" and "sock_recv desc n wakes s = Some (r, s')"
  shows "R s'"
  using assms blocking_preserves [where P = R and r = r and s' = s' and s = s and wakes = wakes]
  by (auto simp: sock_recv_def passes_kept split: option.splits)

lemma recvfrom_kept:
  assumes "R s" and "\<forall>w \<in> set wakes. R (snd w)" and "sock_recvfrom desc n wakes s = Some (r, s')"
  shows "R s'"
proof -
  have "R s2"
    if "blocking (on_udp (recvfrom_pass d n)) (\<lambda>s. (Inl RecvInterrupted, s)) wakes s = Some (r2, s2)" for d r2 s2
    using blocking_preserves [OF that, of R] assms by (simp add: passes_kept)
  with assms show ?thesis
    by (auto simp: sock_recvfrom_def split: option.splits sum.splits)
qed

end

text \<open>The reachable states are such a predicate.\<close>

lemma reach_events:
  assumes "reachable s"
  shows "reachable (tcp_store (tcp_apply e (tcp_view s)) s)" and "reachable (udp_store (udp_apply u (udp_view s)) s)"
    and "reachable (s\<lparr>st_socks := ks\<rparr>)"
  using assms by (auto simp: reachable_def intro: stack_reach.tcp stack_reach.udp stack_reach.socks)

lemma reach_on_tcp: "reachable s \<Longrightarrow> snd (f (tcp_view s)) = tcp_apply e (tcp_view s) \<Longrightarrow> reachable (snd (on_tcp f s))"
  using reach_events(1) [of s e] by (simp add: on_tcp_def case_prod_beta)

lemma reach_on_udp: "reachable s \<Longrightarrow> snd (f (udp_view s)) = udp_apply u (udp_view s) \<Longrightarrow> reachable (snd (on_udp f s))"
  using reach_events(2) [of s u] by (simp add: on_udp_def case_prod_beta)

lemma reach_alloc: "reachable s \<Longrightarrow> reachable (snd (sock_alloc k s))"
  by (simp add: sock_alloc_def reach_events split: option.splits)

interpretation reach_thr: thread_steps reachable
proof unfold_locales
  fix s family ty desc assume s: "reachable s"
  have op: "on_tcp tcp_socket s = (x, s1) \<Longrightarrow> reachable s1" "on_udp udp_open s = (y, s1) \<Longrightarrow> reachable s1" for x y s1
    using reach_on_tcp [OF s, of tcp_socket ESocket] reach_on_udp [OF s, of udp_open UOpen] by simp_all
  show "reachable (snd (sock_open family ty s))"
    by (cases rule: sock_open_cases [of family ty s]) (auto simp: s intro: op reach_alloc)
  have socks: "reachable (s\<lparr>st_socks := ks\<rparr>)" for ks using s by (rule reach_events)
  have "reachable (snd (on_tcp (tcp_close d) (s\<lparr>st_socks := ks\<rparr>)))"
    "reachable (snd (on_udp (udp_close d) (s\<lparr>st_socks := ks\<rparr>)))" for d ks
    using reach_on_tcp [OF socks, of "tcp_close d" _ "EClose d"] reach_on_udp [OF socks, of "udp_close d" _ "UClose d"]
    by simp_all
  with s socks show "reachable (snd (sock_close desc s))"
    by (simp add: sock_close_def Let_def split: option.splits)
qed (simp_all add: reach_events reach_alloc)

end
