(* ===== verification/App.thy ===== *)
theory App
  imports Reach
begin

text \<open>
  The test program \<^verbatim>\<open>test/src/main.rs\<close>, an echo server on top of the stack: its set-up, the loop over
  connections and the loop over the data of a connection. What other threads do between two calls
  is a function on the stack, what they do while a call waits is its list of wake-ups.
\<close>

section \<open>Set-up\<close>

definition LOOPBACK_IP_ADDR :: string where "LOOPBACK_IP_ADDR = ''127.0.0.1''"
definition LOOPBACK_NETMASK :: string where "LOOPBACK_NETMASK = ''255.0.0.0''"
definition ETHER_TAP_NAME :: string where "ETHER_TAP_NAME = ''tap0''"
definition ETHER_TAP_HW_ADDR :: string where "ETHER_TAP_HW_ADDR = ''00:00:5e:00:53:01''"
definition ETHER_TAP_IP_ADDR :: string where "ETHER_TAP_IP_ADDR = ''192.0.2.2''"
definition ETHER_TAP_NETMASK :: string where "ETHER_TAP_NETMASK = ''255.255.255.0''"
definition DEFAULT_GATEWAY :: string where "DEFAULT_GATEWAY = ''192.0.2.1''"

lemmas app_defs = LOOPBACK_IP_ADDR_def LOOPBACK_NETMASK_def ETHER_TAP_NAME_def ETHER_TAP_HW_ADDR_def
  ETHER_TAP_IP_ADDR_def ETHER_TAP_NETMASK_def DEFAULT_GATEWAY_def

text \<open>Sequencing with \<open>?\<close>, and the calls of the lower layers on the whole stack.\<close>

definition try_then :: "'a result \<times> 's \<Rightarrow> ('a \<Rightarrow> 's \<Rightarrow> 'b result \<times> 's) \<Rightarrow> 'b result \<times> 's" where
  "try_then r f = (case r of (Err, s) \<Rightarrow> (Err, s) | (Ok x, s) \<Rightarrow> f x s)"

definition on_ip :: "(ip_state \<Rightarrow> 'r \<times> ip_state) \<Rightarrow> stack \<Rightarrow> 'r \<times> stack" where
  "on_ip f s = (let (r, i) = f (st_ip s) in (r, st_with_ip i s))"

definition on_lnk :: "(link \<Rightarrow> 'r \<times> link) \<Rightarrow> stack \<Rightarrow> 'r \<times> stack" where
  "on_lnk f s = (let (r, l) = f (st_link s) in (r, st_with_link l s))"

definition app_setup :: "u32 \<Rightarrow> stack \<Rightarrow> unit result \<times> stack" where
  "app_setup irq_no s =
     try_then (on_ip net_init s) (\<lambda>_ s.
     let (lo, s) = on_lnk loopback_init s in
     try_then (on_ip (ip_iface_register lo LOOPBACK_IP_ADDR LOOPBACK_NETMASK) s) (\<lambda>_ s.
     try_then (ether_from_str ETHER_TAP_HW_ADDR, s) (\<lambda>mac s.
     try_then (on_lnk (ether_tap_init irq_no ETHER_TAP_NAME (Some mac)) s) (\<lambda>en s.
     try_then (on_ip (ip_iface_register en ETHER_TAP_IP_ADDR ETHER_TAP_NETMASK) s) (\<lambda>en_iface s.
     try_then (ip_from_str DEFAULT_GATEWAY, s) (\<lambda>gw s.
     try_then (on_ip (set_default_gateway en_iface gw) s) (\<lambda>_ s.
     on_lnk net_run s)))))))"

definition app_cleanup :: "stack \<Rightarrow> unit result \<times> stack" where
  "app_cleanup s = (Ok (), st_with_link (net_shutdown (st_link s)) s)"

section \<open>A connection\<close>

record echo_round =
  before_recv :: "stack \<Rightarrow> stack"
  recv_wakes :: "(wait_result \<times> stack) list"
  before_send :: "stack \<Rightarrow> stack"
  send_wakes :: "(wait_result \<times> stack) list"

text \<open>
  \<open>conn_main\<close>: the loop ends when \<open>recv\<close> returns no bytes or fails, or when \<open>send\<close> fails; then the
  socket is closed. \<open>None\<close> is a call that has not returned yet.
\<close>

fun conn_main :: "nat \<Rightarrow> nat \<Rightarrow> echo_round list \<Rightarrow> stack \<Rightarrow> stack option" where
  "conn_main fuel soc [] s = None"
| "conn_main fuel soc (r # rs) s =
     (case sock_recv soc 128 (recv_wakes r) (before_recv r s) of
        None \<Rightarrow> None
      | Some (Err, s1) \<Rightarrow> Some (snd (sock_close soc s1))
      | Some (Ok data, s1) \<Rightarrow>
          if data = [] then Some (snd (sock_close soc s1))
          else (case sock_send fuel soc data (send_wakes r) (before_send r s1) of
                  None \<Rightarrow> None
                | Some (Err, s2) \<Rightarrow> Some (snd (sock_close soc s2))
                | Some (Ok _, s2) \<Rightarrow> conn_main fuel soc rs s2))"

section \<open>The server\<close>

record session =
  terminate :: bool
  before_accept :: "stack \<Rightarrow> stack"
  accept_wakes :: "(wait_result \<times> stack) list"
  rounds :: "echo_round list"

text \<open>The loop over connections; \<open>terminate\<close> is the flag as the loop reads it.\<close>

fun accept_loop :: "nat \<Rightarrow> nat \<Rightarrow> session list \<Rightarrow> stack \<Rightarrow> stack option" where
  "accept_loop fuel soc [] s = None"
| "accept_loop fuel soc (c # cs) s =
     (if terminate c then Some s
      else case sock_accept soc (accept_wakes c) (before_accept c s) of
             None \<Rightarrow> None
           | Some (Err, s1) \<Rightarrow> Some s1
           | Some (Ok (acc, remote), s1) \<Rightarrow>
               (case conn_main fuel acc (rounds c) s1 of
                  None \<Rightarrow> None
                | Some s2 \<Rightarrow> accept_loop fuel soc cs s2))"

definition app_main :: "(nat \<Rightarrow> stack \<Rightarrow> stack) \<Rightarrow> nat \<Rightarrow> session list \<Rightarrow> stack \<Rightarrow> (unit result \<times> stack) option" where
  "app_main others fuel cs s =
     (case sa_from_str ''0.0.0.0:7'' of
        Err \<Rightarrow> Some (Err, s)
      | Ok local \<Rightarrow>
          (case sock_open AF_INET SOCK_STREAM s of
             (Err, s1) \<Rightarrow> Some (Err, s1)
           | (Ok soc, s1) \<Rightarrow>
               (case sock_bind soc local (others 0 s1) of
                  (Err, s2) \<Rightarrow> Some (Err, snd (sock_close soc s2))
                | (Ok _, s2) \<Rightarrow>
                    (case sock_listen soc 1 (others 1 s2) of
                       (Err, s3) \<Rightarrow> Some (Err, snd (sock_close soc s3))
                     | (Ok _, s3) \<Rightarrow>
                         (case accept_loop fuel soc cs s3 of
                            None \<Rightarrow> None
                          | Some s4 \<Rightarrow> Some (Ok (), snd (sock_close soc (others 2 s4))))))))"

text \<open>\<open>main\<close>: \<open>True\<close> is \<open>ExitCode::SUCCESS\<close>.\<close>

definition main :: "u32 \<Rightarrow> (nat \<Rightarrow> stack \<Rightarrow> stack) \<Rightarrow> nat \<Rightarrow> session list \<Rightarrow> stack \<Rightarrow> (bool \<times> stack) option" where
  "main irq_no others fuel cs s =
     (case app_setup irq_no s of
        (Err, s1) \<Rightarrow> Some (False, s1)
      | (Ok _, s1) \<Rightarrow>
          (case app_main others fuel cs s1 of
             None \<Rightarrow> None
           | Some (ret, s2) \<Rightarrow>
               (case app_cleanup (others 3 s2) of
                  (Err, s3) \<Rightarrow> Some (False, s3)
                | (Ok _, s3) \<Rightarrow> Some (ret = Ok (), s3))))"

end
