(* ===== verification/Sock_Own.thy ===== *)
theory Sock_Own
  imports Reach
begin

text \<open>
  Who owns a control block: every datagram socket has one of its own in the table of UDP, from
  \<open>open\<close> to \<open>close\<close>, whatever the other threads do in between; every stream socket has a valid index
  into the table of TCP.
\<close>

section \<open>What does not concern the socket table\<close>

lemma tcp_store_socks [simp]: "st_socks (tcp_store t s) = st_socks s" "st_socks (udp_store u s) = st_socks s"
  by (simp_all add: tcp_store_def udp_store_def)

lemma view_socks [simp]:
  "udp_view (s\<lparr>st_socks := ks\<rparr>) = udp_view s" "tcp_view (s\<lparr>st_socks := ks\<rparr>) = tcp_view s"
  by (simp_all add: udp_view_def tcp_view_def)

lemma sock_alloc_views [simp]:
  "tcp_view (snd (sock_alloc k s)) = tcp_view s" "udp_view (snd (sock_alloc k s)) = udp_view s"
  by (simp_all add: sock_alloc_def split: option.splits)

lemma st_with_link_socks [simp]: "st_socks (st_with_link l s) = st_socks s"
  by (simp add: st_with_link_def)

definition udp_open_at :: "nat \<Rightarrow> stack \<Rightarrow> bool" where
  "udp_open_at d s \<longleftrightarrow> udp_pcb_get d (udp_view s) \<noteq> None"

definition sock_frame :: "stack \<Rightarrow> stack \<Rightarrow> bool" where
  "sock_frame s s' \<longleftrightarrow> st_socks s' = st_socks s \<and> length (st_tcp s) \<le> length (st_tcp s') \<and>
     (\<forall>d. udp_open_at d s \<longrightarrow> udp_open_at d s')"

lemma sock_frame_refl [simp]: "sock_frame s s"
  by (simp add: sock_frame_def)

lemma sock_frame_trans [trans]: "sock_frame s s1 \<Longrightarrow> sock_frame s1 s2 \<Longrightarrow> sock_frame s s2"
  by (auto simp: sock_frame_def)

lemma frame_ip [simp]: "sock_frame s (st_with_ip i s)"
  by (simp add: sock_frame_def udp_open_at_def udp_pcb_get_def)

lemma frame_link [simp]: "sock_frame s (st_with_link l s)"
  by (simp add: st_with_link_def)

lemma frame_host [simp]: "sock_frame s (s\<lparr>st_host := h\<rparr>)"
  by (simp add: sock_frame_def udp_open_at_def udp_pcb_get_def)

lemma frame_tcp: "tcp_below (tcp_view s) t \<Longrightarrow> sock_frame s (tcp_store t s)"
  by (simp add: sock_frame_def tcp_below_def udp_open_at_def udp_pcb_get_def)

lemma udp_event_keeps:
  assumes "u \<notin> range UClose" and "udp_pcb_get d t \<noteq> None"
  shows "udp_pcb_get d (udp_apply u t) \<noteq> None"
proof -
  have "udp_pcb_get d (snd (udp_open t)) \<noteq> None"
    using assms(2) udp_alloc_get [of t _ d]
    by (cases t rule: udp_tab.alloc_cases) (auto simp: udp_open_def)
  moreover have "udp_pcb_get d (snd (udp_assign_dynamic_port e a t)) \<noteq> None" for e a
    using assms(2) by (auto simp: udp_assign_dynamic_port_def split: option.splits)
  ultimately show ?thesis
    using assms
    by (cases u) (auto simp: udp_bind_def udp_sendto_def recvfrom_pass_def udp_input_def case_prod_beta Let_def
        split: option.splits list.splits result.splits)
qed

lemma frame_udp: "u \<notin> range UClose \<Longrightarrow> sock_frame s (udp_store (udp_apply u (udp_view s)) s)"
  using udp_event_keeps [of u _ "udp_view s"] by (simp add: sock_frame_def udp_open_at_def)

section \<open>The dispatcher thread\<close>

lemma net_dispatch_frame: "sock_frame s (net_dispatch h data i s)"
proof -
  have "sock_frame s (ip_deliver h' hdr p iface s)" for h' hdr p iface
    using frame_udp [of "UInput hdr p iface" s] frame_tcp [OF tcp_input_below, of s hdr p iface]
    by (simp add: ip_deliver_def image_iff split: ip_handler.splits)
  then show ?thesis
    by (simp add: net_dispatch_def ip_input_def ip_panic_def split: net_handler.splits option.splits ip_verdict.splits)
qed

lemma softirq_step_frame: "softirq_step s = Some s' \<Longrightarrow> sock_frame s s'"
  by (auto simp: softirq_step_def Let_def split: option.splits
      intro: sock_frame_trans [OF frame_link net_dispatch_frame])

lemma softirq_handler_frame: "softirq_handler fuel s = Some s' \<Longrightarrow> sock_frame s s'"
  by (induction fuel arbitrary: s) (auto split: option.splits dest: softirq_step_frame intro: sock_frame_trans)

lemma run_timer_frame: "sock_frame s (run_timer h s)"
  using frame_tcp [OF tcp_on_timer_below, of s] by (simp add: run_timer_def split: timer_id.splits)

lemma timer_interrupt_frame: "sock_frame s (timer_interrupt s)"
proof -
  have "sock_frame s' (fold run_timer hs s')" for hs s'
    by (induction hs arbitrary: s') (auto intro: sock_frame_trans [OF run_timer_frame])
  from sock_frame_trans [OF frame_link this] show ?thesis
    by (simp add: timer_interrupt_def case_prod_beta Let_def)
qed

lemma run_isr_frame: "run_isr fuel reads h s = Some s' \<Longrightarrow> sock_frame s s'"
  by (cases h) (auto simp: run_isr_def softirq_handler_frame timer_interrupt_frame task_isr_def split: prod.splits if_splits)

lemma run_isrs_frame: "run_isrs fuel reads hs s = Some s' \<Longrightarrow> sock_frame s s'"
  by (induction hs arbitrary: s) (auto split: option.splits dest: run_isr_frame intro: sock_frame_trans)

lemma intr_main_frame: "intr_main fuel reads sigs s = Some (ended, s') \<Longrightarrow> sock_frame s s'"
proof (induction fuel reads sigs s rule: intr_main.induct)
  case (3 fuel reads sig sigs s)
  then show ?case
    by (auto simp: intr_signal_def split: if_splits option.splits dest: run_isrs_frame intro: sock_frame_trans)
qed simp_all

section \<open>Ownership\<close>

text \<open>
  \<open>F\<close> holds the control blocks of UDP that are on their way between the two tables: opened for a
  socket that is not entered yet, or taken out of the socket table by \<open>close\<close> and not yet released.
\<close>

definition sock_owned :: "nat set \<Rightarrow> stack \<Rightarrow> bool" where
  "sock_owned F s \<longleftrightarrow>
     (\<forall>i k. sock_get i s = Some k \<longrightarrow> so_family k = AF_INET \<and>
        (so_ty k = SOCK_STREAM \<and> so_desc k < length (st_tcp s) \<or>
         so_ty k = SOCK_DGRAM \<and> so_desc k \<notin> F \<and> udp_open_at (so_desc k) s)) \<and>
     (\<forall>i j k l. sock_get i s = Some k \<longrightarrow> sock_get j s = Some l \<longrightarrow> i \<noteq> j \<longrightarrow>
        so_ty k = SOCK_DGRAM \<longrightarrow> so_ty l = SOCK_DGRAM \<longrightarrow> so_desc k \<noteq> so_desc l) \<and>
     (\<forall>d \<in> F. udp_open_at d s)"

text \<open>
  The steps of all threads, one critical section at a time: as \<open>stack_reach\<close>, but the socket table and
  the table of UDP only change the way the socket calls change them. \<open>open\<close> is two steps, a new control
  block and its entry in the socket table; \<open>close\<close> is two steps as well, the removal of the entry with
  the lookup that precedes it, and the release of the control block. \<open>accept\<close> enters a connection.
\<close>

inductive sock_reach :: "nat set \<Rightarrow> stack \<Rightarrow> bool" where
  start: "at_start s \<Longrightarrow> sock_reach {} s"
| init: "sock_reach F s \<Longrightarrow> sock_reach F (st_with_ip (snd (net_init (st_ip s))) s)"
| loopback: "sock_reach F s \<Longrightarrow> sock_reach F (st_with_link (snd (loopback_init (st_link s))) s)"
| tap: "sock_reach F s \<Longrightarrow> sock_reach F (st_with_link (snd (ether_tap_init irq_no name a (st_link s))) s)"
| iface: "sock_reach F s \<Longrightarrow> sock_reach F (st_with_ip (snd (ip_iface_register i unicast netmask (st_ip s))) s)"
| gateway: "sock_reach F s \<Longrightarrow> sock_reach F (st_with_ip (snd (set_default_gateway ifc gw (st_ip s))) s)"
| run: "sock_reach F s \<Longrightarrow> sock_reach F (st_with_link (snd (net_run (st_link s))) s)"
| shutdown: "sock_reach F s \<Longrightarrow> sock_reach F (st_with_link (net_shutdown (st_link s)) s)"
| packet: "sock_reach F s \<Longrightarrow> softirq_step s = Some s' \<Longrightarrow> sock_reach F s'"
| signal: "sock_reach F s \<Longrightarrow> intr_main fuel reads sigs s = Some (ended, s') \<Longrightarrow> sock_reach F s'"
| tcp: "sock_reach F s \<Longrightarrow> sock_reach F (tcp_store (tcp_apply e (tcp_view s)) s)"
| udp: "sock_reach F s \<Longrightarrow> u \<notin> range UClose \<Longrightarrow> sock_reach F (udp_store (udp_apply u (udp_view s)) s)"
| opened: "sock_reach F s \<Longrightarrow> on_udp udp_open s = (Some d, s') \<Longrightarrow> sock_reach (insert d F) s'"
| entered: "sock_reach F s \<Longrightarrow> d \<in> F \<Longrightarrow>
    sock_reach (F - {d}) (snd (sock_alloc \<lparr>so_family = AF_INET, so_ty = SOCK_DGRAM, so_desc = d\<rparr> s))"
| connected: "sock_reach F s \<Longrightarrow> tcp_get d (tcp_view s) \<noteq> None \<Longrightarrow>
    sock_reach F (snd (sock_alloc \<lparr>so_family = AF_INET, so_ty = SOCK_STREAM, so_desc = d\<rparr> s))"
| removed: "sock_reach F s \<Longrightarrow> sock_get i s = Some k \<Longrightarrow>
    sock_reach (if so_ty k = SOCK_DGRAM then insert (so_desc k) F else F) (s\<lparr>st_socks := (st_socks s)[i := None]\<rparr>)"
| released: "sock_reach F s \<Longrightarrow> d \<in> F \<Longrightarrow> sock_reach (F - {d}) (snd (on_udp (udp_close d) s))"

lemma sock_types: "SOCK_STREAM \<noteq> SOCK_DGRAM" "SOCK_DGRAM \<noteq> SOCK_STREAM"
  by (simp_all add: sock_consts)

lemma sock_ownedD:
  assumes "sock_owned F s"
  shows "sock_get i s = Some k \<Longrightarrow> so_family k = AF_INET"
    and "sock_get i s = Some k \<Longrightarrow> so_ty k = SOCK_STREAM \<Longrightarrow> so_desc k < length (st_tcp s)"
    and "sock_get i s = Some k \<Longrightarrow> so_ty k \<noteq> SOCK_STREAM \<Longrightarrow> so_ty k = SOCK_DGRAM"
    and "sock_get i s = Some k \<Longrightarrow> so_ty k = SOCK_DGRAM \<Longrightarrow> so_desc k \<notin> F \<and> udp_open_at (so_desc k) s"
    and "sock_get i s = Some k \<Longrightarrow> sock_get j s = Some l \<Longrightarrow> i \<noteq> j \<Longrightarrow>
      so_ty k = SOCK_DGRAM \<Longrightarrow> so_ty l = SOCK_DGRAM \<Longrightarrow> so_desc k \<noteq> so_desc l"
    and "d \<in> F \<Longrightarrow> udp_open_at d s"
  using assms sock_types unfolding sock_owned_def by metis+

lemma owned_frame:
  assumes "sock_owned F s" and "sock_frame s s'"
  shows "sock_owned F s'"
proof -
  have same: "sock_get i s' = sock_get i s" for i using assms(2) by (simp add: sock_frame_def sock_get_def)
  have grow: "n < length (st_tcp s) \<Longrightarrow> n < length (st_tcp s')" "udp_open_at d s \<Longrightarrow> udp_open_at d s'" for n d
    using assms(2) by (auto simp: sock_frame_def)
  show ?thesis using assms(1) unfolding sock_owned_def same by (blast intro: grow)
qed

lemma sock_alloc_sock_get:
  "sock_get j (snd (sock_alloc k s)) = (if j = fst (sock_alloc k s) then Some k else sock_get j s)"
  by (simp add: sock_get_def sock_alloc_get)

lemma sock_alloc_tables [simp]: "st_tcp (snd (sock_alloc k s)) = st_tcp s" "udp_open_at d (snd (sock_alloc k s)) = udp_open_at d s"
  by (simp_all add: sock_alloc_def udp_open_at_def split: option.splits)

lemma sock_remove_get: "sock_get j (s\<lparr>st_socks := (st_socks s)[i := None]\<rparr>) = (if j = i then None else sock_get j s)"
  by (auto simp: sock_get_def slot_get_def nth_list_update)

lemma udp_open_socks [simp]: "udp_open_at d (s\<lparr>st_socks := ks\<rparr>) = udp_open_at d s"
  by (simp add: udp_open_at_def)

lemma owned_opened:
  assumes "sock_owned F s" and "on_udp udp_open s = (Some d, s')"
  shows "\<not> udp_open_at d s" and "udp_pcb_get d (udp_view s') = Some (udp_pcb_empty (length (host_tasks (st_host s))))"
    and "st_socks s' = st_socks s" and "sock_owned (insert d F) s'"
proof -
  have alloc: "fst (udp_pcb_alloc (udp_view s)) = Some d" "s' = udp_store (snd (udp_pcb_alloc (udp_view s))) s"
    using assms(2) by (auto simp: on_udp_def udp_open_def case_prod_beta)
  then show free: "\<not> udp_open_at d s" and new: "udp_pcb_get d (udp_view s') = Some (udp_pcb_empty (length (host_tasks (st_host s))))"
    and "st_socks s' = st_socks s"
    using udp_tab.alloc_slot(1) [OF alloc(1)] udp_alloc_get [OF alloc(1), of d] by (simp_all add: udp_open_at_def udp_pcb_get_def)
  have "sock_frame s s'" using frame_udp [of UOpen s] by (auto simp: alloc udp_open_def)
  then have "sock_owned F s'" by (rule owned_frame [OF assms(1)])
  moreover have "\<not> (\<exists>i k. sock_get i s = Some k \<and> so_ty k = SOCK_DGRAM \<and> so_desc k = d)"
    using free sock_ownedD(4) [OF assms(1)] by blast
  ultimately show "sock_owned (insert d F) s'"
    using new \<open>st_socks s' = st_socks s\<close> unfolding sock_owned_def by (auto simp: udp_open_at_def sock_get_def)
qed

lemma owned_released:
  assumes "sock_owned F s" and "d \<in> F"
  shows "sock_owned (F - {d}) (snd (on_udp (udp_close d) s))"
    and "e \<noteq> d \<Longrightarrow> udp_pcb_get e (udp_view (snd (on_udp (udp_close d) s))) = udp_pcb_get e (udp_view s)"
    and "udp_pcb_get d (udp_view (snd (on_udp (udp_close d) s))) = None"
    and "fst (on_udp (udp_close d) s) = Ok ()"
proof -
  let ?s = "snd (on_udp (udp_close d) s)"
  obtain p where p: "udp_pcb_get d (udp_view s) = Some p"
    using sock_ownedD(6) [OF assms] by (auto simp: udp_open_at_def)
  then have s: "?s = udp_store ((udp_view s)\<lparr>udp_pcbs := (st_udp s)[d := None], udp_host := host_notify (u_task p) (st_host s)\<rparr>) s"
    and ok: "fst (on_udp (udp_close d) s) = Ok ()"
    by (simp_all add: on_udp_def udp_close_def udp_pcb_release_def)
  have get: "udp_pcb_get e (udp_view ?s) = (if e = d then None else udp_pcb_get e (udp_view s))" for e
    using udp_get_range [OF p] unfolding s by (auto simp: udp_pcb_get_def slot_get_def nth_list_update)
  then show "e \<noteq> d \<Longrightarrow> udp_pcb_get e (udp_view ?s) = udp_pcb_get e (udp_view s)" "udp_pcb_get d (udp_view ?s) = None"
    "fst (on_udp (udp_close d) s) = Ok ()" using ok by simp_all
  have same: "sock_get i ?s = sock_get i s" "st_tcp ?s = st_tcp s" for i unfolding s by (simp_all add: sock_get_def)
  show "sock_owned (F - {d}) ?s"
    using assms unfolding sock_owned_def same udp_open_at_def get by fastforce
qed

lemma sock_ownedI:
  assumes "\<And>i k. sock_get i s = Some k \<Longrightarrow> so_family k = AF_INET \<and>
      (so_ty k = SOCK_STREAM \<and> so_desc k < length (st_tcp s) \<or>
       so_ty k = SOCK_DGRAM \<and> so_desc k \<notin> F \<and> udp_open_at (so_desc k) s)"
    and "\<And>i j k l. sock_get i s = Some k \<Longrightarrow> sock_get j s = Some l \<Longrightarrow> i \<noteq> j \<Longrightarrow>
      so_ty k = SOCK_DGRAM \<Longrightarrow> so_ty l = SOCK_DGRAM \<Longrightarrow> so_desc k \<noteq> so_desc l"
    and "\<And>d. d \<in> F \<Longrightarrow> udp_open_at d s"
  shows "sock_owned F s"
  using assms unfolding sock_owned_def by blast

lemma owned_entered:
  assumes "sock_owned F s" and "so_family k = AF_INET"
    and "so_ty k = SOCK_STREAM \<and> so_desc k < length (st_tcp s) \<and> G = F \<or>
      so_ty k = SOCK_DGRAM \<and> so_desc k \<in> F \<and> G = F - {so_desc k}"
  shows "sock_owned G (snd (sock_alloc k s))"
proof (rule sock_ownedI, unfold sock_alloc_tables)
  note own = sock_ownedD [OF assms(1)]
  have sub: "G \<subseteq> F" using assms(3) by blast
  fix i l assume "sock_get i (snd (sock_alloc k s)) = Some l"
  then have "l = k \<or> sock_get i s = Some l" by (auto simp: sock_alloc_sock_get split: if_splits)
  then consider "l = k" | "sock_get i s = Some l" by blast
  then show "so_family l = AF_INET \<and> (so_ty l = SOCK_STREAM \<and> so_desc l < length (st_tcp s) \<or>
      so_ty l = SOCK_DGRAM \<and> so_desc l \<notin> G \<and> udp_open_at (so_desc l) s)"
    using assms(2, 3) own(1-4) [of i l] own(6) [of "so_desc k"] sub by cases auto
next
  note own = sock_ownedD [OF assms(1)]
  have new: "so_desc l \<noteq> so_desc k" if "sock_get j s = Some l" "so_ty l = SOCK_DGRAM" "so_ty k = SOCK_DGRAM" for j l
    using that own(4) [OF that(1)] assms(3) sock_types by auto
  show "so_desc l \<noteq> so_desc m" if "sock_get i (snd (sock_alloc k s)) = Some l" "sock_get j (snd (sock_alloc k s)) = Some m"
    "i \<noteq> j" "so_ty l = SOCK_DGRAM" "so_ty m = SOCK_DGRAM" for i j l m
    using that own(5) [of i l j m] new [of i l] new [of j m] by (auto simp: sock_alloc_sock_get split: if_splits)
  show "udp_open_at d s" if "d \<in> G" for d using that own(6) assms(3) by blast
qed

lemma owned_removed:
  assumes "sock_owned F s" and "sock_get i s = Some k"
    and "G = (if so_ty k = SOCK_DGRAM then insert (so_desc k) F else F)"
  shows "sock_owned G (s\<lparr>st_socks := (st_socks s)[i := None]\<rparr>)"
proof (rule sock_ownedI, unfold sock_remove_get udp_open_socks)
  note own = sock_ownedD [OF assms(1)]
  fix j l assume "(if j = i then None else sock_get j s) = Some l"
  then have l: "sock_get j s = Some l" "j \<noteq> i" by (simp_all split: if_splits)
  then have "so_desc l \<notin> G" if "so_ty l = SOCK_DGRAM"
    using that assms(2, 3) own(4) [OF l(1)] own(5) [OF l(1) assms(2)] by auto
  then show "so_family l = AF_INET \<and> (so_ty l = SOCK_STREAM \<and> so_desc l < length (st_tcp (s\<lparr>st_socks := (st_socks s)[i := None]\<rparr>)) \<or>
      so_ty l = SOCK_DGRAM \<and> so_desc l \<notin> G \<and> udp_open_at (so_desc l) s)"
    using own(1-4) [OF l(1)] by auto
next
  note own = sock_ownedD [OF assms(1)]
  show "so_desc l \<noteq> so_desc m" if "(if j = i then None else sock_get j s) = Some l"
    "(if n = i then None else sock_get n s) = Some m" "j \<noteq> n" "so_ty l = SOCK_DGRAM" "so_ty m = SOCK_DGRAM" for j n l m
    using that own(5) [of j l n m] by (simp split: if_splits)
  show "udp_open_at d s" if "d \<in> G" for d
    using that assms(2, 3) own(4) [of i k] own(6) by (auto split: if_splits)
qed

lemma sock_reach_owned: "sock_reach F s \<Longrightarrow> sock_owned F s"
proof (induction rule: sock_reach.induct)
  case (start s)
  then show ?case by (simp add: at_start_def sock_owned_def sock_get_def slot_get_def)
next
  case (packet F s s')
  then show ?case by (blast intro: owned_frame softirq_step_frame)
next
  case (signal F s fuel reads sigs ended s')
  then show ?case by (blast intro: owned_frame intr_main_frame)
next
  case (tcp F s e)
  then show ?case by (blast intro: owned_frame frame_tcp tcp_apply_below)
next
  case (udp F s u)
  then show ?case by (blast intro: owned_frame frame_udp)
next
  case (opened F s d s')
  then show ?case by (blast intro: owned_opened(4))
next
  case (entered F s d)
  then show ?case by (intro owned_entered) auto
next
  case (connected F s d)
  then show ?case by (intro owned_entered) (auto simp: tcp_get_def dest: slot_get_SomeD)
next
  case (removed F s i k)
  then show ?case by (blast intro: owned_removed)
next
  case (released F s d)
  then show ?case by (blast intro: owned_released(1))
qed (blast intro: owned_frame frame_ip frame_link)+

text \<open>These states are among those of \<open>stack_reach\<close>.\<close>

lemma reach_event_of:
  "reachable s \<Longrightarrow> on_udp udp_open s = (x, s') \<Longrightarrow> reachable s'"
  "reachable s \<Longrightarrow> reachable (snd (on_udp (udp_close d) s))"
  using reach_on_udp [of s udp_open UOpen] reach_on_udp [of s "udp_close d" "UClose d"] by simp_all

lemma sock_reach_reachable: "sock_reach F s \<Longrightarrow> reachable s"
proof (induction rule: sock_reach.induct)
  case (start s)
  then show ?case by (auto simp: reachable_def intro: stack_reach.start)
next
  case (shutdown F s)
  then show ?case by (auto simp: reachable_def intro: stack_reach.shutdown)
next
  case (packet F s s')
  then show ?case by (auto simp: reachable_def intro: stack_reach.packet)
next
  case (signal F s fuel reads sigs ended s')
  then show ?case by (auto simp: reachable_def intro: stack_reach.signal)
qed (simp_all add: reach_events reach_alloc reach_event_of reach_conf.init_step reach_conf.loopback_step
    reach_conf.tap_step reach_conf.iface_step reach_conf.gateway_step reach_conf.run_step)

section \<open>The socket calls as steps\<close>

lemma tcp_socket_new:
  assumes "on_tcp tcp_socket s = (Ok d, s')"
  shows "tcp_get d (tcp_view s) = None" and "st_socks s' = st_socks s" and "st_udp s' = st_udp s"
    and "tcp_get d (tcp_view s') = Some ((tcp_pcb_empty (length (host_tasks (st_host s))))\<lparr>t_mode := Socket\<rparr>)"
proof -
  obtain t where alloc: "tcp_pcb_alloc (tcp_view s) = (Some d, t)" "s' = tcp_store (tcp_mod d (\<lambda>p. p\<lparr>t_mode := Socket\<rparr>) t) s"
    using assms by (auto simp: on_tcp_def tcp_socket_def split: prod.splits option.splits)
  then show "tcp_get d (tcp_view s) = None" "st_socks s' = st_socks s" "st_udp s' = st_udp s"
    "tcp_get d (tcp_view s') = Some ((tcp_pcb_empty (length (host_tasks (st_host s))))\<lparr>t_mode := Socket\<rparr>)"
    using tcp_alloc_free [of "tcp_view s" d] tcp_alloc_get [of "tcp_view s" d d] by simp_all
qed

lemma open_steps:
  assumes "sock_reach F s"
  shows "sock_reach F (snd (sock_open family ty s))"
proof -
  have tcp: "sock_reach F s1" if "on_tcp tcp_socket s = (x, s1)" for x s1
    using sock_reach.tcp [OF assms, of ESocket] that by (auto simp: on_tcp_def case_prod_beta)
  have udp: "sock_reach F s1" if "on_udp udp_open s = (x, s1)" for x s1
    using sock_reach.udp [OF assms, of UOpen] that by (auto simp: on_udp_def case_prod_beta)
  show ?thesis
  proof (cases rule: sock_open_cases [of family ty s])
    case (stream d s1)
    then show ?thesis using sock_reach.connected [OF tcp] tcp_socket_new(4) [OF stream(2)] by simp
  next
    case (dgram d s1)
    have "insert d F - {d} = F"
      using owned_opened(1) [OF sock_reach_owned [OF assms] dgram(2)] sock_ownedD(6) [OF sock_reach_owned [OF assms]] by blast
    then show ?thesis using sock_reach.entered [OF sock_reach.opened [OF assms dgram(2)], of d] dgram(3) by simp
  qed (use assms tcp udp in simp_all)
qed

lemma close_steps:
  assumes "sock_reach F s"
  shows "sock_reach F (snd (sock_close desc s))"
proof (cases "sock_get desc s")
  case None
  with assms show ?thesis by (simp add: sock_close_def)
next
  case (Some k)
  let ?s = "s\<lparr>st_socks := (st_socks s)[desc := None]\<rparr>"
  note own = sock_ownedD(3, 4) [OF sock_reach_owned [OF assms] Some]
  note rem = sock_reach.removed [OF assms Some]
  show ?thesis
  proof (cases "so_ty k = SOCK_STREAM")
    case True
    with rem have "sock_reach F ?s" by (simp add: sock_types)
    from sock_reach.tcp [OF this, of "EClose (so_desc k)"] show ?thesis
      using Some True by (simp add: sock_close_def on_tcp_def case_prod_beta)
  next
    case False
    then have k: "so_ty k = SOCK_DGRAM" using own(1) by blast
    with own(2) have "insert (so_desc k) F - {so_desc k} = F" by blast
    with rem k sock_reach.released [of "insert (so_desc k) F" ?s "so_desc k"] show ?thesis
      using Some False by (simp add: sock_close_def)
  qed
qed

text \<open>All other calls, and the set-up, keep the predicate that there is such a set.\<close>

definition sock_reachable :: "stack \<Rightarrow> bool" where
  "sock_reachable s \<longleftrightarrow> (\<exists>F. sock_reach F s)"

interpretation sock_conf: config_steps sock_reachable
  by unfold_locales (auto simp: sock_reachable_def intro: sock_reach.intros)

interpretation sock_thr: thread_steps sock_reachable
proof unfold_locales
  fix s0 i k s d assume "sock_reachable s0" "sock_get i s0 = Some k" "sock_reachable s" "tcp_get d (tcp_view s) \<noteq> None"
  then show "sock_reachable (snd (sock_alloc \<lparr>so_family = so_family k, so_ty = SOCK_STREAM, so_desc = d\<rparr> s))"
    using sock_reach.connected sock_ownedD(1) sock_reach_owned unfolding sock_reachable_def by metis
qed (auto simp: sock_reachable_def intro: sock_reach.tcp sock_reach.udp open_steps close_steps)

section \<open>Open and close\<close>

text \<open>The control block of a new socket was free and is in its initial state.\<close>

definition fresh_block :: "sock \<Rightarrow> stack \<Rightarrow> stack \<Rightarrow> bool" where
  "fresh_block k s s' \<longleftrightarrow>
     so_ty k = SOCK_STREAM \<and> tcp_get (so_desc k) (tcp_view s) = None \<and>
       tcp_get (so_desc k) (tcp_view s') = Some ((tcp_pcb_empty (length (host_tasks (st_host s))))\<lparr>t_mode := Socket\<rparr>) \<or>
     so_ty k = SOCK_DGRAM \<and> udp_pcb_get (so_desc k) (udp_view s) = None \<and>
       udp_pcb_get (so_desc k) (udp_view s') = Some (udp_pcb_empty (length (host_tasks (st_host s))))"

lemma sock_alloc_new:
  assumes "sock_alloc k s1 = (i, s')" and "st_socks s1 = st_socks s"
  shows "sock_get i s = None" and "sock_get i s' = Some k" and "j \<noteq> i \<Longrightarrow> sock_get j s' = sock_get j s"
    and "tcp_view s' = tcp_view s1" and "udp_view s' = udp_view s1"
  using assms sock_alloc_free [of s1 k] sock_alloc_sock_get [of j k s1] sock_alloc_sock_get [of i k s1] sock_alloc_views [of k s1]
  by (simp_all add: sock_get_def)

lemma sock_open_new:
  assumes "sock_reach F s" and "sock_open family ty s = (Ok i, s')"
  shows "sock_get i s = None" and "j \<noteq> i \<Longrightarrow> sock_get j s' = sock_get j s"
    and "\<exists>k. sock_get i s' = Some k \<and> so_family k = family \<and> so_ty k = ty \<and> fresh_block k s s'"
proof -
  have fam: "family = AF_INET" using assms(2) by (auto simp: sock_open_def split: if_splits)
  obtain k s1 where k: "sock_alloc k s1 = (i, s')" "st_socks s1 = st_socks s" "so_family k = AF_INET" "so_ty k = ty"
    "fresh_block k s s1"
  proof (cases rule: sock_open_cases [of family ty s])
    case (stream d s1)
    with assms(2) that [of "\<lparr>so_family = AF_INET, so_ty = SOCK_STREAM, so_desc = d\<rparr>" s1] tcp_socket_new [OF stream(2)]
    show ?thesis by (auto simp: fresh_block_def prod_eq_iff)
  next
    case (dgram d s1)
    with assms(2) that [of "\<lparr>so_family = AF_INET, so_ty = SOCK_DGRAM, so_desc = d\<rparr>" s1]
      owned_opened [OF sock_reach_owned [OF assms(1)] dgram(2)]
    show ?thesis by (auto simp: fresh_block_def udp_open_at_def prod_eq_iff)
  qed (use assms(2) in simp_all)
  note new = sock_alloc_new [OF k(1, 2)]
  show "sock_get i s = None" "j \<noteq> i \<Longrightarrow> sock_get j s' = sock_get j s" using new by blast+
  have "fresh_block k s s'" using k(5) new(4, 5) by (simp add: fresh_block_def)
  with new(2) k(3, 4) fam show "\<exists>k. sock_get i s' = Some k \<and> so_family k = family \<and> so_ty k = ty \<and> fresh_block k s s'" by blast
qed

text \<open>
  \<open>close\<close> frees the slot of the socket and, for a datagram socket, its control block, and leaves every
  other socket and every other control block of UDP as it is.
\<close>

lemma sock_close_others:
  assumes "sock_reach F s" and "sock_get i s = Some k" and "sock_close i s = (r, s')"
  shows "sock_get j s' = (if j = i then None else sock_get j s)"
    and "so_ty k = SOCK_DGRAM \<Longrightarrow> r = Ok ()"
    and "udp_pcb_get d (udp_view s') =
      (if so_ty k = SOCK_DGRAM \<and> d = so_desc k then None else udp_pcb_get d (udp_view s))"
proof -
  let ?s = "s\<lparr>st_socks := (st_socks s)[i := None]\<rparr>"
  have own: "sock_owned (if so_ty k = SOCK_DGRAM then insert (so_desc k) F else F) ?s"
    using owned_removed [OF sock_reach_owned [OF assms(1)] assms(2) refl] .
  have keep: "st_socks (snd (on_tcp f ?s)) = st_socks ?s" "st_udp (snd (on_tcp f ?s)) = st_udp s"
    "st_socks (snd (on_udp g ?s)) = st_socks ?s" for f :: "tcp_state \<Rightarrow> unit result \<times> tcp_state" and g :: "udp_state \<Rightarrow> unit result \<times> udp_state"
    by (simp_all add: on_tcp_def on_udp_def case_prod_beta)
  consider (stream) "so_ty k = SOCK_STREAM" "(r, s') = on_tcp (tcp_close (so_desc k)) ?s"
    | (dgram) "so_ty k = SOCK_DGRAM" "(r, s') = on_udp (udp_close (so_desc k)) ?s"
    using assms(2, 3) sock_ownedD(3) [OF sock_reach_owned [OF assms(1)] assms(2)]
    by (auto simp: sock_close_def Let_def split: if_splits)
  then have "st_socks s' = st_socks ?s \<and> (so_ty k = SOCK_DGRAM \<longrightarrow> r = Ok ()) \<and> udp_pcb_get d (udp_view s') =
      (if so_ty k = SOCK_DGRAM \<and> d = so_desc k then None else udp_pcb_get d (udp_view s))"
  proof cases
    case stream
    then show ?thesis
      using keep(1, 2) [of "tcp_close (so_desc k)"] sock_types by (auto simp: udp_pcb_get_def udp_view_def prod_eq_iff)
  next
    case dgram
    then show ?thesis
      using keep(3) [of "udp_close (so_desc k)"] owned_released(2-4) [of "insert (so_desc k) F" ?s "so_desc k"] own
      by (auto simp: prod_eq_iff)
  qed
  then show "sock_get j s' = (if j = i then None else sock_get j s)" "so_ty k = SOCK_DGRAM \<Longrightarrow> r = Ok ()"
    "udp_pcb_get d (udp_view s') = (if so_ty k = SOCK_DGRAM \<and> d = so_desc k then None else udp_pcb_get d (udp_view s))"
    using sock_remove_get [of j s i] by (auto simp: sock_get_def)
qed

lemma sock_close_stream:
  "sock_get i s = Some k \<Longrightarrow> so_ty k = SOCK_STREAM \<Longrightarrow> sock_close i s = (r, s') \<Longrightarrow>
    tcp_close (so_desc k) (tcp_view s) = (r, tcp_view s')"
  by (auto simp: sock_close_def on_tcp_def Let_def split: prod.splits)

end
