(* ===== verification/App_Props.thy ===== *)
theory App_Props
  imports App Sock_Own
begin

text \<open>
  The test program: it stays within the reachable states, its set-up configures the routes, and an
  echo session returns exactly the bytes it received.
\<close>

section \<open>The program stays within the reachable states\<close>

lemma try_then_preserves:
  assumes "P (snd r)" and "\<And>x s. P s \<Longrightarrow> P (snd (f x s))"
  shows "P (snd (try_then r f))"
  using assms by (auto simp: try_then_def split: prod.splits result.splits)

context config_steps
begin

lemma setup_kept: "R s \<Longrightarrow> R (snd (app_setup irq_no s))"
  unfolding app_setup_def Let_def case_prod_beta
  by (intro try_then_preserves [where P = R])
    (simp_all add: on_ip_def on_lnk_def case_prod_beta init_step loopback_step tap_step iface_step gateway_step run_step)

end

text \<open>What the other threads do between the calls of the program, and while its calls wait.\<close>

definition round_ok :: "(stack \<Rightarrow> bool) \<Rightarrow> echo_round \<Rightarrow> bool" where
  "round_ok R r \<longleftrightarrow> (\<forall>s. R s \<longrightarrow> R (before_recv r s)) \<and> (\<forall>s. R s \<longrightarrow> R (before_send r s)) \<and>
     (\<forall>w \<in> set (recv_wakes r). R (snd w)) \<and> (\<forall>w \<in> set (send_wakes r). R (snd w))"

definition session_ok :: "(stack \<Rightarrow> bool) \<Rightarrow> session \<Rightarrow> bool" where
  "session_ok R c \<longleftrightarrow> (\<forall>s. R s \<longrightarrow> R (before_accept c s)) \<and> (\<forall>w \<in> set (accept_wakes c). R (snd w)) \<and>
     list_all (round_ok R) (rounds c)"

context thread_steps
begin

lemma conn_main_kept: "R s \<Longrightarrow> list_all (round_ok R) rs \<Longrightarrow> conn_main fuel soc rs s = Some s' \<Longrightarrow> R s'"
proof (induction rs arbitrary: s)
  case (Cons r rs)
  from Cons.prems have r: "R (before_recv r s)" "\<forall>w \<in> set (recv_wakes r). R (snd w)" "\<forall>w \<in> set (send_wakes r). R (snd w)"
    and send: "\<And>s1. R s1 \<Longrightarrow> R (before_send r s1)"
    by (simp_all add: round_ok_def)
  have recv: "R s1" if "sock_recv soc 128 (recv_wakes r) (before_recv r s) = Some (x, s1)" for x s1
    using recv_kept [OF r(1, 2) that] .
  have sent: "R s2" if "sock_send fuel soc data (send_wakes r) (before_send r s1) = Some (x, s2)" "R s1" for data x s1 s2
    using send_kept [OF send [OF that(2)] r(3) that(1)] .
  show ?case
    using Cons.prems(2, 3) Cons.IH sent
    by (auto split: option.splits result.splits if_splits intro!: close_step dest!: recv) metis
qed simp

lemma accept_loop_kept: "R s \<Longrightarrow> list_all (session_ok R) cs \<Longrightarrow> accept_loop fuel soc cs s = Some s' \<Longrightarrow> R s'"
proof (induction cs arbitrary: s)
  case (Cons c cs)
  from Cons.prems have "R (before_accept c s)" "\<forall>w \<in> set (accept_wakes c). R (snd w)" and rounds: "list_all (round_ok R) (rounds c)"
    by (simp_all add: session_ok_def)
  then have acc: "R s1" if "sock_accept soc (accept_wakes c) (before_accept c s) = Some (x, s1)" for x s1
    using accept_kept that by blast
  show ?case
    using Cons.prems rounds
    by (auto split: option.splits result.splits if_splits dest!: acc) (metis Cons.IH conn_main_kept)
qed simp

lemma app_main_kept:
  assumes "R s" and "list_all (session_ok R) cs" and "\<And>n s. R s \<Longrightarrow> R (others n s)"
    and "app_main others fuel cs s = Some (r, s')"
  shows "R s'"
proof -
  have op: "R s1" if "sock_open AF_INET SOCK_STREAM s = (x, s1)" for x s1
    using open_step [OF assms(1), of AF_INET SOCK_STREAM] that by simp
  have bound: "R s2" if "sock_bind soc a (others 0 s1) = (x, s2)" "R s1" for soc a x s1 s2
    using bind_kept [OF assms(3) [OF that(2), of 0], of soc a] that(1) by simp
  have listening: "R s3" if "sock_listen soc n (others 1 s2) = (x, s3)" "R s2" for soc n x s2 s3
    using listen_kept [OF assms(3) [OF that(2), of 1], of soc n] that(1) by (simp del: One_nat_def)
  have loop: "R s4" if "accept_loop fuel soc cs s3 = Some s4" "R s3" for soc s3 s4
    using accept_loop_kept [OF that(2) assms(2) that(1)] .
  show ?thesis
    using assms(1, 4) unfolding app_main_def
    by (auto split: result.splits prod.splits option.splits intro!: close_step assms(3) simp del: One_nat_def
        dest: op bound listening loop)
qed

end

section \<open>An echo session\<close>

text \<open>The send loop of TCP and the same loop on the whole stack; without a wait, wake-ups do not matter.\<close>

lemma send_loop_on_tcp:
  "send_loop f fuel [] sent (tcp_view s) = Some (r, t) \<Longrightarrow>
     send_loop (\<lambda>n. on_tcp (f n)) fuel wakes sent s = Some (r, tcp_store t s)"
proof (induction fuel arbitrary: sent s)
  case (Suc fuel)
  have store: "tcp_store t (tcp_store u s) = tcp_store t s" for t u by (simp add: tcp_store_def)
  show ?case
  proof (cases "f sent (tcp_view s)")
    case (Pair x t1)
    with Suc.prems Suc.IH [of _ "tcp_store t1 s"] show ?thesis
      by (auto simp: on_tcp_def store split: send_result.splits)
  qed
qed simp

definition stream_sock :: "nat \<Rightarrow> nat \<Rightarrow> stack \<Rightarrow> bool" where
  "stream_sock soc d s \<longleftrightarrow> (\<exists>k. sock_get soc s = Some k \<and> so_ty k = SOCK_STREAM \<and> so_desc k = d)"

lemma stream_sock_typed: "stream_sock soc d s \<Longrightarrow> \<exists>k. sock_typed soc SOCK_STREAM s = Some k \<and> so_desc k = d"
  by (auto simp: stream_sock_def sock_typed_def)

lemma stream_sock_store [simp]: "stream_sock soc d (tcp_store t s) \<longleftrightarrow> stream_sock soc d s"
  by (simp add: stream_sock_def sock_get_def)

text \<open>
  The control block of a session whose peer has closed: \<open>buf\<close> is still to be read, \<open>cap\<close> more bytes
  may be sent and \<open>out\<close> waits for acknowledgment.
\<close>

definition echoing :: "nat \<Rightarrow> nat \<Rightarrow> bytes \<Rightarrow> nat \<Rightarrow> bytes \<Rightarrow> stack \<Rightarrow> bool" where
  "echoing soc d buf cap out s \<longleftrightarrow> stream_sock soc d s \<and> tcp_wf (tcp_view s) \<and>
     (\<exists>p. tcp_get d (tcp_view s) = Some p \<and> t_state p = CloseWait \<and> t_mss p \<noteq> 0 \<and> t_buf p = buf \<and>
        send_cap p = cap \<and> queue_data p = out)"

lemma echo_recv:
  assumes "echoing soc d buf cap out s" and "buf \<noteq> []"
  shows "\<exists>s1. sock_recv soc 128 wakes s = Some (Ok (take 128 buf), s1) \<and> echoing soc d (drop 128 buf) cap out s1"
proof -
  from assms(1) obtain p k where wf: "tcp_wf (tcp_view s)" and p: "tcp_get d (tcp_view s) = Some p"
    "t_state p = CloseWait" "t_mss p \<noteq> 0" "t_buf p = buf" "send_cap p = cap" "queue_data p = out"
    and k: "sock_typed soc SOCK_STREAM s = Some k" "so_desc k = d"
    using stream_sock_typed by (fastforce simp: echoing_def)
  let ?n = "min 128 (length buf)" and ?t = "snd (receive_pass d 128 (tcp_view s))"
  let ?p = "p\<lparr>t_buf := drop ?n buf, rcv_wnd := rcv_wnd p + of_nat ?n\<rparr>"
  have n: "take ?n buf = take 128 buf" "drop ?n buf = drop 128 buf" by (simp_all add: min_def)
  have recv: "fst (receive_pass d 128 (tcp_view s)) = Return (Ok (take 128 buf))" "tcp_get d ?t = Some ?p"
    using receive_takes [OF wf p(1) _ refl, of 128] p assms(2) by (simp_all add: can_take_def n)
  then have "on_tcp (receive_pass d 128) s = (Return (Ok (take 128 buf)), tcp_store ?t s)"
    by (simp add: on_tcp_def case_prod_beta)
  then have "sock_recv soc 128 wakes s = Some (Ok (take 128 buf), tcp_store ?t s)"
    by (simp add: sock_recv_def k blocking_returns)
  moreover have "echoing soc d (drop 128 buf) cap out (tcp_store ?t s)"
    using assms(1) recv(2) p receive_pass_wf [OF wf] by (simp add: echoing_def n send_cap_def queue_data_def)
  ultimately show ?thesis by blast
qed

lemma echo_send:
  assumes "echoing soc d buf cap out s" and "length x \<le> cap" and "length x < fuel"
  shows "\<exists>s1. sock_send fuel soc x wakes s = Some (Ok (length x), s1) \<and>
    echoing soc d buf (cap - length x) (out @ x) s1"
proof -
  from assms(1) obtain p k where wf: "tcp_wf (tcp_view s)" and p: "tcp_get d (tcp_view s) = Some p"
    "t_state p = CloseWait" "t_mss p \<noteq> 0" "t_buf p = buf" "send_cap p = cap" "queue_data p = out"
    and k: "sock_typed soc SOCK_STREAM s = Some k" "so_desc k = d"
    using stream_sock_typed by (fastforce simp: echoing_def)
  obtain t q where t: "send_loop (send_pass d x) fuel [] 0 (tcp_view s) = Some (Ok (length x), t)" "tcp_get d t = Some q"
    "queue_data q = out @ x" "t_state q = CloseWait" "t_mss q = t_mss p" "t_buf q = buf" "send_cap q = cap - length x"
    using send_loop_completes [OF p(1), of 0 x fuel "[]"] assms(2, 3) p by auto
  have "tcp_wf t"
    by (rule send_loop_preserves [OF t(1), where P = tcp_wf]) (simp_all add: send_pass_wf wf)
  then have "echoing soc d buf (cap - length x) (out @ x) (tcp_store t s)"
    using assms(1) t(2-7) p(3) by (simp add: echoing_def)
  moreover have "sock_send fuel soc x wakes s = Some (Ok (length x), tcp_store t s)"
    using send_loop_on_tcp [OF t(1)] by (simp add: sock_send_def k)
  ultimately show ?thesis by blast
qed

text \<open>
  What the other threads may do between two calls of the session: anything that leaves the socket
  and its control block alone.
\<close>

definition leaves_alone :: "nat \<Rightarrow> nat \<Rightarrow> (stack \<Rightarrow> stack) \<Rightarrow> bool" where
  "leaves_alone soc d f \<longleftrightarrow> (\<forall>s. sock_get soc (f s) = sock_get soc s \<and>
     tcp_get d (tcp_view (f s)) = tcp_get d (tcp_view s) \<and> (tcp_wf (tcp_view s) \<longrightarrow> tcp_wf (tcp_view (f s))))"

lemma leaves_alone_echoing: "leaves_alone soc d f \<Longrightarrow> echoing soc d buf cap out s \<Longrightarrow> echoing soc d buf cap out (f s)"
  by (simp add: leaves_alone_def echoing_def stream_sock_def)

text \<open>At the end of the text the peer's FIN is reported; the socket is closed and a FIN is sent.\<close>

lemma queue_data_control [simp]: "queue_data (queued t flg [] p) = queue_data p"
  by (simp add: queued_def queue_data_def)

lemma echo_end:
  assumes "echoing soc d [] cap out s"
  shows "sock_recv soc 128 wakes s = Some (Ok [], s)"
    and "\<exists>q. sock_get soc (snd (sock_close soc s)) = None \<and>
      tcp_get d (tcp_view (snd (sock_close soc s))) = Some q \<and> t_state q = LastAck \<and> queue_data q = out"
proof -
  from assms obtain p k where p: "tcp_get d (tcp_view s) = Some p"
    "t_state p = CloseWait" "t_buf p = []" "queue_data p = out"
    and k: "sock_typed soc SOCK_STREAM s = Some k" "so_desc k = d"
    using stream_sock_typed by (fastforce simp: echoing_def)
  have "on_tcp (receive_pass d 128) s = (Return (Ok []), s)"
    using p by (simp add: on_tcp_def receive_pass_def tcp_store_def tcp_view_def)
  then show "sock_recv soc 128 wakes s = Some (Ok [], s)" by (simp add: sock_recv_def k blocking_returns)
  have get: "sock_get soc s = Some k" "so_ty k = SOCK_STREAM"
    using k by (auto simp: sock_typed_def split: option.splits if_splits)
  have view: "tcp_view (s\<lparr>st_socks := ks\<rparr>) = tcp_view s" for ks by (simp add: tcp_view_def)
  show "\<exists>q. sock_get soc (snd (sock_close soc s)) = None \<and>
      tcp_get d (tcp_view (snd (sock_close soc s))) = Some q \<and> t_state q = LastAck \<and> queue_data q = out"
    using p get k(2)
    by (simp add: sock_close_def on_tcp_def tcp_close_def view send_fin_def)
      (use queue_data_control [unfolded queue_data_def] in \<open>auto simp: sock_get_def slot_get_def queue_data_def\<close>)
qed

lemma echo_session:
  assumes "echoing soc d buf cap out s" and "length buf \<le> cap" and "128 < fuel" and "length buf + 128 \<le> 128 * length rs"
    and "\<forall>r \<in> set rs. leaves_alone soc d (before_recv r) \<and> leaves_alone soc d (before_send r)"
  shows "\<exists>s' q. conn_main fuel soc rs s = Some s' \<and> sock_get soc s' = None \<and>
    tcp_get d (tcp_view s') = Some q \<and> t_state q = LastAck \<and> queue_data q = out @ buf"
  using assms
proof (induction rs arbitrary: buf cap out s)
  case (Cons r rs)
  have s: "echoing soc d buf cap out (before_recv r s)" using Cons.prems(1, 5) leaves_alone_echoing by simp
  show ?case
  proof (cases "buf = []")
    case True
    with echo_end [of soc d cap out "before_recv r s"] s show ?thesis by auto
  next
    case False
    from echo_recv [OF s False] obtain s1 where s1: "sock_recv soc 128 (recv_wakes r) (before_recv r s) = Some (Ok (take 128 buf), s1)"
      "echoing soc d (drop 128 buf) cap out s1" by blast
    then have "echoing soc d (drop 128 buf) cap out (before_send r s1)" using Cons.prems(5) leaves_alone_echoing by simp
    moreover have "length (take 128 buf) \<le> cap" "length (take 128 buf) < fuel" using Cons.prems(2, 3) by simp_all
    ultimately obtain s2 where
      s2: "sock_send fuel soc (take 128 buf) (send_wakes r) (before_send r s1) = Some (Ok (length (take 128 buf)), s2)"
      "echoing soc d (drop 128 buf) (cap - length (take 128 buf)) (out @ take 128 buf) s2"
      using echo_send by blast
    have "Suc 0 \<le> length rs" using False Cons.prems(4) by (cases rs) auto
    with Cons.IH [OF s2(2)] Cons.prems(2-5) s1(1) s2(1) False show ?thesis by (auto simp: min_def split: if_splits)
  qed
qed simp

section \<open>The set-up\<close>

definition app_lo :: ip_iface where
  "app_lo = \<lparr>if_dev = 0, if_unicast = IpAddr 127 0 0 1, if_netmask = IpAddr 255 0 0 0,
     if_broadcast = IpAddr 127 255 255 255\<rparr>"

definition app_en :: ip_iface where
  "app_en = \<lparr>if_dev = 1, if_unicast = IpAddr 192 0 2 2, if_netmask = IpAddr 255 255 255 0,
     if_broadcast = IpAddr 192 0 2 255\<rparr>"

lemma app_strings:
  "ip_to_str (IpAddr 127 0 0 1) = LOOPBACK_IP_ADDR" "ip_to_str (IpAddr 255 0 0 0) = LOOPBACK_NETMASK"
  "ip_to_str (IpAddr 192 0 2 2) = ETHER_TAP_IP_ADDR" "ip_to_str (IpAddr 255 255 255 0) = ETHER_TAP_NETMASK"
  "ip_to_str (IpAddr 192 0 2 1) = DEFAULT_GATEWAY"
  "ether_to_str (EtherAddr 0 0 0x5e 0 0x53 1) = ETHER_TAP_HW_ADDR"
  by (simp_all add: app_defs dec_string.simps digit_char_def hex2_def char_of_def bit_0)

lemmas app_parse = ip_from_to_str [of "IpAddr 127 0 0 1", unfolded app_strings]
  ip_from_to_str [of "IpAddr 255 0 0 0", unfolded app_strings]
  ip_from_to_str [of "IpAddr 192 0 2 2", unfolded app_strings]
  ip_from_to_str [of "IpAddr 255 255 255 0", unfolded app_strings]
  ip_from_to_str [of "IpAddr 192 0 2 1", unfolded app_strings]
  ether_from_to_str [of "EtherAddr 0 0 0x5e 0 0x53 1", unfolded app_strings]

text \<open>The routes of the program, by the address they lead to.\<close>

definition app_routes :: "ip_route list" where
  "app_routes =
     [\<lparr>rt_network = IpAddr 127 0 0 0, rt_netmask = IpAddr 255 0 0 0, rt_nexthop = ip_any, rt_iface = app_lo\<rparr>,
      \<lparr>rt_network = IpAddr 192 0 2 0, rt_netmask = IpAddr 255 255 255 0, rt_nexthop = ip_any, rt_iface = app_en\<rparr>,
      \<lparr>rt_network = ip_any, rt_netmask = ip_any, rt_nexthop = IpAddr 192 0 2 1, rt_iface = app_en\<rparr>]"

lemma app_routes_lookup:
  assumes "ip_routes i = app_routes"
  shows "route_lookup (IpAddr 127 b c d) i = Some (app_routes ! 0)"
    and "route_lookup (IpAddr 192 0 2 d) i = Some (app_routes ! 1)"
    and "a \<noteq> 127 \<Longrightarrow> \<not> (a = 192 \<and> b = 0 \<and> c = 2) \<Longrightarrow> route_lookup (IpAddr a b c d) i = Some (app_routes ! 2)"
proof -
  have "(255 :: u8) = - 1" by simp
  then have 255: "x AND 255 = x" for x :: u8 by (simp only: and.right_neutral)
  show "route_lookup (IpAddr 127 b c d) i = Some (app_routes ! 0)" "route_lookup (IpAddr 192 0 2 d) i = Some (app_routes ! 1)"
    "a \<noteq> 127 \<Longrightarrow> \<not> (a = 192 \<and> b = 0 \<and> c = 2) \<Longrightarrow> route_lookup (IpAddr a b c d) i = Some (app_routes ! 2)"
    unfolding route_lookup_def assms app_routes_def
    by (auto simp: route_matches_def route_prefix_def count_ones_def upt_rec ip_any_def 255)
qed

lemma st_with_link_ifaces [simp]: "ip_ifaces (st_ip (st_with_link l s)) = ip_ifaces (st_ip s)"
  by (simp add: st_with_link_def)

text \<open>The configuration while the program sets it up, after \<open>n\<close> system calls.\<close>

definition configured ::
  "u32 set \<Rightarrow> nat \<Rightarrow> device list \<Rightarrow> ip_iface list \<Rightarrow> ip_route list \<Rightarrow> stack \<Rightarrow> stack \<Rightarrow> bool" where
  "configured I n ds ifs rts s0 s \<longleftrightarrow> devices (st_link s) = ds \<and> ip_ifaces (st_ip s) = ifs \<and> ip_routes (st_ip s) = rts \<and>
     timer_created (st_link s) \<and> irq ` set (irqs (st_link s)) \<subseteq> I \<and>
     sys_ret (lk_os (st_link s)) = sys_ret (lk_os (st_link s0)) \<and>
     sys_calls (lk_os (st_link s)) = sys_calls (lk_os (st_link s0)) + n"

lemma app_init:
  assumes "at_start s" and "sys_ret (lk_os (st_link s)) (sys_calls (lk_os (st_link s))) = 0"
  shows "\<exists>s'. on_ip net_init s = (Ok (), s') \<and> configured {SIGUSR1, SIGUSR2, SIGALRM} 1 [] [] [] s s'"
  using assms
  by (simp add: at_start_def on_ip_def net_init_def platform_init_def and_then_def on_link_def softirq_init_def
      timer_init_def task_init_irq_def link_intr_register_def intr_register_def link_timer_register_def timer_register_def
      arp_init_def ip_init_def icmp_init_def udp_init_def tcp_init_def net_register_protocol_def
      ip_register_protocol_def syscall_def now_def shared_def FLAG_SHARED_def FLAG_QUIET_def
      SIGUSR1_def SIGUSR2_def SIGALRM_def ETHER_TYPE_ARP_def PROTOCOL_TYPE_IP_def
      IP_PROTOCOL_ICMP_def IP_PROTOCOL_UDP_def IP_PROTOCOL_TCP_def configured_def)

lemma app_loopback:
  assumes "configured I n ds ifs rts s0 s"
  shows "\<exists>s' d. on_lnk loopback_init s = (length ds, s') \<and> configured I n (ds @ [d]) ifs rts s0 s' \<and>
    dev_ifaces d = [] \<and> dev_ops d = LoopbackOps \<and> \<not> is_up d"
  using assms by (simp add: configured_def on_lnk_def loopback_init_def device_register_def device_new_def
      is_up_def FLAG_LOOPBACK_def FLAG_UP_def Let_def)

lemma app_tap:
  assumes "configured I n ds ifs rts s0 s" and "irq_no \<notin> I"
  shows "\<exists>s' d tap. on_lnk (ether_tap_init irq_no name (Some mac)) s = (Ok (length ds), s') \<and>
    configured (insert irq_no I) n (ds @ [d]) ifs rts s0 s' \<and>
    dev_ifaces d = [] \<and> dev_ops d = EtherTapOps tap \<and> configured_addr tap = Some mac \<and> \<not> is_up d"
  using assms
  by (auto simp: configured_def on_lnk_def ether_tap_init_def device_register_def device_new_def intr_register_def
      is_up_def FLAG_BROADCAST_def FLAG_NEED_ARP_def FLAG_UP_def Let_def)

lemma app_iface:
  assumes "configured I n ds ifs rts s0 s" and "i < length ds" and "dev_ifaces (ds ! i) = []"
    and "ip_from_str a = Ok u" and "ip_from_str m = Ok k"
  defines "f \<equiv> \<lparr>if_dev = i, if_unicast = u, if_netmask = k, if_broadcast = ip_or_not u k\<rparr>"
  shows "\<exists>s'. on_ip (ip_iface_register i a m) s = (Ok f, s') \<and>
    configured I n (ds[i := (ds ! i)\<lparr>dev_ifaces := [f]\<rparr>]) (ifs @ [f])
      (rts @ [\<lparr>rt_network = ip_and u k, rt_netmask = k, rt_nexthop = ip_any, rt_iface = f\<rparr>]) s0 s'"
  using assms
  by (simp add: configured_def on_ip_def ip_iface_register_def by_index_def dev_add_iface_def ip_route_add_def Let_def)

lemma app_gateway:
  assumes "configured I n ds ifs rts s0 s"
  shows "\<exists>s'. on_ip (set_default_gateway f gw) s = (Ok (), s') \<and>
    configured I n ds ifs (rts @ [\<lparr>rt_network = ip_any, rt_netmask = ip_any, rt_nexthop = gw, rt_iface = f\<rparr>]) s0 s'"
  using assms by (simp add: configured_def on_ip_def set_default_gateway_def ip_route_add_def)

lemma tap_fcntl_ok: "\<forall>n. sys_ret s (sys_calls s + n) \<noteq> - 1 \<Longrightarrow> fst (tap_fcntl k fd s) = Ok ()"
proof (induction k arbitrary: s)
  case (Suc k)
  have "\<forall>n. sys_ret s (Suc (sys_calls s) + n) \<noteq> - 1" using Suc.prems by (metis add_Suc_shift)
  then show ?case
    using Suc.IH [of "snd (syscall s)"] Suc.prems [rule_format, of 0] by (simp add: syscall_def)
qed simp

lemma tap_open_ok:
  assumes "\<forall>n. sys_ret s (sys_calls s + n) \<noteq> - 1" and "configured_addr tap = Some mac"
  shows "\<exists>d' s'. tap_open tap dev s = (Ok (), d', s')"
proof -
  let ?s2 = "snd (syscall (snd (fd_open s)))"
  have "\<forall>n. sys_ret ?s2 (sys_calls ?s2 + n) \<noteq> - 1"
    using assms(1) [rule_format, of "Suc (Suc _)"] by (simp add: fd_open_def syscall_def Let_def)
  then have "fst (tap_fcntl 4 (fst (fd_open s)) ?s2) = Ok ()" by (rule tap_fcntl_ok)
  then show ?thesis
    using assms(1) [rule_format, of 0] assms(1) [rule_format, of 1] assms(2)
    by (auto simp: tap_open_def tap_mac_def fd_open_def syscall_def Let_def case_prod_beta split: prod.splits result.splits)
qed

lemma app_run:
  assumes "configured I n [lo, en] ifs rts s0 s"
    and "\<forall>k. sys_ret (lk_os (st_link s)) (sys_calls (lk_os (st_link s)) + k) \<noteq> - 1"
    and "\<forall>k < 2. sys_ret (lk_os (st_link s)) (sys_calls (lk_os (st_link s)) + k) = 0"
    and "\<not> is_up lo" "dev_ops lo = LoopbackOps" "\<not> is_up en" "dev_ops en = EtherTapOps tap" "configured_addr tap = Some mac"
  shows "\<exists>s'. on_lnk net_run s = (Ok (), s') \<and> ip_ifaces (st_ip s') = ifs \<and> ip_routes (st_ip s') = rts \<and>
    length (devices (st_link s')) = 2 \<and> list_all is_up (devices (st_link s'))"
proof -
  let ?os = "lk_os (st_link s)"
  let ?os2 = "snd (syscall (snd (syscall ?os)))"
  have calls: "sys_ret ?os2 = sys_ret ?os" "sys_calls ?os2 = Suc (Suc (sys_calls ?os))" by (simp_all add: syscall_def)
  have os2: "\<forall>k. sys_ret ?os2 (sys_calls ?os2 + k) \<noteq> - 1"
    using assms(2) [rule_format, of "Suc (Suc _)"] by (simp add: calls)
  have run: "platform_run (st_link s) = (Ok (), (st_link s)\<lparr>lk_os := ?os2,
      dispatcher := Some (SIGHUP # map irq (irqs (st_link s)))\<rparr>)"
    using assms(1) assms(3) [rule_format, of 0] assms(3) [rule_format, of 1]
    by (simp add: platform_run_def and_then_def intr_run_def timer_run_def configured_def syscall_def)
  obtain d os3 where tap: "tap_open tap en ?os2 = (Ok (), d, os3)"
    using tap_open_ok [OF os2 assms(8)] by blast
  have "open_all [lo, en] ?os2 = (Ok (), [lo\<lparr>dev_flags := dev_flags lo OR FLAG_UP\<rparr>, d\<lparr>dev_flags := dev_flags d OR FLAG_UP\<rparr>], os3)"
    using assms(4-7) tap by (simp add: device_open_def ops_open_def)
  moreover have "is_up (x\<lparr>dev_flags := dev_flags x OR FLAG_UP\<rparr>)" for x
  proof -
    have "bit ((dev_flags x OR FLAG_UP) AND FLAG_UP) 0" by (simp add: FLAG_UP_def bit_simps)
    then show ?thesis by (auto simp: is_up_def)
  qed
  ultimately show ?thesis
    using run assms(1) by (simp add: on_lnk_def net_run_def and_then_def configured_def)
qed

lemma app_ifaces:
  "\<lparr>if_dev = 0, if_unicast = IpAddr 127 0 0 1, if_netmask = IpAddr 255 0 0 0,
     if_broadcast = ip_or_not (IpAddr 127 0 0 1) (IpAddr 255 0 0 0)\<rparr> = app_lo"
  "\<lparr>if_dev = Suc 0, if_unicast = IpAddr 192 0 2 2, if_netmask = IpAddr 255 255 255 0,
     if_broadcast = ip_or_not (IpAddr 192 0 2 2) (IpAddr 255 255 255 0)\<rparr> = app_en"
  by (simp_all add: app_lo_def app_en_def)

lemma app_networks:
  "ip_and (IpAddr 127 0 0 1) (IpAddr 255 0 0 0) = IpAddr 127 0 0 0"
  "ip_and (IpAddr 192 0 2 2) (IpAddr 255 255 255 0) = IpAddr 192 0 2 0"
  by simp_all

lemma app_setup_ok:
  assumes "at_start s" and "irq_no \<notin> {SIGUSR1, SIGUSR2, SIGALRM}"
    and "\<forall>n. sys_ret (lk_os (st_link s)) (sys_calls (lk_os (st_link s)) + n) \<noteq> - 1"
    and "\<forall>n < 3. sys_ret (lk_os (st_link s)) (sys_calls (lk_os (st_link s)) + n) = 0"
  shows "\<exists>s'. app_setup irq_no s = (Ok (), s') \<and> ip_routes (st_ip s') = app_routes \<and>
    ip_ifaces (st_ip s') = [app_lo, app_en] \<and> length (devices (st_link s')) = 2 \<and> list_all is_up (devices (st_link s'))"
proof -
  let ?I = "{SIGUSR1, SIGUSR2, SIGALRM}"
  obtain s1 where s1: "on_ip net_init s = (Ok (), s1)" "configured ?I 1 [] [] [] s s1"
    using app_init assms(1, 4) by (metis add_0_right zero_less_numeral)
  from app_loopback [OF s1(2)] obtain s2 lo where s2: "on_lnk loopback_init s1 = (0, s2)"
    "configured ?I 1 [lo] [] [] s s2" "dev_ifaces lo = []" "dev_ops lo = LoopbackOps" "\<not> is_up lo" by auto
  from app_iface [OF s2(2), of 0, OF _ _ app_parse(1, 2)] s2(3) obtain s3 lo' where
    s3: "on_ip (ip_iface_register 0 LOOPBACK_IP_ADDR LOOPBACK_NETMASK) s2 = (Ok app_lo, s3)"
      "configured ?I 1 [lo'] [app_lo] [app_routes ! 0] s s3"
      "lo' = lo\<lparr>dev_ifaces := [app_lo]\<rparr>"
    by (auto simp: app_ifaces app_networks app_routes_def simp del: ip_or_not.simps ip_and.simps)
  from app_tap [OF s3(2) assms(2), of ETHER_TAP_NAME "EtherAddr 0 0 0x5e 0 0x53 1"] obtain s4 en tap where
    s4: "on_lnk (ether_tap_init irq_no ETHER_TAP_NAME (Some (EtherAddr 0 0 0x5e 0 0x53 1))) s3 = (Ok 1, s4)"
      "configured (insert irq_no ?I) 1 [lo', en] [app_lo] [app_routes ! 0] s s4"
      "dev_ifaces en = []" "dev_ops en = EtherTapOps tap" "configured_addr tap = Some (EtherAddr 0 0 0x5e 0 0x53 1)"
      "\<not> is_up en"
    by auto
  from app_iface [OF s4(2), of 1, OF _ _ app_parse(3, 4)] s4(3) obtain s5 en' where
    s5: "on_ip (ip_iface_register 1 ETHER_TAP_IP_ADDR ETHER_TAP_NETMASK) s4 = (Ok app_en, s5)"
      "configured (insert irq_no ?I) 1 [lo', en'] [app_lo, app_en] [app_routes ! 0, app_routes ! 1] s s5"
      "en' = en\<lparr>dev_ifaces := [app_en]\<rparr>"
    by (auto simp: app_ifaces app_networks app_routes_def simp del: ip_or_not.simps ip_and.simps)
  from app_gateway [OF s5(2), of app_en "IpAddr 192 0 2 1"] obtain s6 where
    s6: "on_ip (set_default_gateway app_en (IpAddr 192 0 2 1)) s5 = (Ok (), s6)"
      "configured (insert irq_no ?I) 1 [lo', en'] [app_lo, app_en] app_routes s s6"
    by (auto simp: app_routes_def)
  have calls: "sys_ret (lk_os (st_link s6)) = sys_ret (lk_os (st_link s))"
    "sys_calls (lk_os (st_link s6)) = Suc (sys_calls (lk_os (st_link s)))"
    using s6(2) by (simp_all add: configured_def)
  obtain s7 where "on_lnk net_run s6 = (Ok (), s7)" "ip_ifaces (st_ip s7) = [app_lo, app_en]"
    "ip_routes (st_ip s7) = app_routes" "length (devices (st_link s7)) = 2" "list_all is_up (devices (st_link s7))"
    using app_run [OF s6(2), where tap = tap and mac = "EtherAddr 0 0 0x5e 0 0x53 1"] assms(3) [rule_format, of "Suc _"] assms(4) [rule_format, of "Suc _"] s2 s3(3) s4 s5(3)
    by (auto simp: calls is_up_def)
  then show ?thesis
    using s1(1) s2(1) s3(1) s4(1) s5(1) s6(1) by (simp add: app_setup_def try_then_def app_parse)
qed

end
