(* ===== verification/Xtask.thy ===== *)
theory Xtask
  imports Addr
begin

text \<open>
  The task runner \<^verbatim>\<open>xtask/src/main.rs\<close>, which prepares the host for the stack: the TAP device, IP
  forwarding and the firewall rules. The programs it runs (\<open>ip\<close>, \<open>sysctl\<close>, \<open>iptables\<close> under \<open>sudo\<close>) are
  a parameter: functions on a world of any type. The command line is parsed by the library \<open>xflags\<close>
  into the values of \<open>xtask_cmd\<close>.
\<close>

section \<open>Running programs\<close>

text \<open>
  \<open>status_of\<close> is the success of a program, \<open>None\<close> if it cannot be started; \<open>output_of\<close> what it prints,
  \<open>None\<close> if it cannot be started or prints no valid text.
\<close>

record 'w commands =
  status_of :: "string \<Rightarrow> string list \<Rightarrow> 'w \<Rightarrow> bool option \<times> 'w"
  output_of :: "string \<Rightarrow> string list \<Rightarrow> 'w \<Rightarrow> string option \<times> 'w"

definition run_cmd :: "'w commands \<Rightarrow> string \<Rightarrow> string list \<Rightarrow> 'w \<Rightarrow> unit result \<times> 'w" where
  "run_cmd c program args w =
     (case status_of c program args w of
        (None, w1) \<Rightarrow> (Err, w1)
      | (Some success, w1) \<Rightarrow> if \<not> success then (Err, w1) else (Ok (), w1))"

definition probe :: "'w commands \<Rightarrow> string \<Rightarrow> string list \<Rightarrow> 'w \<Rightarrow> bool \<times> 'w" where
  "probe c program args w =
     (case status_of c program args w of (None, w1) \<Rightarrow> (False, w1) | (Some success, w1) \<Rightarrow> (success, w1))"

fun run_all :: "'w commands \<Rightarrow> string list list \<Rightarrow> 'w \<Rightarrow> bool \<times> 'w" where
  "run_all c [] w = (True, w)"
| "run_all c (cmd # cmds) w =
     (case run_cmd c ''sudo'' cmd w of (Err, w1) \<Rightarrow> (False, w1) | (Ok _, w1) \<Rightarrow> run_all c cmds w1)"

section \<open>The TAP device and forwarding\<close>

definition DEFAULT_TAPDEV :: string where "DEFAULT_TAPDEV = ''tap0''"
definition DEFAULT_TAPADDR :: string where "DEFAULT_TAPADDR = ''192.0.2.1/24''"

definition parse_state :: "string \<Rightarrow> bool option" where
  "parse_state s = (if s = ''on'' then Some True else if s = ''off'' then Some False else None)"

definition iface_exists :: "'w commands \<Rightarrow> string \<Rightarrow> 'w \<Rightarrow> bool \<times> 'w" where
  "iface_exists c dev w = probe c ''ip'' [''addr'', ''show'', dev] w"

text \<open>The result is the exit code, \<open>True\<close> for success; \<open>user\<close> is the environment variable.\<close>

definition tap_create :: "'w commands \<Rightarrow> string \<Rightarrow> string \<Rightarrow> string \<Rightarrow> 'w \<Rightarrow> bool \<times> 'w" where
  "tap_create c user dev address w =
     (case iface_exists c dev w of
        (True, w1) \<Rightarrow> (True, w1)
      | (False, w1) \<Rightarrow>
          let sysctl = ''net.ipv6.conf.'' @ dev @ ''.disable_ipv6=1''
          in run_all c
               [[''ip'', ''tuntap'', ''add'', ''mode'', ''tap'', ''user'', user, ''name'', dev],
                [''sysctl'', ''-w'', sysctl],
                [''ip'', ''addr'', ''add'', address, ''dev'', dev],
                [''ip'', ''link'', ''set'', dev, ''up'']] w1)"

definition tap_delete :: "'w commands \<Rightarrow> string \<Rightarrow> 'w \<Rightarrow> bool \<times> 'w" where
  "tap_delete c dev w =
     (case iface_exists c dev w of
        (False, w1) \<Rightarrow> (True, w1)
      | (True, w1) \<Rightarrow>
          (case run_cmd c ''sudo'' [''ip'', ''tuntap'', ''del'', ''mode'', ''tap'', ''name'', dev] w1 of
             (Err, w2) \<Rightarrow> (False, w2)
           | (Ok _, w2) \<Rightarrow> (True, w2)))"

text \<open>\<open>trim\<close> and \<open>split_whitespace\<close> on the ASCII output of the programs.\<close>

definition whitespace :: "char \<Rightarrow> bool" where
  "whitespace x \<longleftrightarrow> x = CHR '' '' \<or> (9 \<le> (of_char x :: nat) \<and> (of_char x :: nat) \<le> 13)"

definition trim :: "string \<Rightarrow> string" where
  "trim s = rev (dropWhile whitespace (rev (dropWhile whitespace s)))"

function split_whitespace :: "string \<Rightarrow> string list" where
  "split_whitespace [] = []"
| "split_whitespace (x # xs) =
     (if whitespace x then split_whitespace xs
      else (x # takeWhile (\<lambda>y. \<not> whitespace y) xs) # split_whitespace (dropWhile (\<lambda>y. \<not> whitespace y) xs))"
  by pat_completeness auto

termination
  by (relation "measure length") (auto simp: length_dropWhile_le le_imp_less_Suc)

definition read_ip_forward :: "'w commands \<Rightarrow> 'w \<Rightarrow> nat option \<times> 'w" where
  "read_ip_forward c w =
     (case output_of c ''sysctl'' [''-n'', ''net.ipv4.ip_forward''] w of
        (None, w1) \<Rightarrow> (None, w1)
      | (Some s, w1) \<Rightarrow> (from_str_radix 10 (2 ^ 32 - 1) (trim s), w1))"

definition forward :: "'w commands \<Rightarrow> bool \<Rightarrow> 'w \<Rightarrow> bool \<times> 'w" where
  "forward c on w =
     (let target = (if on then 1 else 0); (cur, w1) = read_ip_forward c w
      in if cur = Some target then (True, w1)
         else case run_cmd c ''sudo'' [''sysctl'', ''-w'', ''net.ipv4.ip_forward='' @ dec_string target] w1 of
                (Err, w2) \<Rightarrow> (False, w2)
              | (Ok _, w2) \<Rightarrow> (True, w2))"

section \<open>Firewall rules\<close>

record rule =
  table :: string
  chain :: string
  spec :: "string list"

definition iptables_args :: "rule \<Rightarrow> string \<Rightarrow> string list" where
  "iptables_args r action = [''iptables'', ''-t'', table r, action, chain r] @ spec r"

definition iptables_exists :: "'w commands \<Rightarrow> rule \<Rightarrow> 'w \<Rightarrow> bool \<times> 'w" where
  "iptables_exists c r w = probe c ''sudo'' (iptables_args r ''-C'') w"

definition split_once :: "char \<Rightarrow> string \<Rightarrow> (string \<times> string) option" where
  "split_once x s =
     (if x \<in> set s then Some (takeWhile (\<lambda>y. y \<noteq> x) s, tl (dropWhile (\<lambda>y. y \<noteq> x) s)) else None)"

definition cidr_network :: "string \<Rightarrow> string option" where
  "cidr_network cidr =
     (case split_once (CHR ''/'') cidr of
        None \<Rightarrow> None
      | Some (addr_str, prefix_str) \<Rightarrow>
          (case from_str_radix 10 (2 ^ 32 - 1) prefix_str of
             None \<Rightarrow> None
           | Some prefix \<Rightarrow>
               if prefix > 32 then None
               else (case List.map_filter (from_str_radix 10 255) (split_on (CHR ''.'') addr_str) of
                       [o0, o1, o2, o3] \<Rightarrow>
                         let addr_u32 = push_bit 24 (of_nat o0) OR push_bit 16 (of_nat o1) OR
                               push_bit 8 (of_nat o2) OR (of_nat o3 :: u32);
                             msk = (if prefix = 0 then 0 else push_bit (32 - prefix) (NOT 0));
                             net = addr_u32 AND msk
                         in Some (dec_string (unat (drop_bit 24 net AND 0xff)) @ ''.'' @
                              dec_string (unat (drop_bit 16 net AND 0xff)) @ ''.'' @
                              dec_string (unat (drop_bit 8 net AND 0xff)) @ ''.'' @
                              dec_string (unat (net AND 0xff)) @ ''/'' @ dec_string prefix)
                     | _ \<Rightarrow> None)))"

definition nat_rules :: "string \<Rightarrow> string \<Rightarrow> string \<Rightarrow> rule list" where
  "nat_rules tap out net =
     [\<lparr>table = ''filter'', chain = ''FORWARD'', spec = [''-o'', tap, ''-j'', ''ACCEPT'']\<rparr>,
      \<lparr>table = ''filter'', chain = ''FORWARD'', spec = [''-i'', tap, ''-j'', ''ACCEPT'']\<rparr>,
      \<lparr>table = ''nat'', chain = ''POSTROUTING'', spec = [''-s'', net, ''-o'', out, ''-j'', ''MASQUERADE'']\<rparr>]"

fun nat_loop :: "'w commands \<Rightarrow> bool \<Rightarrow> rule list \<Rightarrow> 'w \<Rightarrow> bool \<times> 'w" where
  "nat_loop c on [] w = (True, w)"
| "nat_loop c on (r # rs) w =
     (let (exists, w1) = iptables_exists c r w
      in if on \<and> \<not> exists \<or> \<not> on \<and> exists
         then (case run_cmd c ''sudo'' (iptables_args r (if on \<and> \<not> exists then ''-A'' else ''-D'')) w1 of
                 (Err, w2) \<Rightarrow> (False, w2)
               | (Ok _, w2) \<Rightarrow> nat_loop c on rs w2)
         else nat_loop c on rs w1)"

definition nat_cmd :: "'w commands \<Rightarrow> string \<Rightarrow> string \<Rightarrow> bool \<Rightarrow> 'w \<Rightarrow> bool \<times> 'w" where
  "nat_cmd c tap out on w =
     (case cidr_network DEFAULT_TAPADDR of
        None \<Rightarrow> (False, w)
      | Some net \<Rightarrow> nat_loop c on (nat_rules tap out net) w)"

text \<open>The word after the first \<open>dev\<close> in the default route.\<close>

fun word_after :: "string \<Rightarrow> string list \<Rightarrow> string option" where
  "word_after x [] = None"
| "word_after x (y # ys) = (if y = x then (case ys of [] \<Rightarrow> None | z # _ \<Rightarrow> Some z) else word_after x ys)"

definition detect_outbound_iface :: "'w commands \<Rightarrow> 'w \<Rightarrow> string option \<times> 'w" where
  "detect_outbound_iface c w =
     (case output_of c ''ip'' [''route'', ''show'', ''default''] w of
        (None, w1) \<Rightarrow> (None, w1)
      | (Some s, w1) \<Rightarrow> (word_after ''dev'' (split_whitespace s), w1))"

definition resolve_outbound :: "'w commands \<Rightarrow> string option \<Rightarrow> 'w \<Rightarrow> string option \<times> 'w" where
  "resolve_outbound c arg w = (case arg of Some s \<Rightarrow> (Some s, w) | None \<Rightarrow> detect_outbound_iface c w)"

section \<open>Commands\<close>

datatype tap_cmd = Create (c_dev: "string option") (c_addr: "string option") | Delete (d_dev: "string option")
datatype xtask_cmd = Tap tap_cmd | Forward string | NatCmd string "string option" "string option"

definition unwrap_or :: "'a option \<Rightarrow> 'a \<Rightarrow> 'a" where
  "unwrap_or x d = (case x of None \<Rightarrow> d | Some y \<Rightarrow> y)"

fun xtask_main :: "'w commands \<Rightarrow> string \<Rightarrow> xtask_cmd \<Rightarrow> 'w \<Rightarrow> bool \<times> 'w" where
  "xtask_main c user (Tap (Create dev address)) w =
     tap_create c user (unwrap_or dev DEFAULT_TAPDEV) (unwrap_or address DEFAULT_TAPADDR) w"
| "xtask_main c user (Tap (Delete dev)) w = tap_delete c (unwrap_or dev DEFAULT_TAPDEV) w"
| "xtask_main c user (Forward st) w =
     (case parse_state st of Some on \<Rightarrow> forward c on w | None \<Rightarrow> (False, w))"
| "xtask_main c user (NatCmd st tap out) w =
     (case parse_state st of
        None \<Rightarrow> (False, w)
      | Some on \<Rightarrow>
          let tap = unwrap_or tap DEFAULT_TAPDEV
          in case resolve_outbound c out w of
               (None, w1) \<Rightarrow> (False, w1)
             | (Some out, w1) \<Rightarrow> nat_cmd c tap out on w1)"

end
