(* ===== verification/Xtask_Props.thy ===== *)
theory Xtask_Props
  imports Xtask
begin

text \<open>
  The task runner: the network it computes from an address is the one the stack computes with the
  netmask of that length, and switching the firewall rules on or off reaches that state from any
  state and does nothing when it is already there.
\<close>

section \<open>The network of an address\<close>

text \<open>Octet \<open>k\<close> of the netmask with \<open>n\<close> leading ones.\<close>

definition prefix_octet :: "nat \<Rightarrow> nat \<Rightarrow> u8" where
  "prefix_octet n k = NOT (mask (8 * Suc k - n))"

definition prefix_mask :: "nat \<Rightarrow> ip_addr" where
  "prefix_mask n = IpAddr (prefix_octet n 0) (prefix_octet n 1) (prefix_octet n 2) (prefix_octet n 3)"

definition addr_word :: "u8 \<Rightarrow> u8 \<Rightarrow> u8 \<Rightarrow> u8 \<Rightarrow> u32" where
  "addr_word a b c d = push_bit 24 (of_nat (unat a)) OR push_bit 16 (of_nat (unat b)) OR
     push_bit 8 (of_nat (unat c)) OR of_nat (unat d)"

definition mask_word :: "nat \<Rightarrow> u32" where
  "mask_word n = (if n = 0 then 0 else push_bit (32 - n) (NOT 0))"

lemma bit_mask_word: "n \<le> 32 \<Longrightarrow> bit (mask_word n) i \<longleftrightarrow> i < 32 \<and> 32 \<le> n + i"
  by (auto simp: mask_word_def bit_simps)

lemma bit_of_u8: "bit (of_nat (unat (a :: u8)) :: u32) i \<longleftrightarrow> i < 8 \<and> bit a i"
  using bit_imp_le_length [of a i] by (auto simp: bit_of_nat_iff bit_unsigned_iff)

lemma bit_prefix_octet: "bit (prefix_octet n k) i \<longleftrightarrow> i < 8 \<and> 8 * Suc k \<le> n + i"
  by (auto simp: prefix_octet_def bit_simps)

lemma low_octet: "(0xff :: u32) = mask 8"
  by (simp add: mask_eq_exp_minus_1)

lemma octet_word:
  assumes "n \<le> 32"
  shows "drop_bit 24 (addr_word a b c d AND mask_word n) AND 0xff = of_nat (unat (a AND prefix_octet n 0))"
    and "drop_bit 16 (addr_word a b c d AND mask_word n) AND 0xff = of_nat (unat (b AND prefix_octet n 1))"
    and "drop_bit 8 (addr_word a b c d AND mask_word n) AND 0xff = of_nat (unat (c AND prefix_octet n 2))"
    and "(addr_word a b c d AND mask_word n) AND 0xff = of_nat (unat (d AND prefix_octet n 3))"
  unfolding low_octet
  by (rule bit_word_eqI; auto simp: bit_simps bit_of_u8 bit_mask_word [OF assms] bit_prefix_octet addr_word_def
      dest: bit_imp_le_length)+

lemma octets:
  assumes "n \<le> 32"
  shows "unat (drop_bit 24 (addr_word a b c d AND mask_word n) AND 0xff) = unat (a AND prefix_octet n 0)"
    and "unat (drop_bit 16 (addr_word a b c d AND mask_word n) AND 0xff) = unat (b AND prefix_octet n 1)"
    and "unat (drop_bit 8 (addr_word a b c d AND mask_word n) AND 0xff) = unat (c AND prefix_octet n 2)"
    and "unat ((addr_word a b c d AND mask_word n) AND 0xff) = unat (d AND prefix_octet n 3)"
proof -
  have "unat (of_nat (unat x) :: u32) = unat x" for x :: u8
    using unat_u8_less [of x] by (intro unat_of_nat_u32) linarith
  with octet_word [OF assms] show
    "unat (drop_bit 24 (addr_word a b c d AND mask_word n) AND 0xff) = unat (a AND prefix_octet n 0)"
    "unat (drop_bit 16 (addr_word a b c d AND mask_word n) AND 0xff) = unat (b AND prefix_octet n 1)"
    "unat (drop_bit 8 (addr_word a b c d AND mask_word n) AND 0xff) = unat (c AND prefix_octet n 2)"
    "unat ((addr_word a b c d AND mask_word n) AND 0xff) = unat (d AND prefix_octet n 3)"
    by simp_all
qed

lemma separator_slash [simp]: "separator (CHR ''/'')"
  by (simp add: separator_def)

lemma split_once_append: "x \<notin> set p \<Longrightarrow> split_once x (p @ x # q) = Some (p, q)"
  by (simp add: split_once_def) (induction p, auto)

lemma slash_not_in_ip: "CHR ''/'' \<notin> set (ip_to_str a)"
  by (cases a) (simp add: separator_not_in_dec)

lemma cidr_network_eq:
  assumes "n \<le> 32"
  shows "cidr_network (ip_to_str a @ ''/'' @ dec_string n) = Some (ip_to_str (ip_and a (prefix_mask n)) @ ''/'' @ dec_string n)"
proof (cases a)
  case (IpAddr a0 a1 a2 a3)
  have split: "split_once (CHR ''/'') (ip_to_str a @ ''/'' @ dec_string n) = Some (ip_to_str a, dec_string n)"
    using split_once_append [OF slash_not_in_ip] by simp
  have prefix: "from_str_radix 10 (2 ^ 32 - 1) (dec_string n) = Some n"
    using assms by (intro from_str_dec_string) simp
  have octs: "List.map_filter (from_str_radix 10 255) (split_on (CHR ''.'') (ip_to_str a)) = [unat a0, unat a1, unat a2, unat a3]"
    by (simp add: IpAddr print_parse_simps map_filter_simps)
  have "\<not> n > 32" using assms by simp
  then show ?thesis
    unfolding cidr_network_def split prefix octs option.case prod.case list.case Let_def
      addr_word_def [symmetric] mask_word_def [symmetric] octets [OF assms]
    by (simp add: IpAddr prefix_mask_def)
qed

section \<open>Firewall rules\<close>

text \<open>
  What \<open>iptables\<close> documents: with \<open>-C\<close> it succeeds if and only if the rule is in its chain, with \<open>-A\<close>
  it appends the rule, with \<open>-D\<close> it deletes the first rule that matches; a failure changes nothing.
\<close>

definition iptables_ok :: "'w commands \<Rightarrow> ('w \<Rightarrow> rule list) \<Rightarrow> bool" where
  "iptables_ok c rules \<longleftrightarrow>
     (\<forall>r w. \<exists>w'. status_of c ''sudo'' (iptables_args r ''-C'') w = (Some (r \<in> set (rules w)), w') \<and> rules w' = rules w) \<and>
     (\<forall>r w x w'. status_of c ''sudo'' (iptables_args r ''-A'') w = (x, w') \<longrightarrow>
        rules w' = (if x = Some True then rules w @ [r] else rules w)) \<and>
     (\<forall>r w x w'. status_of c ''sudo'' (iptables_args r ''-D'') w = (x, w') \<longrightarrow>
        rules w' = (if x = Some True then remove1 r (rules w) else rules w))"

lemma iptables_okD:
  assumes "iptables_ok c rules"
  shows "iptables_exists c r w = (e, w1) \<Longrightarrow> e = (r \<in> set (rules w)) \<and> rules w1 = rules w"
    and "run_cmd c ''sudo'' (iptables_args r ''-A'') w = (x, w1) \<Longrightarrow>
      rules w1 = (if x = Ok () then rules w @ [r] else rules w)"
    and "run_cmd c ''sudo'' (iptables_args r ''-D'') w = (x, w1) \<Longrightarrow>
      rules w1 = (if x = Ok () then remove1 r (rules w) else rules w)"
proof -
  from assms have C: "\<exists>w'. status_of c ''sudo'' (iptables_args r ''-C'') w = (Some (r \<in> set (rules w)), w') \<and> rules w' = rules w" for r w
    unfolding iptables_ok_def by blast
  from assms have A: "status_of c ''sudo'' (iptables_args r ''-A'') w = (x, w') \<Longrightarrow>
      rules w' = (if x = Some True then rules w @ [r] else rules w)" for r w x w'
    unfolding iptables_ok_def by blast
  from assms have D: "status_of c ''sudo'' (iptables_args r ''-D'') w = (x, w') \<Longrightarrow>
      rules w' = (if x = Some True then remove1 r (rules w) else rules w)" for r w x w'
    unfolding iptables_ok_def by blast
  show "iptables_exists c r w = (e, w1) \<Longrightarrow> e = (r \<in> set (rules w)) \<and> rules w1 = rules w"
    using C [of r w] by (auto simp: iptables_exists_def probe_def)
  show "run_cmd c ''sudo'' (iptables_args r ''-A'') w = (x, w1) \<Longrightarrow>
      rules w1 = (if x = Ok () then rules w @ [r] else rules w)"
    by (auto simp: run_cmd_def split: prod.splits option.splits if_splits dest!: A)
  show "run_cmd c ''sudo'' (iptables_args r ''-D'') w = (x, w1) \<Longrightarrow>
      rules w1 = (if x = Ok () then remove1 r (rules w) else rules w)"
    by (auto simp: run_cmd_def split: prod.splits option.splits if_splits dest!: D)
qed

text \<open>One rule of the loop.\<close>

lemma nat_loop_rule:
  assumes "iptables_ok c rules" and "distinct (rules w)" and "nat_loop c on (r # rs) w = (ok, w')"
  shows "\<exists>w1. distinct (rules w1) \<and> (\<forall>q. q \<noteq> r \<longrightarrow> q \<in> set (rules w1) \<longleftrightarrow> q \<in> set (rules w)) \<and>
    (ok = False \<and> w1 = w' \<or> (r \<in> set (rules w1)) = on \<and> nat_loop c on rs w1 = (ok, w'))"
proof -
  obtain e w1 where e: "iptables_exists c r w = (e, w1)" by (cases "iptables_exists c r w")
  note ex = iptables_okD(1) [OF assms(1) e]
  obtain x w2 where run: "run_cmd c ''sudo'' (iptables_args r (if on \<and> \<not> e then ''-A'' else ''-D'')) w1 = (x, w2)"
    by (cases "run_cmd c ''sudo'' (iptables_args r (if on \<and> \<not> e then ''-A'' else ''-D'')) w1")
  have rules: "rules w2 = (if x = Ok () then if on then rules w @ [r] else remove1 r (rules w) else rules w)"
    if "e \<noteq> on"
    using iptables_okD(2, 3) [OF assms(1)] run ex that by (cases on) auto
  show ?thesis
  proof (cases "e = on")
    case True
    then show ?thesis using assms(2, 3) e ex by (intro exI [of _ w1]) auto
  next
    case False
    then have "(case x of Err \<Rightarrow> (False, w2) | Ok _ \<Rightarrow> nat_loop c on rs w2) = (ok, w')"
      using assms(3) e run by (cases on; cases e; cases x) simp_all
    then show ?thesis
      using rules [OF False] False ex assms(2)
      by (intro exI [of _ w2]) (auto split: result.splits if_splits)
  qed
qed

lemma nat_loop_sets:
  assumes "iptables_ok c rules" and "distinct (rules w)" and "nat_loop c on rs w = (ok, w')" and "distinct rs"
  shows "distinct (rules w') \<and> (\<forall>q. q \<notin> set rs \<longrightarrow> q \<in> set (rules w') \<longleftrightarrow> q \<in> set (rules w)) \<and>
    (ok \<longrightarrow> (\<forall>r \<in> set rs. r \<in> set (rules w') \<longleftrightarrow> on))"
  using assms(2-4)
proof (induction rs arbitrary: w)
  case (Cons r rs)
  from nat_loop_rule [OF assms(1) Cons.prems(1, 2)] obtain w1 where
    w1: "distinct (rules w1)" "\<forall>q. q \<noteq> r \<longrightarrow> q \<in> set (rules w1) \<longleftrightarrow> q \<in> set (rules w)"
    and cont: "ok = False \<and> w1 = w' \<or> (r \<in> set (rules w1)) = on \<and> nat_loop c on rs w1 = (ok, w')"
    by blast
  from cont show ?case
  proof
    assume "ok = False \<and> w1 = w'"
    with w1 show ?thesis by auto
  next
    assume "(r \<in> set (rules w1)) = on \<and> nat_loop c on rs w1 = (ok, w')"
    with Cons.IH [OF w1(1)] Cons.prems(3) w1(2) show ?thesis by auto
  qed
qed simp

lemma nat_loop_stable:
  assumes "iptables_ok c rules" and "\<forall>r \<in> set rs. r \<in> set (rules w) \<longleftrightarrow> on"
  shows "fst (nat_loop c on rs w) \<and> rules (snd (nat_loop c on rs w)) = rules w"
  using assms(2)
proof (induction rs arbitrary: w)
  case (Cons r rs)
  obtain e w1 where e: "iptables_exists c r w = (e, w1)" by (cases "iptables_exists c r w")
  with iptables_okD(1) [OF assms(1) e] Cons.IH [of w1] Cons.prems show ?case by auto
qed simp

lemma default_network: "cidr_network DEFAULT_TAPADDR = Some ''192.0.2.0/24''"
proof -
  have "dec_string 24 = ''24''" "ip_to_str (IpAddr 192 0 2 1) = ''192.0.2.1''" "ip_to_str (IpAddr 192 0 2 0) = ''192.0.2.0''"
    by (simp_all add: dec_string.simps digit_char_def char_of_def bit_0)
  moreover have "ip_and (IpAddr 192 0 2 1) (prefix_mask 24) = IpAddr 192 0 2 0"
    by (simp add: prefix_mask_def prefix_octet_def mask_eq_exp_minus_1)
  ultimately show ?thesis
    using cidr_network_eq [of 24 "IpAddr 192 0 2 1"] by (simp add: DEFAULT_TAPADDR_def del: ip_to_str.simps ip_and.simps)
qed

lemma nat_rules_distinct: "distinct (nat_rules tap out net)"
  by (simp add: nat_rules_def)

end
