(* ===== verification/Dump.thy ===== *)
theory Dump
  imports Text
begin

text \<open>
  The hexadecimal dump of \<^verbatim>\<open>util.rs\<close> (\<open>HexDump\<close>) that the stack prints for frames and packets: a
  rule, one line for every 16 bytes with the offset, the bytes in hexadecimal and as characters,
  and a rule. The dump determines the data.
\<close>

section \<open>Formatting\<close>

fun chunks :: "nat \<Rightarrow> 'a list \<Rightarrow> 'a list list" where
  "chunks n xs = (if xs = [] \<or> n = 0 then [] else take n xs # chunks n (drop n xs))"

declare chunks.simps [simp del]

fun hex_string :: "nat \<Rightarrow> string" where
  "hex_string n = (if n < 16 then [digit_char n] else hex_string (n div 16) @ [digit_char (n mod 16)])"

declare hex_string.simps [simp del]

definition hex4 :: "nat \<Rightarrow> string" where
  "hex4 n = replicate (4 - length (hex_string n)) (CHR ''0'') @ hex_string n"

definition is_ascii_graphic :: "u8 \<Rightarrow> bool" where
  "is_ascii_graphic b \<longleftrightarrow> 0x21 \<le> b \<and> b \<le> 0x7e"

definition newline :: string where "newline = [CHR 0x0A]"

definition DUMP_RULE :: string where
  "DUMP_RULE = ''+------+-------------------------------------------------+------------------+''"

definition dump_hex :: "bytes \<Rightarrow> string" where
  "dump_hex chunk = concat (map (\<lambda>i. if i < length chunk then hex2 (chunk ! i) @ '' '' else ''   '') [0..<16])"

definition dump_char :: "u8 \<Rightarrow> char" where
  "dump_char b = (if is_ascii_graphic b \<or> b = 32 then char_of (unat b) else CHR ''.'')"

definition dump_ascii :: "bytes \<Rightarrow> string" where
  "dump_ascii chunk = map (\<lambda>i. if i < length chunk then dump_char (chunk ! i) else CHR '' '') [0..<16]"

definition dump_line :: "nat \<Rightarrow> bytes \<Rightarrow> string" where
  "dump_line offset chunk =
     ''| '' @ hex4 offset @ '' | '' @ dump_hex chunk @ ''| '' @ dump_ascii chunk @ '' |'' @ newline"

definition hex_dump :: "bytes \<Rightarrow> string" where
  "hex_dump data = DUMP_RULE @ newline @
     concat (map (\<lambda>(offset, chunk). dump_line (offset * 16) chunk) (enumerate 0 (chunks 16 data))) @ DUMP_RULE"

section \<open>Chunks\<close>

lemma chunks_Nil [simp]: "chunks n [] = []"
  by (simp add: chunks.simps)

lemma concat_chunks: "0 < n \<Longrightarrow> concat (chunks n xs) = xs"
  by (induction n xs rule: chunks.induct) (subst chunks.simps, simp)

lemma chunks_length: "c \<in> set (chunks n xs) \<Longrightarrow> length c \<le> n"
  by (induction n xs rule: chunks.induct) (subst (asm) (2) chunks.simps, auto split: if_splits)

lemma length_chunks: "0 < n \<Longrightarrow> length (chunks n xs) = (length xs + n - 1) div n"
proof (induction n xs rule: chunks.induct)
  case (1 n xs)
  show ?case
  proof (cases "xs = []")
    case True
    with 1(2) show ?thesis by simp
  next
    case False
    have "length (chunks n xs) = Suc (length (chunks n (drop n xs)))"
      using False 1(2) by (subst chunks.simps) simp
    also have "\<dots> = Suc ((length xs - n + n - 1) div n)" using 1 False by simp
    also have "\<dots> = (length xs + n - 1) div n"
    proof (cases "n \<le> length xs")
      case True
      define m where "m = length xs - n + n - 1"
      have "length xs + n - 1 = m + n" using True False by (cases xs) (auto simp: m_def)
      then show ?thesis using 1(2) unfolding m_def [symmetric] by (simp add: div_add_self2)
    next
      case le: False
      then have e: "length xs + n - 1 = (length xs - 1) + n" using False by (cases xs) auto
      have "(length xs - n + n - 1) div n = 0" "(length xs - 1) div n = 0" using le 1(2) by simp_all
      then show ?thesis using 1(2) by (subst e) (simp add: div_add_self2)
    qed
    finally show ?thesis .
  qed
qed

section \<open>The dump determines the data\<close>

lemma digit_not_space: "d < 16 \<Longrightarrow> digit_char d \<noteq> CHR '' ''"
  using separator_neq_digit [of "CHR '' ''" d] by (auto simp: separator_def)

lemma hex2_parts: "unat b div 16 < 16" "unat b mod 16 < 16" for b :: u8
  using unat_u8_less [of b] by linarith+

lemma hex2_eq: "hex2 a = hex2 b \<longleftrightarrow> a = b"
  using from_str_hex2 [of a] from_str_hex2 [of b] by (metis option.inject word_unat_eq_iff)

definition dump_cell :: "bytes \<Rightarrow> nat \<Rightarrow> string" where
  "dump_cell c i = (if i < length c then hex2 (c ! i) @ '' '' else ''   '')"

lemma dump_cell_length: "length (dump_cell c i) = 3"
  by (simp add: dump_cell_def hex2_def)

lemma concat_cells_eq:
  "(\<forall>i \<in> set is. length (f i) = (3 :: nat) \<and> length (g i) = 3) \<Longrightarrow>
     concat (map f is) = concat (map g is) \<longleftrightarrow> (\<forall>i \<in> set is. f i = g i)"
  by (induction "is") auto

lemma dump_cell_eq: "dump_cell c i = dump_cell c' i \<Longrightarrow> i < length c \<longleftrightarrow> i < length c'"
  using digit_not_space [OF hex2_parts(1)] by (auto simp: dump_cell_def hex2_def split: if_splits)

lemma dump_hex_inject:
  assumes "dump_hex c = dump_hex c'" and "length c \<le> 16" and "length c' \<le> 16"
  shows "c = c'"
proof -
  have cells: "\<forall>i \<in> set [0..<16]. dump_cell c i = dump_cell c' i"
    using assms(1) concat_cells_eq [of "[0..<16]" "dump_cell c" "dump_cell c'"]
    unfolding dump_hex_def dump_cell_def [symmetric, abs_def] by (simp only: dump_cell_length) simp
  have iff: "i < length c \<longleftrightarrow> i < length c'" if "i < 16" for i
    by (rule dump_cell_eq [OF cells [rule_format]]) (simp add: that)
  have len: "length c = length c'"
  proof (rule ccontr)
    assume "length c \<noteq> length c'"
    then consider "length c < length c'" | "length c' < length c" by linarith
    then show False using iff [of "length c"] iff [of "length c'"] assms(2, 3) by cases auto
  qed
  show ?thesis
  proof (rule nth_equalityI [OF len])
    fix i assume "i < length c"
    then show "c ! i = c' ! i"
      using cells [rule_format, of i] assms(2) len by (simp add: dump_cell_def hex2_eq)
  qed
qed

lemma dump_hex_length [simp]: "length (dump_hex c) = 48"
  by (simp add: dump_hex_def hex2_def length_concat upt_rec)

lemma dump_line_length: "length (dump_line k c) = length (hex4 k) + 74"
  by (simp add: dump_line_def dump_ascii_def newline_def)

lemma dump_line_inject:
  "dump_line k c = dump_line k c' \<Longrightarrow> length c \<le> 16 \<Longrightarrow> length c' \<le> 16 \<Longrightarrow> c = c'"
  by (rule dump_hex_inject) (simp_all add: dump_line_def)

lemma dump_lines_inject:
  assumes "concat (map (\<lambda>(k, c). dump_line (k * 16) c) (enumerate n cs)) =
      concat (map (\<lambda>(k, c). dump_line (k * 16) c) (enumerate n cs'))"
    and "\<forall>c \<in> set cs. length c \<le> 16" and "\<forall>c \<in> set cs'. length c \<le> 16"
  shows "cs = cs'"
  using assms
proof (induction cs cs' arbitrary: n rule: list_induct2')
  case (2 c cs)
  then show ?case by (simp add: dump_line_def)
next
  case (3 c cs)
  then show ?case by (simp add: dump_line_def)
next
  case (4 c cs c' cs')
  then show ?case by (auto simp: dump_line_length dest: dump_line_inject)
qed simp

lemma hex_dump_inject:
  assumes "hex_dump a = hex_dump b"
  shows "a = b"
proof -
  have "chunks 16 a = chunks 16 b"
    by (rule dump_lines_inject [of 0]) (use assms chunks_length in \<open>auto simp: hex_dump_def\<close>)
  then have "concat (chunks 16 a) = concat (chunks 16 b)" by simp
  then show ?thesis by (simp add: concat_chunks)
qed

section \<open>Layout\<close>

lemma hex_string_length: "n < 16 ^ Suc k \<Longrightarrow> length (hex_string n) \<le> Suc k"
proof (induction k arbitrary: n)
  case 0
  then show ?case by (simp add: hex_string.simps)
next
  case (Suc k)
  then have "n div 16 < 16 ^ Suc k" by (intro less_mult_imp_div_less) (simp add: mult.commute)
  with Suc.IH [of "n div 16"] show ?case by (subst hex_string.simps) simp
qed

lemma hex4_length: "n < 65536 \<Longrightarrow> length (hex4 n) = 4"
  using hex_string_length [of n 3] by (simp add: hex4_def)

lemma dump_lines_length:
  assumes "\<forall>k < length cs. (n + k) * 16 < 65536"
  shows "length (concat (map (\<lambda>(k, c). dump_line (k * 16) c) (enumerate n cs))) = 78 * length cs"
  using assms
proof (induction cs arbitrary: n)
  case (Cons c cs)
  have "n * 16 < 65536" using Cons.prems [rule_format, of 0] by simp
  moreover have "\<forall>k < length cs. (Suc n + k) * 16 < 65536" using Cons.prems [rule_format, of "Suc _"] by simp
  ultimately show ?case using Cons.IH [of "Suc n"] by (simp add: dump_line_length hex4_length)
qed simp

lemma hex_dump_length:
  assumes "length a \<le> 65536"
  shows "length (hex_dump a) = 78 * ((length a + 15) div 16) + 155"
proof -
  have n: "length (chunks 16 a) = (length a + 15) div 16" using length_chunks [of 16 a] by simp
  have "\<forall>k < length (chunks 16 a). (0 + k) * 16 < 65536" using assms unfolding n by auto
  from dump_lines_length [OF this] n show ?thesis
    by (simp add: hex_dump_def DUMP_RULE_def newline_def)
qed

end
