(* ===== verification/Print.thy ===== *)
theory Print
  imports Dump Udp Tcp_Segment
begin

text \<open>
  What the \<open>print\<close> functions of the protocols (\<^verbatim>\<open>ether.rs\<close>, \<^verbatim>\<open>arp.rs\<close>, \<^verbatim>\<open>ip.rs\<close>, \<^verbatim>\<open>icmp.rs\<close>, \<^verbatim>\<open>udp.rs\<close>,
  \<^verbatim>\<open>tcp.rs\<close>) write for a packet, one string per \<open>printf!\<close>: the fields of the header if the data is
  long enough to have one, and then the hexadecimal dump. The output goes to the error stream and
  is not part of the state of the stack.
\<close>

section \<open>Format specifications\<close>

definition fmt_dec :: "'a :: len word \<Rightarrow> string" where
  "fmt_dec w = dec_string (unat w)"

definition fmt_x2 :: "u8 \<Rightarrow> string" where
  "fmt_x2 b = ''0x'' @ hex2 b"

definition fmt_x4 :: "u16 \<Rightarrow> string" where
  "fmt_x4 w = ''0x'' @ hex4 (unat w)"

section \<open>Ethernet\<close>

definition ETHER_TYPE_IPV6 :: u16 where "ETHER_TYPE_IPV6 = 0x86dd"

definition ether_type_name :: "u16 \<Rightarrow> string" where
  "ether_type_name ty =
     (if ty = ETHER_TYPE_IP then ''IP'' else if ty = ETHER_TYPE_ARP then ''ARP''
      else if ty = ETHER_TYPE_IPV6 then ''IPv6'' else ''Unknown'')"

definition ether_print :: "bytes \<Rightarrow> string list" where
  "ether_print frame =
     (case ether_hdr_new frame of
        None \<Rightarrow> []
      | Some hdr \<Rightarrow>
          [''        src: '' @ ether_to_str (ether_hdr_src hdr),
           ''        dst: '' @ ether_to_str (ether_hdr_dst hdr),
           ''       type: '' @ fmt_x4 (ether_hdr_ethertype hdr) @ '' ('' @
             ether_type_name (ether_hdr_ethertype hdr) @ '')'']) @
     [hex_dump frame]"

section \<open>ARP\<close>

definition op_name :: "u16 \<Rightarrow> string" where
  "op_name op =
     (if op = ARP_OP_REQUEST then ''Request'' else if op = ARP_OP_REPLY then ''Reply'' else ''Unknown'')"

definition arp_print :: "bytes \<Rightarrow> string list" where
  "arp_print data =
     (case arp_ether_ip_new data of
        None \<Rightarrow> []
      | Some arp \<Rightarrow>
          [''        hrd: '' @ fmt_x4 (arp_hrd arp), ''        pro: '' @ fmt_x4 (arp_pro arp),
           ''        hln: '' @ fmt_dec (arp_hln arp), ''        pln: '' @ fmt_dec (arp_pln arp),
           ''         op: '' @ fmt_dec (arp_op arp) @ '' ('' @ op_name (arp_op arp) @ '')'',
           ''        sha: '' @ ether_to_str (arp_sha arp), ''        spa: '' @ ip_to_str (arp_spa arp),
           ''        tha: '' @ ether_to_str (arp_tha arp), ''        tpa: '' @ ip_to_str (arp_tpa arp)]) @
     [hex_dump data]"

section \<open>IP\<close>

definition ip_vhl :: "bytes \<Rightarrow> u8" where "ip_vhl h = h ! 0"
definition ip_tos :: "bytes \<Rightarrow> u8" where "ip_tos h = h ! 1"
definition ip_sum :: "bytes \<Rightarrow> u16" where "ip_sum h = u16_from_be (h ! 10) (h ! 11)"

definition ip_print :: "bytes \<Rightarrow> string list" where
  "ip_print data =
     (case ip_hdr_new data of
        None \<Rightarrow> []
      | Some hdr \<Rightarrow>
          [''        vhl: '' @ fmt_x2 (ip_vhl hdr) @ '' [v: '' @ fmt_dec (ip_version hdr) @ '', hl: '' @
             fmt_dec (ip_ihl hdr) @ '' ('' @ dec_string (ip_hlen hdr) @ '' bytes)]'',
           ''        tos: '' @ fmt_x2 (ip_tos hdr),
           ''      total: '' @ fmt_dec (ip_total hdr),
           ''         id: '' @ fmt_dec (ip_id hdr),
           ''     offset: '' @ fmt_x4 (ip_offset hdr) @ '' [flags=0x'' @
             hex_string (unat (drop_bit 13 (ip_offset hdr))) @ '', offset='' @
             fmt_dec (ip_offset hdr AND 0x1fff) @ '']'',
           ''        ttl: '' @ fmt_dec (ip_ttl hdr),
           ''   protocol: '' @ fmt_dec (ip_protocol hdr),
           ''        sum: '' @ fmt_x4 (ip_sum hdr),
           ''        src: '' @ ip_to_str (ip_src hdr),
           ''        dst: '' @ ip_to_str (ip_dst hdr)]) @
     [hex_dump data]"

section \<open>ICMP\<close>

definition ICMP_TYPE_SOURCE_QUENCH :: u8 where "ICMP_TYPE_SOURCE_QUENCH = 4"
definition ICMP_TYPE_REDIRECT :: u8 where "ICMP_TYPE_REDIRECT = 5"
definition ICMP_TYPE_TIME_EXCEEDED :: u8 where "ICMP_TYPE_TIME_EXCEEDED = 11"
definition ICMP_TYPE_PARAM_PROBLEM :: u8 where "ICMP_TYPE_PARAM_PROBLEM = 12"
definition ICMP_TYPE_TIMESTAMP :: u8 where "ICMP_TYPE_TIMESTAMP = 13"
definition ICMP_TYPE_TIMESTAMP_REPLY :: u8 where "ICMP_TYPE_TIMESTAMP_REPLY = 14"
definition ICMP_TYPE_INFO_REQUEST :: u8 where "ICMP_TYPE_INFO_REQUEST = 15"
definition ICMP_TYPE_INFO_REPLY :: u8 where "ICMP_TYPE_INFO_REPLY = 16"

definition icmp_type_name :: "u8 \<Rightarrow> string" where
  "icmp_type_name ty =
     (if ty = ICMP_TYPE_ECHO_REPLY then ''EchoReply''
      else if ty = ICMP_TYPE_DEST_UNREACH then ''DestinationUnreachable''
      else if ty = ICMP_TYPE_SOURCE_QUENCH then ''SourceQuench'' else if ty = ICMP_TYPE_REDIRECT then ''Redirect''
      else if ty = ICMP_TYPE_ECHO then ''Echo'' else if ty = ICMP_TYPE_TIME_EXCEEDED then ''TimeExceeded''
      else if ty = ICMP_TYPE_PARAM_PROBLEM then ''ParameterProblem'' else if ty = ICMP_TYPE_TIMESTAMP then ''Timestamp''
      else if ty = ICMP_TYPE_TIMESTAMP_REPLY then ''TimestampReply'' else if ty = ICMP_TYPE_INFO_REQUEST then ''InformationRequest''
      else if ty = ICMP_TYPE_INFO_REPLY then ''InformationReply'' else ''Unknown'')"

definition icmp_print :: "bytes \<Rightarrow> string list" where
  "icmp_print data =
     (case icmp_new data of
        None \<Rightarrow> []
      | Some com \<Rightarrow>
          [''       type: '' @ fmt_dec (icmp_ty com) @ '' ('' @ icmp_type_name (icmp_ty com) @ '')'',
           ''       code: '' @ fmt_dec (icmp_code com),
           ''        sum: '' @ fmt_x4 (icmp_sum com)] @
          (if icmp_ty com = ICMP_TYPE_ECHO \<or> icmp_ty com = ICMP_TYPE_ECHO_REPLY
           then [''         id: '' @ fmt_dec (icmp_echo_id com), ''        seq: '' @ fmt_dec (icmp_echo_seq com)]
           else [])) @
     [hex_dump data]"

section \<open>UDP\<close>

definition udp_hdr_new :: "bytes \<Rightarrow> bytes option" where
  "udp_hdr_new data = (if length data < UDP_HDR_SIZE then None else Some data)"

definition udp_print :: "bytes \<Rightarrow> string list" where
  "udp_print data =
     (case udp_hdr_new data of
        None \<Rightarrow> []
      | Some hdr \<Rightarrow>
          [''        src: '' @ fmt_dec (udp_src hdr), ''        dst: '' @ fmt_dec (udp_dst hdr),
           ''        len: '' @ fmt_dec (udp_len hdr), ''        sum: '' @ fmt_x4 (udp_sum hdr)]) @
     [hex_dump data]"

section \<open>TCP\<close>

definition option_name :: "u8 \<Rightarrow> string" where
  "option_name kind =
     (if kind = 0 then ''End of Option List (EOL)'' else if kind = 1 then ''No-Operation (NOP)''
      else if kind = 2 then ''Maximum Segment Size (MSS)'' else if kind = 3 then ''Window Scale''
      else if kind = 4 then ''SACK Permitted'' else if kind = 5 then ''SACK''
      else if kind = 8 then ''Timestamps'' else ''Unknown'')"

text \<open>The lines of the loop over the options, from what \<open>option_loop\<close> finds.\<close>

definition option_line :: "nat \<Rightarrow> u8 \<times> nat option \<Rightarrow> string" where
  "option_line i opt =
     ''     opt['' @ dec_string i @ '']: kind='' @ fmt_dec (fst opt) @ '' ('' @ option_name (fst opt) @ '')'' @
     (case snd opt of None \<Rightarrow> [] | Some olen \<Rightarrow> '', len='' @ dec_string olen)"

text \<open>\<open>Err\<close> when \<open>print\<close> panics.\<close>

definition tcp_text :: "bytes \<Rightarrow> string list result" where
  "tcp_text data =
     (case tcp_hdr_new data of
        None \<Rightarrow> Ok []
      | Some hdr \<Rightarrow>
          (case tcp_print data of
             Err \<Rightarrow> Err
           | Ok opts \<Rightarrow>
               Ok ([''        src: '' @ fmt_dec (tcp_src hdr), ''        dst: '' @ fmt_dec (tcp_dst hdr),
                    ''        seq: '' @ fmt_dec (tcp_seq hdr), ''        ack: '' @ fmt_dec (tcp_ack hdr),
                    ''        off: '' @ fmt_x2 (tcp_off hdr) @ '' ('' @ dec_string (tcp_hlen hdr) @ '') (options: '' @
                      dec_string (tcp_hlen hdr - TCP_HDR_SIZE) @ '', payload: '' @
                      dec_string (length data - tcp_hlen hdr) @ '')'',
                    ''        flg: '' @ fmt_x2 (tcp_flg hdr) @ '' ('' @ flag_str (tcp_flg hdr) @ '')'',
                    ''        wnd: '' @ fmt_dec (tcp_wnd hdr), ''        sum: '' @ fmt_x4 (tcp_sum hdr),
                    ''         up: '' @ fmt_dec (tcp_up hdr)] @
                   map (\<lambda>(i, opt). option_line i opt) (enumerate 0 opts) @ [hex_dump data])))"

section \<open>The dumps show the packets\<close>

text \<open>A dump ends with all bytes, so it determines the packet.\<close>

lemma prints_end:
  "last (ether_print d) = hex_dump d" "last (arp_print d) = hex_dump d" "last (ip_print d) = hex_dump d"
  "last (icmp_print d) = hex_dump d" "last (udp_print d) = hex_dump d"
  by (simp_all add: ether_print_def arp_print_def ip_print_def icmp_print_def udp_print_def)

lemma tcp_text_cases:
  "is_err (tcp_text d) \<longleftrightarrow> is_err (tcp_print d)"
  "20 \<le> length d \<Longrightarrow> tcp_text d = Ok ls \<Longrightarrow> last ls = hex_dump d"
  by (auto simp: tcp_text_def tcp_hdr_new_def tcp_print_def TCP_HDR_SIZE_def split: result.splits option.splits)

text \<open>The lines of the options: at most one for every byte between the header and the text.\<close>

lemma option_loop_length: "option_loop data hlen pos = Ok opts \<Longrightarrow> length opts \<le> hlen - pos"
proof (induction "hlen - pos" arbitrary: pos opts rule: less_induct)
  case less
  have step: "Suc (length os) \<le> hlen - pos" if "pos < hlen" "0 < n" "option_loop data hlen (pos + n) = Ok os" for n os
  proof -
    have "length os \<le> hlen - (pos + n)" using less.hyps [OF _ that(3)] that(1, 2) by (simp add: diff_less_mono2)
    with that(1, 2) show ?thesis by linarith
  qed
  show ?case
    using less.prems step [of 1] step [of "unat (data ! (pos + 1))"]
    by (subst (asm) option_loop.simps) (auto simp: Let_def split: if_splits result.splits)
qed

end
