(* ===== verification/Log.thy ===== *)
theory Log
  imports Text
begin

text \<open>
  The log lines: \<open>log_output\<close> of \<^verbatim>\<open>platform/linux/mod.rs\<close> and the macros of \<^verbatim>\<open>log.rs\<close> that call it. A
  line has the time of day, the level, module and function of the call, the message, and the
  file and line. The arguments that the compiler supplies (\<open>file!()\<close>, \<open>line!()\<close>, the name of the
  marker type) are arguments here.
\<close>

section \<open>Splitting from the end\<close>

text \<open>\<open>str::rsplit(pat).next()\<close>: what follows the last occurrence of the pattern.\<close>

fun occurs :: "string \<Rightarrow> string \<Rightarrow> bool" where
  "occurs pat [] = (pat = [])"
| "occurs pat (c # cs) = (take (length pat) (c # cs) = pat \<or> occurs pat cs)"

fun rsplit_next :: "string \<Rightarrow> string \<Rightarrow> string" where
  "rsplit_next pat [] = []"
| "rsplit_next pat (c # cs) =
     (if occurs pat cs then rsplit_next pat cs
      else if take (length pat) (c # cs) = pat then drop (length pat) (c # cs)
      else c # cs)"

definition strip_suffix :: "string \<Rightarrow> string \<Rightarrow> string option" where
  "strip_suffix suf s =
     (if length suf \<le> length s \<and> drop (length s - length suf) s = suf
      then Some (take (length s - length suf) s) else None)"

section \<open>The line\<close>

definition pad_left :: "nat \<Rightarrow> nat \<Rightarrow> string" where
  "pad_left k n = replicate (k - length (dec_string n)) (CHR ''0'') @ dec_string n"

text \<open>The time since the epoch as seconds and nanoseconds; \<open>None\<close> for a clock set before it.\<close>

definition log_timestamp :: "(nat \<times> nat) option \<Rightarrow> string" where
  "log_timestamp t =
     (case t of
        None \<Rightarrow> ''??:??:??.???''
      | Some (total_secs, nanos) \<Rightarrow>
          let millis = nanos div 1000000;
              secs_of_day = total_secs mod 86400;
              hours = secs_of_day div 3600;
              minutes = (secs_of_day mod 3600) div 60;
              seconds = secs_of_day mod 60
          in pad_left 2 hours @ '':'' @ pad_left 2 minutes @ '':'' @ pad_left 2 seconds @ ''.'' @ pad_left 3 millis)"

definition log_output :: "(nat \<times> nat) option \<Rightarrow> char \<Rightarrow> string \<Rightarrow> nat \<Rightarrow> string \<Rightarrow> string \<Rightarrow> string" where
  "log_output t level file line function args =
     (let timestamp = log_timestamp t;
          filename = rsplit_next ''/'' file;
          module = (case strip_suffix ''.rs'' filename of None \<Rightarrow> filename | Some m \<Rightarrow> m);
          fn_name = rsplit_next ''::'' function
      in timestamp @ '' ['' @ [level] @ ''] '' @ module @ ''::'' @ fn_name @ '': '' @ args @ '' ('' @ filename @ '':'' @
         dec_string line @ '')'')"

text \<open>\<open>__function_path!\<close>: the name of the marker type without its last 17 characters (\<open>Err\<close>: the slice panics).\<close>

definition function_path :: "string \<Rightarrow> string result" where
  "function_path name = (if length name < 17 then Err else Ok (take (length name - 17) name))"

text \<open>The four macros differ in the level.\<close>

definition log_macro :: "char \<Rightarrow> (nat \<times> nat) option \<Rightarrow> string \<Rightarrow> nat \<Rightarrow> string \<Rightarrow> string \<Rightarrow> string result" where
  "log_macro level t file line name args =
     (case function_path name of
        Err \<Rightarrow> Err
      | Ok function \<Rightarrow> Ok (log_output t level file line function args))"

definition errorf :: "(nat \<times> nat) option \<Rightarrow> string \<Rightarrow> nat \<Rightarrow> string \<Rightarrow> string \<Rightarrow> string result" where
  "errorf = log_macro (CHR ''E'')"
definition warnf :: "(nat \<times> nat) option \<Rightarrow> string \<Rightarrow> nat \<Rightarrow> string \<Rightarrow> string \<Rightarrow> string result" where
  "warnf = log_macro (CHR ''W'')"
definition infof :: "(nat \<times> nat) option \<Rightarrow> string \<Rightarrow> nat \<Rightarrow> string \<Rightarrow> string \<Rightarrow> string result" where
  "infof = log_macro (CHR ''I'')"
definition debugf :: "(nat \<times> nat) option \<Rightarrow> string \<Rightarrow> nat \<Rightarrow> string \<Rightarrow> string \<Rightarrow> string result" where
  "debugf = log_macro (CHR ''D'')"

section \<open>Last components\<close>

lemma occurs_head: "pat \<noteq> [] \<Longrightarrow> hd pat \<notin> set s \<Longrightarrow> \<not> occurs pat s"
  by (induction s) (cases pat, auto)+

lemma rsplit_next_none: "\<not> occurs pat s \<Longrightarrow> rsplit_next pat s = s"
  by (cases s) simp_all

lemma occurs_append: "occurs pat (p @ pat @ s)"
proof (induction p)
  case Nil
  then show ?case by (cases pat; cases s) auto
qed simp

lemma rsplit_next_append:
  assumes "pat \<noteq> []" and "\<not> occurs pat (tl pat @ s)"
  shows "rsplit_next pat (p @ pat @ s) = s"
proof (induction p)
  case Nil
  then show ?case using assms by (cases pat) auto
next
  case (Cons c p)
  then show ?case using occurs_append by simp
qed

lemma rsplit_path: "CHR ''/'' \<notin> set s \<Longrightarrow> rsplit_next ''/'' (p @ ''/'' @ s) = s"
  by (rule rsplit_next_append) (auto simp: occurs_head)

lemma rsplit_function:
  assumes "CHR '':'' \<notin> set s"
  shows "rsplit_next ''::'' (p @ ''::'' @ s) = s"
proof (rule rsplit_next_append)
  have "\<not> occurs ''::'' s" using assms by (intro occurs_head) simp_all
  moreover have "take (Suc 0) s \<noteq> '':''" using assms by (cases s) auto
  ultimately show "\<not> occurs ''::'' (tl ''::'' @ s)" by simp
qed simp

lemma strip_suffix_append: "strip_suffix suf (s @ suf) = Some s"
  by (simp add: strip_suffix_def)

text \<open>The suffix of the marker has 17 characters.\<close>

lemma function_path_marker: "function_path (p @ ''::__log_fn_marker'') = Ok p"
  by (simp add: function_path_def)

section \<open>The time of day\<close>

lemma dec_string_length: "n < 10 ^ Suc k \<Longrightarrow> length (dec_string n) \<le> Suc k"
proof (induction k arbitrary: n)
  case 0
  then show ?case by (simp add: dec_string.simps)
next
  case (Suc k)
  then have "n div 10 < 10 ^ Suc k" by (intro less_mult_imp_div_less) (simp add: mult.commute)
  with Suc.IH [of "n div 10"] show ?case by (subst dec_string.simps) simp
qed

lemma pad_left_length: "n < 10 ^ Suc k \<Longrightarrow> length (pad_left (Suc k) n) = Suc k"
  using dec_string_length [of n k] by (simp add: pad_left_def)

lemma parse_zeros: "parse_digits 10 m 0 (replicate j (CHR ''0'') @ s) = parse_digits 10 m 0 s"
  by (induction j) (simp_all add: to_digit_def)

lemma from_str_pad_left: "n \<le> m \<Longrightarrow> from_str_radix 10 m (pad_left k n) = Some n"
  using from_str_radix_no_plus [of "pad_left k n" 10 m] separator_not_in_dec [of "CHR ''+''" n]
    dec_string_nonempty [of n]
  by (auto simp: pad_left_def parse_zeros parse_dec_string)

definition read_clock :: "string \<Rightarrow> (nat \<times> nat) option" where
  "read_clock s =
     (case (from_str_radix 10 23 (take 2 s), from_str_radix 10 59 (take 2 (drop 3 s)),
            from_str_radix 10 59 (take 2 (drop 6 s)), from_str_radix 10 999 (drop 9 s)) of
        (Some h, Some m, Some sec, Some ms) \<Rightarrow> Some (h * 3600 + m * 60 + sec, ms)
      | _ \<Rightarrow> None)"

lemma log_timestamp_read:
  assumes "nanos < 1000000000"
  shows "read_clock (log_timestamp (Some (secs, nanos))) = Some (secs mod 86400, nanos div 1000000)"
proof -
  define d where "d = secs mod 86400"
  let ?h = "pad_left 2 (d div 3600)" and ?m = "pad_left 2 (d mod 3600 div 60)" and ?s = "pad_left 2 (d mod 60)"
    and ?ms = "pad_left 3 (nanos div 1000000)"
  have b: "d div 3600 \<le> 23" "d mod 3600 div 60 \<le> 59" "d mod 60 \<le> 59" "nanos div 1000000 \<le> 999"
    using assms by (auto simp: d_def)
  have len: "length ?h = 2" "length ?m = 2" "length ?s = 2"
    using b pad_left_length [of _ 1] by (simp_all add: numeral_2_eq_2)
  have split: "take 2 (a @ '':'' @ r) = a" "drop 3 (a @ '':'' @ r) = r" "drop 3 (a @ ''.'' @ r) = r"
    "take 2 (a @ ''.'' @ r) = a" if "length a = 2" for a r :: string
    using that by simp_all
  have ts: "log_timestamp (Some (secs, nanos)) = ?h @ '':'' @ ?m @ '':'' @ ?s @ ''.'' @ ?ms"
    by (simp add: log_timestamp_def d_def Let_def)
  have drops: "drop 6 x = drop 3 (drop 3 x)" "drop 9 x = drop 3 (drop 3 (drop 3 x))" for x :: string by simp_all
  have "d div 3600 * 3600 + d mod 3600 div 60 * 60 + d mod 60 = d"
  proof -
    have "d mod 3600 mod 60 = d mod 60" by (simp add: mod_mod_cancel)
    with div_mult_mod_eq [of d 3600] div_mult_mod_eq [of "d mod 3600" 60] show ?thesis by linarith
  qed
  then show ?thesis
    unfolding read_clock_def ts drops split [OF len(1)] split [OF len(2)] split [OF len(3)]
    using b by (simp add: from_str_pad_left d_def)
qed

end
