(* ===== verification/Tap_Test.thy ===== *)
theory Tap_Test
  imports Print
begin

text \<open>
  The program \<^verbatim>\<open>test/src/tap_test.rs\<close>: it attaches to a TAP device and prints every frame it reads. The
  output is a list of messages, each the call of a logging macro with its arguments (without the
  text of the operating system's error) or the lines of a dump; the results of \<open>read\<close> are those of
  \<open>Link\<close>. The request for the device is the structure that the driver of the stack builds too.
\<close>

section \<open>The request for a device\<close>

definition IFNAMSIZ :: nat where "IFNAMSIZ = 16"
definition IFF_TAP :: u16 where "IFF_TAP = 0x0002"
definition IFF_NO_PI :: u16 where "IFF_NO_PI = 0x1000"

record ifreq =
  ifr_name :: bytes
  ifr_flags :: u16

definition name_bytes :: "string \<Rightarrow> bytes" where
  "name_bytes name = map (\<lambda>c. of_nat (of_char c)) name"

text \<open>The driver cuts the name off, the test program has checked its length.\<close>

definition driver_ifreq :: "string \<Rightarrow> ifreq" where
  "driver_ifreq name =
     (let copy_len = min (length (name_bytes name)) (IFNAMSIZ - 1)
      in \<lparr>ifr_name = copy_at 0 (take copy_len (name_bytes name)) (replicate IFNAMSIZ 0),
          ifr_flags = IFF_TAP OR IFF_NO_PI\<rparr>)"

definition tap_test_ifreq :: "string \<Rightarrow> ifreq" where
  "tap_test_ifreq name =
     \<lparr>ifr_name = copy_at 0 (name_bytes name) (replicate 16 0), ifr_flags = IFF_TAP OR IFF_NO_PI\<rparr>"

section \<open>The program\<close>

datatype tap_msg = Usage string | OpenFailed | NameTooLong string | IoctlFailed | Waiting string
  | ReadFailed | Received nat | Frame "string list"

datatype exit_code = Success | Failure | Panic

text \<open>
  The loop over the frames; the flag says whether it has ended. A \<open>read\<close> that returns no bytes, or
  that a signal interrupts, is repeated.
\<close>

fun tap_test_loop :: "read_result list \<Rightarrow> bool \<times> tap_msg list" where
  "tap_test_loop [] = (False, [])"
| "tap_test_loop (ReadEintr # rs) = tap_test_loop rs"
| "tap_test_loop (ReadEof # rs) = tap_test_loop rs"
| "tap_test_loop (ReadAgain # rs) = (True, [ReadFailed])"
| "tap_test_loop (ReadError # rs) = (True, [ReadFailed])"
| "tap_test_loop (ReadFrame frame # rs) =
     (if frame = [] then tap_test_loop rs
      else let (ended, ms) = tap_test_loop rs
           in (ended, Received (length frame) # Frame (ether_print frame) # ms))"

text \<open>
  \<open>main\<close>: the exit code, \<open>None\<close> while it reads, with the messages. Returning drops \<open>fd\<close>, which closes
  the descriptor.
\<close>

definition tap_test_main ::
  "string list \<Rightarrow> read_result list \<Rightarrow> os \<Rightarrow> exit_code option \<times> tap_msg list \<times> os" where
  "tap_test_main args reads s =
     (case args of
        [] \<Rightarrow> (Some Panic, [], panic s)
      | [prog] \<Rightarrow> (Some Failure, [Usage prog], s)
      | _ # tap # _ \<Rightarrow>
          let (raw, s1) = syscall s
          in if raw < 0 then (Some Failure, [OpenFailed], s1)
             else let s2 = s1\<lparr>open_fds := raw # open_fds s1\<rparr>
                  in if length (name_bytes tap) \<ge> 16
                     then (Some Failure, [NameTooLong tap], fd_close raw s2)
                     else let (ret, s3) = syscall s2
                          in if ret < 0 then (Some Failure, [IoctlFailed], fd_close raw s3)
                             else case tap_test_loop reads of
                                    (False, ms) \<Rightarrow> (None, Waiting tap # ms, s3)
                                  | (True, ms) \<Rightarrow> (Some Success, Waiting tap # ms, fd_close raw s3))"

section \<open>Properties\<close>

lemma copy_at_0: "length xs \<le> length ys \<Longrightarrow> copy_at 0 xs ys = xs @ drop (length xs) ys"
  by (simp add: copy_at_def)

text \<open>The name in the request always ends with a zero byte, and for the names that the test program accepts the driver
  sends the same request.\<close>

lemma driver_ifreq_terminated: "length (ifr_name (driver_ifreq name)) = 16 \<and> ifr_name (driver_ifreq name) ! 15 = 0"
  by (auto simp: driver_ifreq_def IFNAMSIZ_def copy_at_0 nth_append Let_def)

lemma ifreq_same: "length name < 16 \<Longrightarrow> driver_ifreq name = tap_test_ifreq name"
  by (simp add: driver_ifreq_def tap_test_ifreq_def IFNAMSIZ_def name_bytes_def Let_def)

text \<open>The loop prints the frames that arrive before the first failure, in their order.\<close>

definition read_goes_on :: "read_result \<Rightarrow> bool" where
  "read_goes_on r \<longleftrightarrow> r \<noteq> ReadAgain \<and> r \<noteq> ReadError"

definition read_frames :: "read_result list \<Rightarrow> bytes list" where
  "read_frames rs = [f. ReadFrame f \<leftarrow> rs, f \<noteq> []]"

lemma tap_test_loop_prints:
  "tap_test_loop rs = (\<exists>r \<in> set rs. \<not> read_goes_on r,
     concat (map (\<lambda>f. [Received (length f), Frame (ether_print f)]) (read_frames (takeWhile read_goes_on rs))) @
     (if \<exists>r \<in> set rs. \<not> read_goes_on r then [ReadFailed] else []))"
  by (induction rs rule: tap_test_loop.induct) (auto simp: read_frames_def read_goes_on_def)

lemma tap_test_descriptors:
  assumes "tap_test_main args reads s = (Some code, ms, s')"
  shows "open_fds s' = open_fds s"
  using assms by (auto simp: tap_test_main_def syscall_def fd_close_def panic_def Let_def
      split: list.splits if_splits prod.splits bool.splits)

end
