(* ===== verification/No_Panic.thy ===== *)
theory No_Panic
  imports Stack_Props
begin

text \<open>
  Panics. The code indexes, slices, subtracts and unwraps in many places; the model records a panic
  in the flag \<open>panicked\<close>. On well-formed states no packet handler, timer or transmission sets it,
  except for the two kinds of packets that the input functions do not check.
\<close>

section \<open>Link, ARP and IP\<close>

definition calm :: "link \<Rightarrow> link \<Rightarrow> bool" where
  "calm l l' \<longleftrightarrow> (link_wf l \<longrightarrow> link_wf l' \<and> panicked (lk_os l') = panicked (lk_os l))"

lemma calm_refl [simp]: "calm l l"
  by (simp add: calm_def)

lemma calm_trans: "calm l l' \<Longrightarrow> calm l' l'' \<Longrightarrow> calm l l''"
  by (simp add: calm_def)

lemma calm_extends: "link_extends l l' \<Longrightarrow> panicked (lk_os l') = panicked (lk_os l) \<Longrightarrow> calm l l'"
  by (simp add: calm_def link_extends_wf)

lemma device_output_panicked [simp]:
  "panicked (lk_os (snd (device_output i ty data dst l))) = panicked (lk_os l)"
  by (simp add: device_output_def dev_transmit_def loopback_transmit_def net_input_handler_def tap_transmit_def
      syscall_def softirq_raise_def case_prod_beta Let_def split: option.splits dev_ops.splits)

lemma arp_now_panicked [simp]: "panicked (lk_os (arp_link (snd (arp_now s)))) = panicked (lk_os (arp_link s))"
  by (simp add: arp_now_def now_def)

lemma arp_panicked [simp]:
  "panicked (lk_os (arp_link (snd (cache_update pa ha s)))) = panicked (lk_os (arp_link s))"
  "panicked (lk_os (arp_link (cache_insert pa ha st s))) = panicked (lk_os (arp_link s))"
  "panicked (lk_os (arp_link (snd (arp_output i buf dst s)))) = panicked (lk_os (arp_link s))"
  "panicked (lk_os (arp_link (snd (arp_request iface pa s)))) = panicked (lk_os (arp_link s))"
  "panicked (lk_os (arp_link (snd (arp_reply dev tha tpa src s)))) = panicked (lk_os (arp_link s))"
  by (simp_all add: cache_update_def cache_insert_def arp_output_def arp_request_def arp_reply_def
      case_prod_beta Let_def split: option.splits)

lemma arp_resolve_panicked [simp]:
  "panicked (lk_os (arp_link (snd (arp_resolve iface pa s)))) = panicked (lk_os (arp_link s))"
proof -
  obtain r s1 where req: "arp_request iface pa (cache_insert pa ETHER_ADDR_ANY Incomplete s) = (r, s1)"
    by (cases "arp_request iface pa (cache_insert pa ETHER_ADDR_ANY Incomplete s)")
  then have "panicked (lk_os (arp_link s1)) = panicked (lk_os (arp_link s))"
    using arp_panicked(4) [of iface pa "cache_insert pa ETHER_ADDR_ANY Incomplete s"] by (simp add: req)
  then show ?thesis
    by (simp add: arp_resolve_def req split: option.splits prod.splits result.splits cache_state.splits)
qed

lemma arp_input_panicked [simp]:
  "panicked (lk_os (arp_link (arp_input data i s))) = panicked (lk_os (arp_link s))"
  by (simp add: arp_input_def case_prod_beta Let_def split: option.splits)

lemma arp_on_timer_panicked [simp]: "panicked (lk_os (arp_link (arp_on_timer s))) = panicked (lk_os (arp_link s))"
  by (simp add: arp_on_timer_def case_prod_beta Let_def)

lemma output_device_calm: "calm (ip_link s) (ip_link (snd (output_device iface buf target s)))"
  unfolding calm_def
proof (intro impI conjI)
  assume wf: "link_wf (ip_link s)"
  then show "link_wf (ip_link (snd (output_device iface buf target s)))"
    by (rule link_extends_wf [OF output_device_extends])
  have alen: "unat (dev_alen d) \<le> 6" if "by_index (ip_link s) i = Some d" for i d
    using wf that by (auto simp: link_wf_def by_index_def device_wf_def split: if_splits)
  have out: "panicked (lk_os (ip_link (snd (ip_device_output i buf hw t)))) = panicked (lk_os (ip_link t))" for i hw t
    by (simp add: ip_device_output_def case_prod_beta)
  show "panicked (lk_os (ip_link (snd (output_device iface buf target s)))) = panicked (lk_os (ip_link s))"
  proof -
    obtain r a where res: "arp_resolve iface target (ip_arp s) = (r, a)" by (cases "arp_resolve iface target (ip_arp s)")
    then have "panicked (lk_os (arp_link a)) = panicked (lk_os (ip_link s))"
      using arp_resolve_panicked [of iface target "ip_arp s"] by (simp add: res)
    then show ?thesis
      by (auto simp: output_device_def res out Let_def ADDR_LEN_def ether_sizes dest!: alen
          split: option.splits result.splits)
  qed
qed

lemma ip_output_calm: "calm (ip_link s) (ip_link (snd (ip_output protocol data src dst s)))"
proof -
  have "calm (ip_link s) (ip_link (snd (ip_random32 s)))"
    by (simp add: ip_random32_link calm_def link_wf_def random32_def)
  then have "calm (ip_link s) (ip_link (snd (output_device iface buf nh (snd (ip_random32 s)))))" for iface buf nh
    by (rule calm_trans [OF _ output_device_calm])
  with \<open>calm (ip_link s) (ip_link (snd (ip_random32 s)))\<close> show ?thesis
    by (simp add: ip_output_def case_prod_beta Let_def split: option.splits result.splits)
qed

lemma icmp_input_calm: "calm (ip_link s) (ip_link (icmp_input hdr data iface s))"
  by (simp add: icmp_input_def icmp_output_def ip_output_calm)

lemma udp_input_calm: "calm (host_link (udp_host u)) (host_link (udp_host (udp_input hdr data iface u)))"
  by (simp add: udp_input_def udp_port_unreach_def icmp_output_def ip_output_calm udp_pcb_put_def Let_def
      split: option.splits)

section \<open>TCP\<close>

abbreviation tcp_calm :: "tcp_state \<Rightarrow> tcp_state \<Rightarrow> bool" where
  "tcp_calm s s' \<equiv> calm (tcp_link s) (tcp_link s')"

lemma own_segment_prints: "\<not> is_err (tcp_print (tcp_segment seq ack flg wnd data loc rem))"
  by (simp add: tcp_print_err_iff tcp_segment_fields)

lemma tcp_output_segment_calm: "tcp_calm s (snd (tcp_output_segment seq ack flg wnd data loc rem s))"
  by (simp add: tcp_output_segment_def output_segment_def own_segment_prints host_ip_output_def ip_output_calm
      case_prod_beta Let_def split: result.splits)

lemma tcp_link_same [simp]:
  "tcp_link (tcp_mod d f s) = tcp_link s" "tcp_link (transition d st s) = tcp_link s"
  "tcp_link (retrans_queue_cleanup d s) = tcp_link s" "tcp_link (tcp_notify d s) = tcp_link s"
  "tcp_link (tcp_free d s) = tcp_link s" "tcp_link (notify_parent d pd s) = tcp_link s"
  "tcp_link (snd (tcp_pcb_alloc s)) = tcp_link s"
  by (simp_all add: transition_def retrans_queue_cleanup_def tcp_notify_def notify_parent_def tcp_free_def tcp_alloc_ip
      split: option.splits)

lemma tcp_os_calm:
  "tcp_calm s (snd (tcp_now s))" "tcp_calm s (snd (tcp_random32 s))"
  by (simp_all add: tcp_now_def ip_now_def arp_now_def now_def tcp_random32_def ip_random32_def random32_def
      calm_def link_wf_def case_prod_beta Let_def)

lemma retrans_add_calm: "tcp_calm s (retrans_queue_add d seq flg data s)"
  by (simp add: retrans_queue_add_def case_prod_beta tcp_os_calm)

lemma tcp_output_calm: "tcp_get d s \<noteq> None \<Longrightarrow> tcp_calm s (snd (tcp_output d flg data s))"
  using calm_trans [OF retrans_add_calm tcp_output_segment_calm]
  by (auto simp: tcp_output_def Let_def tcp_output_segment_calm)

lemma timewait_calm: "tcp_calm s (set_timewait_timer d s)"
  by (simp add: set_timewait_timer_def case_prod_beta tcp_os_calm)

text \<open>Releasing: each queued connection is reset while its slot is still there.\<close>

lemma release_entry_calm:
  assumes rel: "\<And>s. tcp_calm s (snd (rel b s))"
  shows "tcp_calm s (release_entry rel b s)"
proof (cases "tcp_get b s")
  case (Some q)
  have "tcp_calm (snd (tcp_output b TCP_FLG_RST [] s))
      (snd (rel b (transition b Closed (snd (tcp_output b TCP_FLG_RST [] s)))))"
    using rel [of "transition b Closed (snd (tcp_output b TCP_FLG_RST [] s))"] by simp
  with Some rel tcp_output_calm [of b s TCP_FLG_RST "[]"] show ?thesis
    by (auto simp: release_entry_def Let_def intro: calm_trans)
qed (simp add: release_entry_def)

lemma release_fuel_calm: "tcp_calm s (snd (release_fuel n d s))"
proof (induction n arbitrary: d s)
  case (Suc n)
  have folds: "tcp_calm s1 (fold (release_entry (release_fuel n)) bs s1)" for bs s1
  proof (induction bs arbitrary: s1)
    case (Cons b bs)
    show ?case using calm_trans [OF release_entry_calm [of "release_fuel n" b, OF Suc.IH] Cons.IH] by simp
  qed simp
  then have "tcp_calm s (fold (release_entry (release_fuel n)) bs (tcp_mod d f s))" for bs f
    using folds [of "tcp_mod d f s" bs] by simp
  then show ?case
    by (simp add: release_body_def Let_def split: option.splits)
qed simp

lemma release_calm: "tcp_calm s (snd (tcp_pcb_release d s))"
  by (simp add: tcp_pcb_release_def release_fuel_calm del: release_fuel.simps)

lemmas tcp_steps_calm = tcp_output_segment_calm tcp_output_calm timewait_calm release_calm tcp_os_calm

lemmas tcp_step_calm [simp] = tcp_steps_calm [THEN calm_trans [rotated]]

text \<open>The sections of \<open>segment_arrives\<close>: a control block that is there stays there.\<close>

lemma seg_closed_calm: "tcp_calm s (seg_closed seg flags loc rem s)"
  by (simp add: seg_closed_def tcp_output_segment_calm)

lemma syn_received_calm: "tcp_get d s \<noteq> None \<Longrightarrow> tcp_calm s (syn_received d seg loc rem s)"
  by (simp add: syn_received_def case_prod_beta Let_def)

lemma listen_target_calm:
  assumes "tcp_get d s = Some p" and "listen_target d p s = (x, s1)"
  shows "tcp_link s1 = tcp_link s \<and> (\<forall>e. x = Some e \<longrightarrow> tcp_get e s1 \<noteq> None)"
proof (cases "tcp_pcb_alloc s")
  case (Pair y t)
  then have "tcp_link t = tcp_link s" using tcp_link_same(7) [of s] by simp
  moreover have "tcp_get e t \<noteq> None" if "y = Some e" for e using tcp_alloc_get [of s e e] Pair that by simp
  ultimately show ?thesis
    using assms Pair by (auto simp: listen_target_def split: if_splits option.splits)
qed

lemma seg_listen_calm:
  assumes "tcp_get d s = Some p"
  shows "tcp_calm s (seg_listen d p seg flags loc rem s)"
proof (cases "listen_target d p s")
  case (Pair x s1)
  note target = listen_target_calm [OF assms Pair]
  then have "tcp_calm s (syn_received e seg loc rem s1)" if "x = Some e" for e
    using syn_received_calm [of e s1] that by simp
  with target Pair show ?thesis
    by (auto simp: seg_listen_def tcp_output_segment_calm split: option.splits)
qed

lemma seg_syn_sent_calm: "tcp_get d s = Some p \<Longrightarrow> tcp_calm s (seg_syn_sent d p seg flags loc rem s)"
  by (simp add: seg_syn_sent_def syn_sent_established_def Let_def tcp_output_segment_calm)

definition calm_at :: "nat \<Rightarrow> tcp_state \<Rightarrow> 'a section_result \<Rightarrow> bool" where
  "calm_at d s r \<longleftrightarrow> tcp_calm s (section_state r) \<and> (\<forall>a s'. r = Next a s' \<longrightarrow> tcp_get d s' \<noteq> None)"

lemma calm_at_then:
  assumes "calm_at d s r" and "\<And>a s'. tcp_get d s' \<noteq> None \<Longrightarrow> calm_at d s' (f a s')"
  shows "calm_at d s (section_then r f)"
proof (cases r)
  case (Next a s')
  with assms(1) have r: "tcp_calm s s'" "tcp_get d s' \<noteq> None" by (simp_all add: calm_at_def)
  from assms(2) [OF this(2), of a] show ?thesis
    unfolding calm_at_def section_then_def Next using calm_trans [OF r(1)] by simp
qed (use assms(1) in \<open>simp add: calm_at_def section_then_def\<close>)

lemma with_pcb_calm:
  "tcp_get d s \<noteq> None \<Longrightarrow> (\<And>p. tcp_get d s = Some p \<Longrightarrow> calm_at d s (f p s)) \<Longrightarrow> calm_at d s (with_pcb d f s)"
  by (auto simp: with_pcb_def)

lemma sections_calm:
  assumes "tcp_get d s = Some p"
  shows "calm_at d s (seg_check d p seg flags s)" and "calm_at d s (seg_ack_syn_received d p seg loc rem s)"
    and "calm_at d s (seg_ack_states d p seg flags s)" and "calm_at d s (seg_text d p seg data s)"
    and "tcp_calm s (seg_fin d p seg flags s)"
  using assms
  by (auto simp: calm_at_def seg_check_def seg_ack_syn_received_def seg_ack_states_def ack_update_def seg_text_def
      seg_fin_def Let_def split: section_result.splits tcp_st.splits)

lemma seg_synchronized_calm:
  assumes "tcp_get d s \<noteq> None"
  shows "tcp_calm s (seg_synchronized d seg flags data loc rem s)"
proof -
  have check: "calm_at d s0 (with_pcb d (\<lambda>p. seg_check d p seg flags) s0)"
    and syn: "calm_at d s0 (with_pcb d (\<lambda>p. seg_ack_syn_received d p seg loc rem) s0)"
    and ack: "calm_at d s0 (with_pcb d (\<lambda>p. seg_ack_states d p seg flags) s0)"
    and text_: "calm_at d s0 (with_pcb d (\<lambda>p. seg_text d p seg data) s0)"
    and fin: "calm_at d s0 (with_pcb d (\<lambda>p s. (Done (seg_fin d p seg flags s) :: unit section_result)) s0)"
    if "tcp_get d s0 \<noteq> None" for s0
    using that by (auto intro!: with_pcb_calm sections_calm simp: calm_at_def [of _ _ "Done _"])
  have notified: "calm_at d s0 (with_pcb d (\<lambda>p. seg_text d p seg data) (notify_parent d pd s0))" if "tcp_get d s0 \<noteq> None" for s0 pd
  proof -
    have "tcp_get d (notify_parent d pd s0) \<noteq> None" using that by (auto simp: notify_parent_def split: option.splits)
    from text_ [OF this] show ?thesis by (simp add: calm_at_def)
  qed
  have "calm_at d s (section_then (with_pcb d (\<lambda>p. seg_check d p seg flags) s) (\<lambda>_ s1.
        section_then (with_pcb d (\<lambda>p. seg_ack_syn_received d p seg loc rem) s1) (\<lambda>parent s2.
        section_then (with_pcb d (\<lambda>p. seg_ack_states d p seg flags) s2) (\<lambda>_ s3.
        section_then (with_pcb d (\<lambda>p. seg_text d p seg data) (notify_parent d parent s3)) (\<lambda>_ s4.
        with_pcb d (\<lambda>p s. (Done (seg_fin d p seg flags s) :: unit section_result)) s4)))))"
    by (intro calm_at_then check syn ack notified fin assms)
  then show ?thesis by (simp add: seg_synchronized_def calm_at_def)
qed

lemma segment_arrives_calm: "tcp_calm s (segment_arrives seg flags data loc rem s)"
proof -
  have "tcp_get d s \<noteq> None" if "tcp_pcb_select loc rem s = Some d" for d
    using tcp_select_get [OF that] by auto
  then show ?thesis
    by (auto simp: segment_arrives_def seg_closed_calm seg_listen_calm seg_syn_sent_calm seg_synchronized_calm
        split: option.splits tcp_st.splits)
qed

text \<open>The segments on which \<open>input\<close> panics: their checksum is right and their data offset is not.\<close>

definition bad_offset :: "bytes \<Rightarrow> bytes \<Rightarrow> ip_iface \<Rightarrow> bool" where
  "bad_offset hdr data iface \<longleftrightarrow> 20 \<le> length data \<and> (tcp_hlen data < 20 \<or> length data < tcp_hlen data) \<and>
     cksum16 data (cksum_init (build_pseudo_header IP_PROTOCOL_TCP (ip_src hdr) (ip_dst hdr)
       (of_nat (length data)))) = 0 \<and>
     ip_src hdr \<notin> {ip_broadcast, if_broadcast iface} \<and> ip_dst hdr \<notin> {ip_broadcast, if_broadcast iface}"

lemma tcp_input_panics_iff:
  assumes "link_wf (tcp_link s)" and "\<not> panicked (lk_os (tcp_link s))"
  shows "panicked (lk_os (tcp_link (tcp_input hdr data iface s))) \<longleftrightarrow> bad_offset hdr data iface"
  using assms segment_arrives_calm [of s "tcp_seg_info data" "tcp_flg data" "drop (tcp_hlen data) data"]
  by (auto simp: tcp_input_def bad_offset_def tcp_print_err_iff calm_def TCP_HDR_SIZE_def Let_def
      tcp_panic_def host_panic_def ip_panic_def ip_with_os_def panic_def)

section \<open>The timer\<close>

lemma emit_due_calm: "tcp_calm s (snd (emit_due t p q s))"
proof (induction t p q s rule: emit_due.induct)
  case (2 t p e q s)
  then show ?case
    using calm_trans [OF tcp_output_segment_calm [of s "q_seq e" "rcv_nxt p" "q_flg e" "rcv_wnd p" "q_data e" "t_local p" "t_remote p"]]
    by (simp add: case_prod_beta Let_def)
qed simp

lemma on_timer_desc_calm: "tcp_calm s (on_timer_desc t d s)"
proof -
  have "tcp_calm s (snd (emit_due t' p q (snd (tcp_now s))))" for t' p q
    by (rule calm_trans [OF tcp_os_calm(1) emit_due_calm])
  then show ?thesis
    by (simp add: on_timer_desc_def retrans_emit_def case_prod_beta Let_def tcp_os_calm split: option.splits)
qed

lemma tcp_on_timer_calm: "tcp_calm s (tcp_on_timer s)"
proof -
  have "tcp_calm s1 (fold (on_timer_desc t) ds s1)" for t ds s1
  proof (induction ds arbitrary: s1)
    case (Cons d ds)
    show ?case using calm_trans [OF on_timer_desc_calm Cons.IH] by simp
  qed simp
  then show ?thesis by (auto simp: tcp_on_timer_def case_prod_beta Let_def intro: calm_trans tcp_os_calm)
qed

section \<open>The whole stack\<close>

text \<open>The packets on which a pass of the software interrupt handler panics.\<close>

definition bad_packet :: "input_entry \<Rightarrow> stack \<Rightarrow> bool" where
  "bad_packet e s \<longleftrightarrow>
     map_option snd (find (\<lambda>p. fst p = ie_ty e) (net_protocols (st_link s))) = Some IpInput \<and>
     (\<exists>dev. by_index (st_link s) (ie_dev e) = Some dev \<and>
       (case ip_input_verdict (ie_data e) dev (ip_protocols (st_ip s)) of
          IpPanic \<Rightarrow> True
        | IpDeliver TcpInput payload iface \<Rightarrow> bad_offset (ie_data e) payload iface
        | _ \<Rightarrow> False))"

lemma ip_input_panics_iff:
  assumes "link_wf (st_link s)" and "\<not> panicked (lk_os (st_link s))"
  shows "panicked (lk_os (st_link (ip_input data dev s))) \<longleftrightarrow>
    (case ip_input_verdict data dev (ip_protocols (st_ip s)) of
       IpPanic \<Rightarrow> True | IpDeliver TcpInput payload iface \<Rightarrow> bad_offset data payload iface | _ \<Rightarrow> False)"
proof -
  have calm: "calm (st_link s) l \<Longrightarrow> \<not> panicked (lk_os l)" for l using assms by (simp add: calm_def)
  have "\<not> panicked (lk_os (ip_link (icmp_input hdr p ifc (st_ip s))))" for hdr p ifc
    by (rule calm [OF icmp_input_calm])
  moreover have "\<not> panicked (lk_os (ip_link (snd (icmp_output ty c v d src dst (st_ip s)))))" for ty c v d src dst
    by (rule calm) (simp add: icmp_output_def ip_output_calm)
  moreover have "\<not> panicked (lk_os (host_link (udp_host (udp_input hdr p ifc (udp_view s)))))" for hdr p ifc
    using calm udp_input_calm [of "udp_view s" hdr p ifc] by simp
  moreover have "panicked (lk_os (tcp_link (tcp_input hdr p ifc (tcp_view s)))) \<longleftrightarrow> bad_offset hdr p ifc" for hdr p ifc
    using tcp_input_panics_iff [of "tcp_view s"] assms by simp
  ultimately show ?thesis
    using assms(2) by (simp add: ip_input_def ip_deliver_def ip_panic_def ip_with_os_def panic_def split: ip_verdict.splits ip_handler.splits)
qed

lemma softirq_panics_iff:
  assumes "stack_wf s" and "\<not> panicked (lk_os (st_link s))" and "input_queue (st_link s) = e # es" and "softirq_step s = Some s'"
  shows "panicked (lk_os (st_link s')) \<longleftrightarrow> bad_packet e s"
proof -
  let ?l = "(st_link s)\<lparr>input_queue := es\<rparr>"
  let ?s = "st_with_link ?l s"
  have wf: "link_wf ?l" using assms(1) by (simp add: stack_wf_def link_wf_def)
  have calm: "\<not> panicked (lk_os (st_link ?s))" using assms(2) by simp
  have idx: "by_index ?l i = by_index (st_link s) i" for i by (simp add: by_index_def)
  define h where "h = map_option snd (find (\<lambda>p. fst p = ie_ty e) (net_protocols (st_link s)))"
  have s': "s' = (case h of None \<Rightarrow> ?s | Some h' \<Rightarrow> net_dispatch h' (ie_data e) (ie_dev e) ?s)"
    using assms(3, 4) by (simp add: softirq_step_def softirq_pop_def h_def Let_def)
  show ?thesis
  proof (cases "h = Some IpInput")
    case True
    show ?thesis
      using True s' calm wf ip_input_panics_iff [of ?s "ie_data e"]
      by (simp add: net_dispatch_def bad_packet_def h_def [symmetric] idx split: option.splits)
  next
    case False
    then show ?thesis
      using s' calm by (auto simp: net_dispatch_def bad_packet_def h_def [symmetric] split: option.splits net_handler.splits)
  qed
qed

text \<open>The timers never panic.\<close>

lemma run_timer_calm: "calm (st_link s) (st_link (run_timer h s))"
proof (cases h)
  case TcpTimer
  then show ?thesis using tcp_on_timer_calm [of "tcp_view s"] by (simp add: run_timer_def)
next
  case ArpTimer
  then show ?thesis
    by (simp add: run_timer_def calm_def link_wf_def arp_on_timer_def arp_now_def now_def case_prod_beta Let_def)
qed

lemma timer_interrupt_calm: "calm (st_link s) (st_link (timer_interrupt s))"
proof -
  have folds: "calm (st_link s1) (st_link (fold run_timer hs s1))" for hs s1
  proof (induction hs arbitrary: s1)
    case (Cons h hs)
    show ?case using calm_trans [OF run_timer_calm Cons.IH] by simp
  qed simp
  obtain hs ts os' where isr: "timer_isr (timers (st_link s)) (lk_os (st_link s)) = (hs, ts, os')"
    by (cases "timer_isr (timers (st_link s)) (lk_os (st_link s))")
  then have "panicked os' = panicked (lk_os (st_link s))" by (auto simp: timer_isr_def now_def Let_def split: prod.splits)
  then have "calm (st_link s) (st_link (st_with_link ((st_link s)\<lparr>timers := ts, lk_os := os'\<rparr>) s))"
    by (simp add: calm_def link_wf_def)
  from calm_trans [OF this folds] show ?thesis by (simp add: timer_interrupt_def isr Let_def)
qed

end
