(* ===== verification/Signals.thy ===== *)
theory Signals
  imports App_Props
begin

text \<open>
  The process around the stack: the signal sets and \<open>raise\<close> of \<^verbatim>\<open>intr.rs\<close>, the handler of \<open>SIGINT\<close> in
  \<^verbatim>\<open>test/src/main.rs\<close>, and the seed of the random numbers in \<^verbatim>\<open>platform/linux/mod.rs\<close>. Interrupting the
  program from the keyboard wakes every waiting thread and ends the server.
\<close>

section \<open>Signal sets\<close>

type_synonym sig_set = "u32 set"

definition sig_empty :: sig_set where "sig_empty = {}"

definition sig_add :: "u32 \<Rightarrow> sig_set \<Rightarrow> sig_set" where "sig_add signum m = insert signum m"

text \<open>The mask \<open>run\<close> builds is the list of signals the model keeps for the dispatcher.\<close>

lemma sig_add_fold: "fold (\<lambda>e. sig_add (irq e)) es m = set (map irq es) \<union> m"
  by (induction es arbitrary: m) (auto simp: sig_add_def)

lemma intr_run_mask:
  assumes "intr_run l = (Ok (), l')"
  shows "\<exists>m. dispatcher l' = Some m \<and> set m = fold (\<lambda>e. sig_add (irq e)) (irqs l) (sig_add SIGHUP sig_empty)"
  using assms unfolding sig_add_fold
  by (auto simp: intr_run_def Let_def case_prod_beta sig_add_def sig_empty_def split: if_splits)

section \<open>The process\<close>

text \<open>
  The flag \<open>TERMINATE\<close>, what \<open>SIGINT\<close> does, the signals that are pending for the process, each at most
  once, and the stack. \<open>raise\<close> sends a signal to the process.
\<close>

definition SIGINT :: u32 where "SIGINT = 2"

datatype sig_action = DefaultAction | OnSignal

record process =
  p_terminate :: bool
  p_sigint :: sig_action
  p_pending :: "u32 list"
  p_stack :: stack

definition intr_raise :: "u32 \<Rightarrow> process \<Rightarrow> process" where
  "intr_raise n p = p\<lparr>p_pending := (if n \<in> set (p_pending p) then p_pending p else p_pending p @ [n])\<rparr>"

definition on_signal :: "process \<Rightarrow> process" where
  "on_signal p = intr_raise SIGUSR2 (p\<lparr>p_terminate := True\<rparr>)"

text \<open>The first step of \<open>setup\<close>, before the stack is initialised.\<close>

definition install_handler :: "process \<Rightarrow> process" where
  "install_handler p = p\<lparr>p_sigint := OnSignal\<rparr>"

definition process_setup :: "u32 \<Rightarrow> process \<Rightarrow> unit result \<times> process" where
  "process_setup irq_no p =
     (let p1 = install_handler p; (r, s) = app_setup irq_no (p_stack p1) in (r, p1\<lparr>p_stack := s\<rparr>))"

text \<open>
  \<open>SIGINT\<close> is in no mask of the stack: the kernel runs its action at once, and the default action ends
  the process. A pending signal of the mask of the dispatcher is taken by \<open>sigwait\<close>.
\<close>

definition keyboard_interrupt :: "process \<Rightarrow> process option" where
  "keyboard_interrupt p = (case p_sigint p of DefaultAction \<Rightarrow> None | OnSignal \<Rightarrow> Some (on_signal p))"

definition dispatcher_turn :: "nat \<Rightarrow> (nat \<Rightarrow> read_result list) \<Rightarrow> process \<Rightarrow> process option" where
  "dispatcher_turn fuel reads p =
     (case dispatcher (st_link (p_stack p)) of
        None \<Rightarrow> Some p
      | Some sigmask \<Rightarrow>
          (case find (\<lambda>n. n \<in> set sigmask) (p_pending p) of
             None \<Rightarrow> Some p
           | Some sig \<Rightarrow>
               (case intr_main fuel reads [Signal sig] (p_stack p) of
                  None \<Rightarrow> None
                | Some (_, s) \<Rightarrow> Some (p\<lparr>p_pending := remove1 sig (p_pending p), p_stack := s\<rparr>))))"

section \<open>An interrupt from the keyboard\<close>

text \<open>An interrupted task ends a wait that has begun, and a wait that begins later.\<close>

lemma interrupted_ends_wait:
  "interrupted t \<Longrightarrow> fst (task_wait_enter t) = Some Interrupted \<and> fst (task_wait_poll snap t) = Some Interrupted"
  by (simp add: task_wait_enter_def task_wait_poll_def Let_def)

lemma interrupt_sets [simp]: "interrupted (interrupt t)"
  by (simp add: interrupt_def)

text \<open>The service routine for \<open>SIGUSR2\<close> interrupts all tasks and changes nothing else.\<close>

lemma task_signal:
  assumes "intr_dispatch SIGUSR2 (irqs (st_link s)) = [TaskIsr]"
  shows "intr_main fuel reads [Signal SIGUSR2] s =
    Some (False, s\<lparr>st_host := (st_host s)\<lparr>host_tasks := map interrupt (host_tasks (st_host s))\<rparr>\<rparr>)"
  using assms by (simp add: intr_signal_def run_isr_def task_isr_def SIGHUP_def SIGUSR2_def)

lemma keyboard_interrupt_wakes:
  assumes "p_sigint p = OnSignal" and "p_pending p = []" and "dispatcher (st_link (p_stack p)) = Some m"
    and "SIGUSR2 \<in> set m" and "intr_dispatch SIGUSR2 (irqs (st_link (p_stack p))) = [TaskIsr]"
  shows "\<exists>p1 p2. keyboard_interrupt p = Some p1 \<and> dispatcher_turn fuel reads p1 = Some p2 \<and>
    p_terminate p2 \<and> p_pending p2 = [] \<and>
    (\<forall>t < length (host_tasks (st_host (p_stack p))). interrupted (host_tasks (st_host (p_stack p2)) ! t))"
  using assms task_signal [OF assms(5), of fuel reads]
  by (simp add: keyboard_interrupt_def on_signal_def intr_raise_def dispatcher_turn_def)

text \<open>An interrupted wait ends the loop over connections, and the connection that waits for data.\<close>

lemma interrupted_accept:
  assumes "sock_typed soc SOCK_STREAM (before_accept c s) = Some k"
    and "on_tcp (accept_pass (so_desc k)) (before_accept c s) = (WaitOn t snap, s1)"
    and "accept_wakes c = (Interrupted, s') # ws" and "\<not> terminate c"
  shows "accept_loop fuel soc (c # cs) s = Some s'"
  using assms by (simp add: sock_accept_def blocking_wait)

lemma interrupted_recv:
  assumes "sock_typed soc SOCK_STREAM (before_recv r s) = Some k"
    and "on_tcp (receive_pass (so_desc k) 128) (before_recv r s) = (WaitOn t snap, s1)"
    and "recv_wakes r = (Interrupted, s') # ws"
  shows "conn_main fuel soc (r # rs) s = Some (snd (sock_close soc s'))"
  using assms by (simp add: sock_recv_def blocking_wait)

section \<open>The seed\<close>

text \<open>
  \<open>init\<close> seeds the generator of the C library with the nanoseconds of the clock; \<open>generator\<close> stands for
  that library: the numbers \<open>rand\<close> returns after \<open>srand\<close> of a seed.
\<close>

definition platform_seed :: "(u32 \<Rightarrow> nat \<Rightarrow> u32) \<Rightarrow> nat \<Rightarrow> link \<Rightarrow> link" where
  "platform_seed generator tv_nsec l =
     l\<lparr>lk_os := (lk_os l)\<lparr>rand := (\<lambda>n. generator (of_nat tv_nsec) (n - rand_reads (lk_os l)))\<rparr>\<rparr>"

text \<open>
  A seeded program start is a program start, so all that is shown of the states that can be reached
  holds after it; the random numbers are those of the seed, from the first.
\<close>

lemma seeded_start:
  assumes "at_start s"
  shows "at_start (st_with_link (platform_seed generator ns (st_link s)) s)"
  using assms by (simp add: at_start_def platform_seed_def st_with_link_def)

lemma seeded_numbers:
  "rand (lk_os l') (rand_reads (lk_os l') + n) = generator (of_nat ns) n" if "l' = platform_seed generator ns l"
  by (simp add: that platform_seed_def)

text \<open>There are no more different sequences of random numbers than nanoseconds in a second.\<close>

lemma seed_space:
  "card ((\<lambda>ns. rand (lk_os (platform_seed generator ns l))) ` {ns. ns < 10 ^ 9}) \<le> 10 ^ 9"
proof -
  have "card {ns :: nat. ns < 10 ^ 9} = 10 ^ 9" "finite {ns :: nat. ns < 10 ^ 9}" by simp_all
  then show ?thesis by (metis card_image_le)
qed

end
