(* ===== verification/Util_Tests.thy ===== *)
theory Util_Tests
  imports Checksum Dump
begin

text \<open>
  The unit tests of \<^verbatim>\<open>util.rs\<close>, each as the value of its assertions on the model. They hold, so the
  definitions of the checksum and of the hexadecimal dump agree with the values the tests of the
  repository expect: an IP header with an ICMP echo request whose checksums were computed elsewhere.
\<close>

definition TEST_DATA :: bytes where
  "TEST_DATA = [
     0x45, 0x00, 0x00, 0x30, 0x00, 0x80, 0x00, 0x00, 0xff, 0x01, 0xbd, 0x4a, 0x7f, 0x00, 0x00,
     0x01, 0x7f, 0x00, 0x00, 0x01, 0x08, 0x00, 0x35, 0x64, 0x00, 0x80, 0x00, 0x01, 0x31, 0x32,
     0x33, 0x34, 0x35, 0x36, 0x37, 0x38, 0x39, 0x30, 0x21, 0x40, 0x23, 0x24, 0x25, 0x5e, 0x26,
     0x2a, 0x28, 0x29]"

text \<open>The packet of \<^verbatim>\<open>test/src/defs.rs\<close>, word by word.\<close>

definition DEFS_TEST_DATA :: bytes where
  "DEFS_TEST_DATA = [
     0x45, 0x00, 0x00, 0x30,
     0x00, 0x80, 0x00, 0x00,
     0xff, 0x01, 0xbd, 0x4a,
     0x7f, 0x00, 0x00, 0x01,
     0x7f, 0x00, 0x00, 0x01,
     0x08, 0x00, 0x35, 0x64,
     0x00, 0x80, 0x00, 0x01,
     0x31, 0x32, 0x33, 0x34,
     0x35, 0x36, 0x37, 0x38,
     0x39, 0x30, 0x21, 0x40,
     0x23, 0x24, 0x25, 0x5e,
     0x26, 0x2a, 0x28, 0x29]"

text \<open>\<open>str::contains\<close>.\<close>

fun str_contains :: "string \<Rightarrow> string \<Rightarrow> bool" where
  "str_contains pat [] \<longleftrightarrow> pat = []"
| "str_contains pat (c # cs) \<longleftrightarrow> take (length pat) (c # cs) = pat \<or> str_contains pat cs"

section \<open>The tests of the checksum\<close>

definition verify_ip_header_checksum :: bool where
  "verify_ip_header_checksum \<longleftrightarrow> cksum16 (take 20 TEST_DATA) 0 = 0"

definition verify_icmp_checksum :: bool where
  "verify_icmp_checksum \<longleftrightarrow> cksum16 (drop 20 TEST_DATA) 0 = 0"

definition compute_checksum :: bool where
  "compute_checksum \<longleftrightarrow>
     (let ip_header = (take 20 TEST_DATA)[10 := 0, 11 := 0]
      in cksum16 ip_header 0 = u16_from_ne (TEST_DATA ! 10) (TEST_DATA ! 11))"

definition checksum_empty :: bool where
  "checksum_empty \<longleftrightarrow> cksum16 [] 0 = 0xffff"

definition checksum_single_byte :: bool where
  "checksum_single_byte \<longleftrightarrow> cksum16 [0x01] 0 = NOT 0x0001"

definition checksum_with_init :: bool where
  "checksum_with_init \<longleftrightarrow>
     (let part1 = take 10 TEST_DATA; part2 = slice 10 20 TEST_DATA;
          init = ucast (NOT (cksum16 part1 0))
      in cksum16 part2 init = cksum16 (take 20 TEST_DATA) 0)"

section \<open>The tests of the dump\<close>

definition hexdump_format :: bool where
  "hexdump_format \<longleftrightarrow>
     (let output = hex_dump [0x45, 0x00, 0x00, 0x30]
      in str_contains ''0000'' output \<and> str_contains ''45 00 00 30'' output \<and> str_contains ''E..0'' output)"

definition hexdump_multiline :: bool where
  "hexdump_multiline \<longleftrightarrow>
     (let output = hex_dump TEST_DATA
      in str_contains ''0000'' output \<and> str_contains ''0010'' output \<and> str_contains ''0020'' output \<and>
         str_contains ''1234'' output)"

definition hexdump_empty :: bool where
  "hexdump_empty \<longleftrightarrow>
     (let output = hex_dump [] in str_contains ''+------+'' output \<and> \<not> str_contains ''0000'' output)"

section \<open>They hold\<close>

lemma test_data_same: "DEFS_TEST_DATA = TEST_DATA"
  by (simp add: DEFS_TEST_DATA_def TEST_DATA_def)

lemma cksum_fold_step:
  "drop_bit 16 w = 0 \<Longrightarrow> cksum_fold w = w"
  "drop_bit 16 w \<noteq> 0 \<Longrightarrow> cksum_fold w = cksum_fold ((w AND 0xffff) + drop_bit 16 w)"
  by (subst cksum_fold.simps, simp)+

lemmas cksum_eval = cksum16_def TEST_DATA_def u16_from_ne_def slice_def Let_def cksum_fold_step drop_bit_eq_div

lemma checksum_tests_pass:
  "verify_ip_header_checksum" "verify_icmp_checksum" "compute_checksum"
  "checksum_empty" "checksum_single_byte" "checksum_with_init"
  by (simp_all add: cksum_eval verify_ip_header_checksum_def verify_icmp_checksum_def compute_checksum_def
      checksum_empty_def checksum_single_byte_def checksum_with_init_def)

lemma upt_16: "[0..<16] = [0, 1, 2, 3, 4, 5, 6, 7, 8, 9, 10, 11, 12, 13, 14, 15]"
  by (simp add: upt_conv_Cons)

lemma replicate_small: "replicate 2 x = [x, x]" "replicate 3 x = [x, x, x]"
  by (simp_all add: numeral_eq_Suc)

lemmas dump_eval = hex_dump_def chunks.simps dump_line_def hex4_def hex_string.simps hex2_def dump_hex_def upt_16
  dump_ascii_def dump_char_def is_ascii_graphic_def digit_char_def DUMP_RULE_def newline_def TEST_DATA_def Let_def
  replicate_small char_of_def drop_bit_eq_div bit_0

lemma hexdump_tests_pass: "hexdump_empty" "hexdump_format" "hexdump_multiline"
  by (simp_all add: hexdump_empty_def hexdump_format_def hexdump_multiline_def dump_eval)

end
