(* ===== verification/Claims_App.thy ===== *)
theory Claims_App
  imports Example App_Props Xtask_Props Print Log Tap_Test No_Panic Signals Util_Tests
begin

text \<open>
  The properties of the programs around the stack: the echo server of \<^verbatim>\<open>test/src/main.rs\<close> and the
  task runner \<^verbatim>\<open>xtask\<close>.
\<close>

section \<open>The echo server\<close>

definition ex_start :: stack where
  "ex_start = \<lparr>st_host = \<lparr>host_ip = \<lparr>ip_arp = \<lparr>arp_link = \<lparr>lk_os = ex_os, devices = [], net_protocols = [],
     input_queue = [], irqs = [], timers = [], timer_created = False, dispatcher = None\<rparr>, arp_cache = []\<rparr>,
     ip_protocols = [], ip_ifaces = [], ip_routes = []\<rparr>, host_tasks = []\<rparr>, st_udp = [], st_tcp = [], st_socks = []\<rparr>"

lemma ex_start_at_start: "at_start ex_start"
  by (simp add: at_start_def ex_start_def)

text \<open>
  C37. The set-up of the test program succeeds from the empty tables of program start if the system
  calls succeed. Afterwards both devices are up and the routes are those its configuration means:
  addresses of \<open>127.0.0.0/8\<close> go to the loopback interface, those of \<open>192.0.2.0/24\<close> directly to the
  TAP interface, and all others to the TAP interface by way of the gateway \<open>192.0.2.1\<close>.
\<close>

theorem app_setup_configures:
  assumes "at_start s" and "irq_no \<notin> {SIGUSR1, SIGUSR2, SIGALRM}"
    and "\<forall>n. sys_ret (lk_os (st_link s)) (sys_calls (lk_os (st_link s)) + n) \<noteq> - 1"
    and "\<forall>n < 3. sys_ret (lk_os (st_link s)) (sys_calls (lk_os (st_link s)) + n) = 0"
  shows "\<exists>s'. app_setup irq_no s = (Ok (), s') \<and> list_all is_up (devices (st_link s')) \<and>
    ip_ifaces (st_ip s') = [app_lo, app_en] \<and>
    (\<forall>a b c d. \<exists>r. route_lookup (IpAddr a b c d) (st_ip s') = Some r \<and>
       rt_iface r = (if a = 127 then app_lo else app_en) \<and>
       rt_nexthop r = (if a = 127 \<or> a = 192 \<and> b = 0 \<and> c = 2 then ip_any else IpAddr 192 0 2 1))"
proof -
  from app_setup_ok [OF assms] obtain s' where s': "app_setup irq_no s = (Ok (), s')"
    "ip_routes (st_ip s') = app_routes" "ip_ifaces (st_ip s') = [app_lo, app_en]" "list_all is_up (devices (st_link s'))"
    by blast
  have "\<exists>r. route_lookup (IpAddr a b c d) (st_ip s') = Some r \<and>
       rt_iface r = (if a = 127 then app_lo else app_en) \<and>
       rt_nexthop r = (if a = 127 \<or> a = 192 \<and> b = 0 \<and> c = 2 then ip_any else IpAddr 192 0 2 1)" for a b c d
    using app_routes_lookup [OF s'(2)] by (cases "a = 127"; cases "a = 192 \<and> b = 0 \<and> c = 2") (auto simp: app_routes_def)
  with s' show ?thesis by blast
qed

theorem app_setup_configures_witness:
  "\<exists>s'. app_setup 35 ex_start = (Ok (), s') \<and> ip_ifaces (st_ip s') = [app_lo, app_en]"
  using app_setup_configures [OF ex_start_at_start, of 35]
  by (auto simp: SIGUSR1_def SIGUSR2_def SIGALRM_def) (auto simp: ex_start_def ex_os_def)

text \<open>
  C38. Echo: on a connection whose peer has closed, with received bytes left in the buffer and room
  for them in the peer's window, the loop of \<open>conn_main\<close> ends; it has queued exactly the received
  bytes for sending, in order and once, the socket is closed and the connection is in LAST-ACK.
  Between its calls other threads may do anything that leaves this socket and its control block
  alone.
\<close>

theorem app_echo_session:
  assumes "tcp_wf (tcp_view s)" and "sock_get soc s = Some k" and "so_ty k = SOCK_STREAM" and "so_desc k = d"
    and "tcp_get d (tcp_view s) = Some p" and "t_state p = CloseWait" and "t_mss p \<noteq> 0"
    and "length (t_buf p) \<le> send_cap p" and "128 < fuel" and "length (t_buf p) + 128 \<le> 128 * length rs"
    and "\<forall>r \<in> set rs. leaves_alone soc d (before_recv r) \<and> leaves_alone soc d (before_send r)"
  shows "\<exists>s' q. conn_main fuel soc rs s = Some s' \<and> sock_get soc s' = None \<and>
    tcp_get d (tcp_view s') = Some q \<and> t_state q = LastAck \<and> queue_data q = queue_data p @ t_buf p"
proof -
  have "echoing soc d (t_buf p) (send_cap p) (queue_data p) s"
    using assms(1-7) by (auto simp: echoing_def stream_sock_def)
  from echo_session [OF this assms(8-11)] show ?thesis .
qed

definition ex_echo :: stack where
  "ex_echo = (tcp_store (transition 0 CloseWait ex_tcp) ex_stack)\<lparr>st_socks :=
     [Some \<lparr>so_family = AF_INET, so_ty = SOCK_STREAM, so_desc = 0\<rparr>]\<rparr>"

definition ex_round :: echo_round where
  "ex_round = \<lparr>before_recv = id, recv_wakes = [], before_send = id, send_wakes = []\<rparr>"

theorem app_echo_session_witness:
  "\<exists>s' q. conn_main 200 0 [ex_round, ex_round] ex_echo = Some s' \<and> tcp_get 0 (tcp_view s') = Some q \<and>
     queue_data q = [1, 2]"
proof -
  have view: "tcp_view ex_echo = transition 0 CloseWait ex_tcp"
    by (simp add: ex_echo_def tcp_view_def tcp_store_def)
  have wf: "tcp_wf (tcp_view ex_echo)"
    unfolding view by (rule tcp_wf_transition [OF ex_tcp_wf]) (simp add: ex_tcp_get ex_pcbs)
  have "leaves_alone 0 0 id" by (simp add: leaves_alone_def)
  then show ?thesis
    using app_echo_session [OF wf, of 0 "\<lparr>so_family = AF_INET, so_ty = SOCK_STREAM, so_desc = 0\<rparr>" 0
        "ex_established\<lparr>t_state := CloseWait\<rparr>" 200 "[ex_round, ex_round]"]
    by (auto simp: view ex_tcp_get ex_round_def) 
      (auto simp: ex_echo_def sock_get_def slot_get_def ex_pcbs send_cap_def queue_data_def tcp_pcb_empty_def)
qed

text \<open>
  The server keeps the ownership of control blocks: from a state the threads can reach, with other
  threads that do only what they can do, \<open>app_main\<close> returns in such a state again.
\<close>

theorem app_main_owned:
  assumes "sock_reachable s" and "list_all (session_ok sock_reachable) cs"
    and "\<And>n s. sock_reachable s \<Longrightarrow> sock_reachable (others n s)" and "app_main others fuel cs s = Some (r, s')"
  shows "sock_reachable s' \<and> reachable s' \<and> (\<exists>F. sock_owned F s')"
  using sock_thr.app_main_kept [OF assms] sock_reach_reachable sock_reach_owned unfolding sock_reachable_def by blast

section \<open>The task runner\<close>

text \<open>
  C39. Firewall rules, with \<open>iptables\<close> behaving as documented (\<open>iptables_ok\<close>) and no rule listed twice
  before: a successful run of
  \<open>nat on\<close> leaves all three rules in place and one of \<open>nat off\<close> none of them, rules of others are
  not touched and no rule is ever there twice; and when the rules are already as requested the run
  succeeds without changing them.
\<close>

theorem xtask_nat_switch:
  assumes "iptables_ok c rules" and "distinct (rules w)" and "nat_cmd c tap out on w = (ok, w')"
  shows "distinct (rules w') \<and>
    (\<forall>q. q \<notin> set (nat_rules tap out ''192.0.2.0/24'') \<longrightarrow> q \<in> set (rules w') \<longleftrightarrow> q \<in> set (rules w)) \<and>
    (ok \<longrightarrow> (\<forall>r \<in> set (nat_rules tap out ''192.0.2.0/24''). r \<in> set (rules w') \<longleftrightarrow> on)) \<and>
    ((\<forall>r \<in> set (nat_rules tap out ''192.0.2.0/24''). r \<in> set (rules w) \<longleftrightarrow> on) \<longrightarrow> ok \<and> rules w' = rules w)"
proof -
  have run: "nat_loop c on (nat_rules tap out ''192.0.2.0/24'') w = (ok, w')"
    using assms(3) by (simp add: nat_cmd_def default_network)
  from nat_loop_sets [OF assms(1, 2) run nat_rules_distinct] nat_loop_stable [OF assms(1), of "nat_rules tap out ''192.0.2.0/24''" w on]
  show ?thesis by (simp add: run)
qed

text \<open>A firewall as a list of rules.\<close>

definition ex_firewall :: "rule list commands" where
  "ex_firewall = \<lparr>status_of = (\<lambda>program args w.
       let r = \<lparr>table = args ! 2, chain = args ! 4, spec = drop 5 args\<rparr>
       in if args ! 3 = ''-C'' then (Some (r \<in> set w), w)
          else if args ! 3 = ''-A'' then (Some True, w @ [r]) else (Some True, remove1 r w)),
     output_of = (\<lambda>program args w. (None, w))\<rparr>"

theorem xtask_nat_switch_witness:
  "set (nat_rules ''tap0'' ''eth0'' ''192.0.2.0/24'') \<subseteq> set (snd (nat_cmd ex_firewall ''tap0'' ''eth0'' True []))"
proof -
  have eta: "\<lparr>table = table r, chain = chain r, spec = spec r\<rparr> = r" for r :: rule by simp
  have ok: "iptables_ok ex_firewall id"
    unfolding iptables_ok_def by (simp add: ex_firewall_def iptables_args_def eta)
  obtain b w where run: "nat_cmd ex_firewall ''tap0'' ''eth0'' True [] = (b, w)"
    by (cases "nat_cmd ex_firewall ''tap0'' ''eth0'' True []")
  moreover have "b"
    using run by (simp add: nat_cmd_def default_network nat_rules_def ex_firewall_def iptables_args_def
        iptables_exists_def probe_def run_cmd_def)
  ultimately show ?thesis using xtask_nat_switch [OF ok, of "[]" "''tap0''" "''eth0''" True b w] by auto
qed

text \<open>
  \<open>cidr_network\<close> of an address and a prefix length is the network the stack itself computes for
  that address with the netmask of this length, printed with the length.
\<close>

theorem xtask_cidr_network:
  assumes "n \<le> 32"
  shows "cidr_network (ip_to_str a @ ''/'' @ dec_string n) = Some (ip_to_str (ip_and a (prefix_mask n)) @ ''/'' @ dec_string n)"
  using assms by (rule cidr_network_eq)

theorem xtask_cidr_network_witness:
  "cidr_network (ip_to_str (IpAddr 10 1 2 3) @ ''/'' @ dec_string 8) =
     Some (ip_to_str (ip_and (IpAddr 10 1 2 3) (prefix_mask 8)) @ ''/'' @ dec_string 8)"
  by (rule xtask_cidr_network) simp

text \<open>
  The dump printed for every packet shows all of it: equal dumps come from equal packets, for every
  protocol; for data of up to 64 KiB every line of the hexadecimal part has 77 characters; and the
  lines of a TCP segment are printed exactly when its data offset is in range.
\<close>

theorem dumps_faithful:
  "(ether_print a = ether_print b \<longleftrightarrow> a = b) \<and> (arp_print a = arp_print b \<longleftrightarrow> a = b) \<and>
   (ip_print a = ip_print b \<longleftrightarrow> a = b) \<and> (icmp_print a = icmp_print b \<longleftrightarrow> a = b) \<and>
   (udp_print a = udp_print b \<longleftrightarrow> a = b) \<and>
   (is_err (tcp_text a) \<longleftrightarrow> 20 \<le> length a \<and> (tcp_hlen a < 20 \<or> length a < tcp_hlen a)) \<and>
   (20 \<le> length a \<and> 20 \<le> length b \<and> tcp_text a = tcp_text b \<and> \<not> is_err (tcp_text a) \<longrightarrow> a = b) \<and>
   (length a \<le> 65536 \<longrightarrow> length (hex_dump a) = 78 * ((length a + 15) div 16) + 155)"
proof -
  have inj: "a = b" if "hex_dump a = hex_dump b" using that by (rule hex_dump_inject)
  have tcp: "a = b" if h: "20 \<le> length a" "20 \<le> length b" "tcp_text a = tcp_text b" "\<not> is_err (tcp_text a)"
  proof -
    obtain ls where "tcp_text a = Ok ls" using h(4) by (cases "tcp_text a") auto
    moreover from this h(3) have "tcp_text b = Ok ls" by simp
    ultimately have "hex_dump a = hex_dump b" using h(1, 2) tcp_text_cases(2) by metis
    then show ?thesis by (rule inj)
  qed
  show ?thesis
    using inj tcp prints_end [of a] prints_end [of b] tcp_text_cases(1) [of a] tcp_print_err_iff [of a] hex_dump_length [of a]
    by metis
qed

text \<open>
  A line of the log names its place: the time of day can be read back, the file name is what
  follows the last slash and the module is it without its suffix, and the function is the last
  component of the path the marker stands for.
\<close>

theorem log_line_fields:
  assumes "CHR ''/'' \<notin> set m" and "CHR '':'' \<notin> set f" and "nanos < 1000000000"
  shows "(\<exists>ts. errorf (Some (secs, nanos)) (dir @ ''/'' @ m @ ''.rs'') line (path @ ''::'' @ f @ ''::__log_fn_marker'') args =
      Ok (ts @ '' [E] '' @ m @ ''::'' @ f @ '': '' @ args @ '' ('' @ m @ ''.rs:'' @ dec_string line @ '')'') \<and>
      read_clock ts = Some (secs mod 86400, nanos div 1000000))"
proof -
  have "rsplit_next ''/'' (dir @ ''/'' @ m @ ''.rs'') = m @ ''.rs''" using assms(1) by (intro rsplit_path) simp
  moreover have "function_path (path @ ''::'' @ f @ ''::__log_fn_marker'') = Ok (path @ ''::'' @ f)"
    using function_path_marker [of "path @ ''::'' @ f"] by simp
  ultimately show ?thesis
    using rsplit_function [OF assms(2), of path] strip_suffix_append [of "''.rs''" m] log_timestamp_read [OF assms(3), of secs]
    by (intro exI [of _ "log_timestamp (Some (secs, nanos))"]) (simp add: errorf_def log_macro_def log_output_def Let_def)
qed

text \<open>
  The TAP test program prints every frame it reads before the first failing \<open>read\<close>, once and in
  order, ends only with such a failure, and leaves no descriptor open when it ends; the request
  for the device that it builds is the one the driver of the stack builds.
\<close>

theorem tap_test_prints_frames:
  assumes "length tap < 16" and "0 \<le> sys_ret s (sys_calls s)" and "0 \<le> sys_ret s (Suc (sys_calls s))"
  shows "\<exists>s'. tap_test_main (prog # tap # args) reads s =
      ((if \<exists>r \<in> set reads. \<not> read_goes_on r then Some Success else None),
       Waiting tap # concat (map (\<lambda>f. [Received (length f), Frame (ether_print f)]) (read_frames (takeWhile read_goes_on reads))) @
         (if \<exists>r \<in> set reads. \<not> read_goes_on r then [ReadFailed] else []), s') \<and>
      ((\<exists>r \<in> set reads. \<not> read_goes_on r) \<longrightarrow> open_fds s' = open_fds s) \<and>
      driver_ifreq tap = tap_test_ifreq tap"
proof -
  have "length (name_bytes tap) < 16" using assms(1) by (simp add: name_bytes_def)
  then show ?thesis
    using assms(2, 3) ifreq_same [OF assms(1)]
    by (simp add: tap_test_main_def tap_test_loop_prints syscall_def fd_close_def Let_def)
qed

section \<open>Ending the server from the keyboard\<close>

text \<open>
  While the server waits in \<open>accept\<close>, an interrupt from the keyboard sets \<open>TERMINATE\<close> and sends \<open>SIGUSR2\<close>; the
  dispatcher takes it and interrupts every task; so the wait ends with \<open>Interrupted\<close>, whichever
  generation the waiting thread has seen, and the loop over connections ends.
\<close>

theorem keyboard_interrupt_ends_server:
  assumes "p_sigint p = OnSignal" and "p_pending p = []" and "dispatcher (st_link (p_stack p)) = Some m"
    and "SIGUSR2 \<in> set m" and "intr_dispatch SIGUSR2 (irqs (st_link (p_stack p))) = [TaskIsr]"
    and "sock_typed soc SOCK_STREAM (before_accept c s) = Some k"
    and "on_tcp (accept_pass (so_desc k)) (before_accept c s) = (WaitOn t snap, s1)"
    and "t < length (host_tasks (st_host (p_stack p)))"
  shows "\<exists>p1 p2. keyboard_interrupt p = Some p1 \<and> dispatcher_turn fuel reads p1 = Some p2 \<and> p_terminate p2 \<and>
    fst (task_wait_poll snap (host_tasks (st_host (p_stack p2)) ! t)) = Some Interrupted \<and>
    (\<forall>s' ws. accept_wakes c = (Interrupted, s') # ws \<and> \<not> terminate c \<longrightarrow> accept_loop n soc (c # cs) s = Some s')"
proof -
  obtain p1 p2 where p2: "keyboard_interrupt p = Some p1" "dispatcher_turn fuel reads p1 = Some p2" "p_terminate p2"
    "interrupted (host_tasks (st_host (p_stack p2)) ! t)"
    using keyboard_interrupt_wakes [OF assms(1-5)] assms(8) by blast
  with interrupted_ends_wait [OF p2(4), of snap] interrupted_accept [OF assms(6, 7)] show ?thesis by blast
qed

section \<open>A descriptor that outlives its control block\<close>

text \<open>
  An acceptable reset frees the slot of an established connection, while the socket keeps the
  descriptor.
\<close>

lemma reset_frees_slot:
  assumes "tcp_pcb_select loc rem t = Some d" and "tcp_get d t = Some p" and "t_state p = Established"
    and "seg_acceptable p seg" and "flag_isset flags TCP_FLG_RST" and "t_backlog p = []"
  shows "tcp_pcbs (segment_arrives seg flags data loc rem t) = (tcp_pcbs t)[d := None]"
proof -
  have "tcp_pcbs (snd (tcp_pcb_release d (transition d Closed t))) = (tcp_pcbs t)[d := None]"
    using assms(2, 6)
    by (subst release_unfold) (simp add: release_body_def Let_def transition_def tcp_free_def, simp add: tcp_mod_def split: option.splits)
  then show ?thesis
    using assms by (simp add: segment_arrives_def seg_synchronized_def with_pcb_def section_then_def seg_check_def)
qed

text \<open>
  After a reset of the connection of a socket, the next stream socket can get its slot: then two
  sockets stand for the same control block, and a call on the old one works on the connection of the new one.
\<close>

theorem sock_descriptor_outlives:
  assumes "tcp_pcb_select loc rem (tcp_view s) = Some (so_desc x)" and "tcp_get (so_desc x) (tcp_view s) = Some p"
    and "t_state p = Established" and "seg_acceptable p seg" and "flag_isset flags TCP_FLG_RST" and "t_backlog p = []"
    and x: "sock_get k s = Some x" and lower: "\<forall>e < so_desc x. tcp_get e (tcp_view s) \<noteq> None"
    and s1: "s1 = tcp_store (segment_arrives seg flags data loc rem (tcp_view s)) s"
  shows "\<exists>k' y s2. sock_open AF_INET SOCK_STREAM s1 = (Ok k', s2) \<and> k' \<noteq> k \<and>
    sock_get k s2 = Some x \<and> sock_get k' s2 = Some y \<and> so_desc y = so_desc x"
proof -
  let ?d = "so_desc x"
  have pcbs: "tcp_pcbs (tcp_view s1) = (st_tcp s)[?d := None]"
    using reset_frees_slot [OF assms(1-6), of data] by (simp add: s1)
  have d: "?d < length (st_tcp s)" using assms(2) by (simp add: tcp_get_def slot_get_def split: if_splits)
  have "first_free (tcp_pcbs (tcp_view s1)) = Some ?d"
    unfolding pcbs using d lower by (intro first_free_eq) (auto simp: tcp_get_def slot_get_def)
  then obtain t where "tcp_pcb_alloc (tcp_view s1) = (Some ?d, t)"
    by (simp add: tcp_pcb_alloc_def case_prod_beta Let_def)
  then obtain s2 where op: "on_tcp tcp_socket s1 = (Ok ?d, s2)" and socks: "st_socks s2 = st_socks s"
    by (simp add: on_tcp_def tcp_socket_def tcp_store_def s1)
  let ?y = "\<lparr>so_family = AF_INET, so_ty = SOCK_STREAM, so_desc = ?d\<rparr>"
  have "fst (sock_alloc ?y s2) \<noteq> k" using x sock_alloc_free [of s2 ?y] socks by (auto simp: sock_get_def)
  with op x show ?thesis
    by (intro exI [of _ "fst (sock_alloc ?y s2)"] exI [of _ ?y] exI [of _ "snd (sock_alloc ?y s2)"])
      (simp add: sock_open_def sock_get_def sock_alloc_get socks case_prod_beta)
qed

end
