(* ===== verification/Spec2Isabelle.thy ===== *)
theory Spec2Isabelle
  imports Claims_Tcp Claims_Loop Claims_Net Claims_App
begin

text \<open>
  Verification of microps-rs, a small TCP/IP stack in Rust (\<^verbatim>\<open>src/src\<close>). The stack runs in one
  Linux process: application threads call the socket interface and may block, a dispatcher thread
  receives signals and runs interrupt handlers (frames from TAP devices, a software interrupt that
  drains the input queue, a periodic timer, and an interrupt that wakes blocked threads).

  \<^bold>\<open>Reading the model.\<close> Every function of the code is a HOL function of the same name, prefixed by its
  module where names would clash; every global variable (\<open>static ... Mutex\<close>) is a field of a record
  that is passed and returned. \<open>Result<T, ()>\<close> is \<open>'a result\<close> (\<open>Ok\<close> or \<open>Err\<close>), integers are words of
  their width, \<open>Vec<u8>\<close> and slices are lists of bytes, an index into a table that is out of range
  panics. A panic sets the flag \<open>panicked\<close> of the operating system record. Each record contains the
  one of the layer below: \<open>link\<close> (devices, protocol table, input queue, interrupts, timers) in
  \<open>arp_state\<close> in \<open>ip_state\<close> in \<open>host\<close> (with the tasks) in \<open>udp_state\<close>, \<open>tcp_state\<close> and \<open>stack\<close>.
  What the stack gets from the operating system is read from streams in the record \<open>os\<close>: the results
  of the clock, of \<open>rand\<close> and of system calls; frames written to a device are logged in \<open>wire\<close>.
  A call that blocks is a loop of passes, each executed under the lock of its table; a pass returns or
  waits with the task and the snapshot it waits for (\<open>pass\<close>, \<open>blocking\<close> in \<open>Transport\<close>). What the other
  threads do while it waits is the list of states in which it wakes up.

  \<^bold>\<open>Theories.\<close>
  \<^item> \<open>Prelude\<close>: types, byte order, slices, tables of optional slots, shared lemmas.
  \<^item> \<open>Checksum\<close> (\<^verbatim>\<open>util.rs\<close>): \<open>cksum16\<close>, its ones' complement specification, and the lemmas that a stored
    checksum verifies.
  \<^item> \<open>Text\<close>, \<open>Addr\<close> (\<^verbatim>\<open>ether.rs\<close>, \<^verbatim>\<open>ip.rs\<close>): printing and parsing of numbers, Ethernet and IP addresses and
    endpoints; Ethernet header.
  \<^item> \<open>Platform\<close> (\<^verbatim>\<open>platform/linux/mod.rs\<close>, \<^verbatim>\<open>intr.rs\<close>, \<^verbatim>\<open>timer.rs\<close>): operating system, interrupt table and
    dispatch, timers. \<open>Task\<close> (\<^verbatim>\<open>task.rs\<close>): the blocking primitive as a step relation between threads.
  \<^item> \<open>Link\<close>, \<open>Link_Props\<close> (\<^verbatim>\<open>device.rs\<close>, \<^verbatim>\<open>net.rs\<close>, \<^verbatim>\<open>driver/loopback.rs\<close>, \<^verbatim>\<open>ether_tap.rs\<close>): devices, drivers,
    input queue. The locale \<open>sender\<close> states what every sending operation keeps of the layers below and is
    interpreted for devices, ARP and IP.
  \<^item> \<open>Arp\<close>, \<open>Arp_Props\<close> (\<^verbatim>\<open>arp.rs\<close>): cache, packets, input, timer. The locale \<open>neighbours\<close> is the abstract
    neighbour table that the cache implements.
  \<^item> \<open>Ip\<close>, \<open>Ip_Props\<close> (\<^verbatim>\<open>ip.rs\<close>): header, routes, output, and the checks of input as a verdict. \<open>Icmp\<close> (\<^verbatim>\<open>icmp.rs\<close>).
  \<^item> \<open>Transport\<close>: what UDP and TCP share: tasks, blocking calls, the pseudo header, the search for a
    dynamic port, and the locales \<open>slot_alloc\<close> and \<open>slot_table\<close> for tables of control blocks, interpreted
    for UDP, TCP and sockets.
  \<^item> \<open>Udp\<close>, \<open>Udp_Props\<close> (\<^verbatim>\<open>udp.rs\<close>).
  \<^item> \<open>Tcp_Segment\<close>, \<open>Tcp\<close>, \<open>Tcp_Input\<close>, \<open>Tcp_User\<close> (\<^verbatim>\<open>tcp.rs\<close>): segments; control blocks, retransmission, release,
    timer, selection; arriving segments, one definition for each section of \<open>segment_arrives\<close>; the calls.
    \<open>Tcp_Props\<close>, \<open>Tcp_Retrans\<close>, \<open>Tcp_Seg_Props\<close>, \<open>Tcp_Inv\<close>, \<open>Tcp_User_Props\<close>, \<open>Tcp_Flow\<close>: table laws and
    termination of \<open>pcb_release\<close>; retransmission; the relation between a control block before and after a
    segment, with the arcs of the RFC 793 diagram; the invariant; its preservation by all calls; data
    transfer and handshake.
  \<^item> \<open>Stack\<close>, \<open>Sock\<close>, \<open>Stack_Props\<close> (\<^verbatim>\<open>net.rs\<close>, \<^verbatim>\<open>sock.rs\<close>, the \<open>init\<close>, \<open>run\<close> and \<open>shutdown\<close> functions, the dispatcher
    thread): composition, its invariant, delivery over the loopback device. \<open>Sock_Props\<close> and \<open>Reach\<close>: the
    states that threads, signals and packets can reach from program start, as an inductive predicate over
    critical sections (\<open>stack_reach\<close>; its set names the TCP control blocks that were re-opened with unread
    text, the only ones whose window the invariant leaves open). The locales \<open>config_steps\<close> and \<open>thread_steps\<close>
    state what a predicate has to be closed under so that set-up, the socket calls with their waits and the
    echo server keep it; they are interpreted for \<open>stack_reach\<close>, \<open>reachable\<close> and \<open>sock_reachable\<close>. \<open>Sock_Own\<close>: the
    same steps with the socket table changed only the way \<open>open\<close>, \<open>accept\<close> and \<open>close\<close> change it
    (\<open>sock_reach\<close>), and who owns which control block. \<open>No_Panic\<close>: which packets panic.
    \<open>Softirq\<close>: the input queue between threads and dispatcher, with pending and merged signals, as a step
    relation. \<open>Loopback\<close>, \<open>Recovery\<close>, \<open>Teardown\<close>: a TCP connection whose two ends are in the same stack,
    segment by segment: handshake and transfer, a lost segment, closing. \<open>Retrans_Bound\<close>: runs of timer
    ticks with the packets they send. \<open>Stream\<close>: data in any number of
    segments, all of them under way before the first is acknowledged. \<open>Channel\<close>: the abstract pair of
    byte channels, each with a credit for its writer, that such a connection refines; the locale \<open>budget_simulation\<close> holds the
    argument over sequences of operations and is interpreted for the connection.
    \<open>Errors\<close>: what failed calls leave behind.
  \<^item> \<open>Dump\<close> (\<^verbatim>\<open>util.rs\<close>): the hexadecimal dump. \<open>Print\<close> (the \<open>print\<close> functions of the protocols), \<open>Log\<close> (\<^verbatim>\<open>log.rs\<close>,
    \<open>log_output\<close>): the text of packet dumps and log lines. \<open>Tap_Test\<close> (\<^verbatim>\<open>test/src/tap_test.rs\<close>). \<open>App\<close>, \<open>App_Props\<close> (\<^verbatim>\<open>test/src/main.rs\<close>): the echo server on the
    socket interface. \<open>Signals\<close> (\<^verbatim>\<open>intr.rs\<close>, \<^verbatim>\<open>test/src/main.rs\<close>, \<^verbatim>\<open>platform/linux/mod.rs\<close>): signal sets, \<open>raise\<close>, the
    handler of \<open>SIGINT\<close> and the seed of the random numbers. \<open>Util_Tests\<close>: the unit tests of \<^verbatim>\<open>util.rs\<close>. \<open>Xtask\<close>, \<open>Xtask_Props\<close> (\<^verbatim>\<open>xtask/src/main.rs\<close>): the task runner that prepares the host;
    the programs it runs are a parameter, and \<open>iptables_ok\<close> states what \<open>iptables\<close> documents.
  \<^item> \<open>Example\<close>: a small machine on which the properties are instantiated. \<open>Claims_Tcp\<close>, \<open>Claims_Loop\<close>,
    \<open>Claims_Net\<close>, \<open>Claims_App\<close> and this theory: the properties.

  \<^bold>\<open>What is shown.\<close> TCP (C1 to C14, C25, C27, C36): the table invariant over all calls, segments and timer ticks; state
  changes along the RFC 793 diagram; in-order delivery to the receiver; passive open; sending within the
  window; over the loopback device the whole handshake from \<open>connect\<close> to \<open>accept\<close> (C27), the transfer of
  any data that fits the window from \<open>send\<close> to \<open>receive\<close> with its acknowledgments (C8), any sequence of such
  transfers in both directions as the refinement of a pair of byte channels (C12), a transfer whose segment was lost (C25), and
  closing from both ends, with the reads in between, until both control blocks are free (C36); retransmission with back-off (C10), and
  at most five packets that repeat a segment in any run of ticks (C11); termination of the recursive release; encoding and decoding of segments. C15 says exactly
  which packets make the stack panic. UDP (C16 to C18), failed calls (C19), IP and ICMP (C20 to C22), ARP
  (C23, C24), driver and tasks (C26, C28, C29), the input queue and its software interrupt (C40), encodings
  (C30 to C32). The stack as a whole (C33 to C35): the invariant in every reachable state, the
  ownership of control blocks by sockets across \<open>open\<close>, \<open>accept\<close> and \<open>close\<close>, a datagram from end to end. The programs (C37 to C39): set-up and echo session of the test
  program, firewall rules of the task runner. Theorems without a number show where the code departs from
  the protocol (\<open>Claims_Tcp\<close>, \<open>Claims_Net\<close>, \<open>Claims_Loop\<close>: a window that is used up and never announced again) or
  from what a socket should be (\<open>Claims_App\<close>: a descriptor that outlives its control block), what dumps and log
  lines show, how an interrupt from the keyboard ends the server (\<open>Claims_App\<close>), and properties of parts
  that others build on.

  \<^bold>\<open>Fuel.\<close> \<open>pcb_release\<close> is recursive through backlogs; it runs on the number of entries of all backlogs, and C9
  shows that this is enough: the definition satisfies the recursion of the code. \<open>send_loop\<close> counts passes;
  C6 shows that one more pass than there are bytes suffices when the window has room. \<open>softirq_handler\<close>
  counts packets, because handlers can queue further packets over the loopback device; C8, C12, C25, C27 and C36 show
  how many are enough for handshake, transfer and closing, the other theorems about it speak of single
  passes or assume that it returned. All other loops are structural or have a
  termination proof.

  \<^bold>\<open>Not modelled.\<close> Log output is not an effect of the model: the stack is the same whether it logs or not, and
  the texts are separate functions. The reply of \<open>ioctl\<close> is read from the operating system record; the
  numbers \<open>rand\<close> returns for a seed are a parameter; memory exhaustion is not represented. The locks are represented by the granularity of the passes; only the lookup and the removal of the
  socket in \<open>sock::close\<close>, two critical sections in the code, are one step of \<open>sock_reach\<close>; a registry of tasks that are no
  longer referenced is not pruned, since interrupting them has no effect. \<^verbatim>\<open>lib.rs\<close> and the \<^verbatim>\<open>mod.rs\<close> files
  of the drivers and platforms only declare modules. The accessors of \<open>IpIface\<close>, \<open>SocketAddrV4\<close> and of the ICMP messages are the fields
  and functions they return; constants the code never uses have no counterpart.
\<close>

section \<open>The whole stack\<close>

text \<open>
  C33. The invariants of all layers together hold in every reachable state: whatever any number of
  threads and the dispatcher do from program start on, one critical section at a time, with any
  packets, signals and system call results, the device and interrupt tables, the ARP cache and the
  tables of UDP and TCP stay well-formed. \<open>D\<close> collects the control blocks of TCP that were re-opened by
  \<open>listen\<close> or \<open>connect\<close> with unread text in their buffer; once freed, a control block can be taken out
  again. For the members of \<open>D\<close> the invariant does not say that window and buffered bytes add up to the size of the buffer, which it says of all
  other open connections.
\<close>

theorem stack_invariant:
  assumes "stack_reach D s"
  shows "stack_wf_on D s"
  using assms by (rule reach_wf)

theorem stack_invariant_witness: "stack_wf_on {} (snd (app_setup 35 ex_start))"
  by (rule stack_invariant) (intro stack_conf.setup_kept stack_reach.start ex_start_at_start)




text \<open>
  C15. Panics of the dispatcher, exactly: on a well-formed state that has not panicked, a pass of the
  software interrupt handler panics if and only if the packet is an IPv4 packet whose total length
  is smaller than its header (\<open>IpPanic\<close>), or a TCP segment with a right checksum and a data offset
  that is too small or points behind the segment; the timer interrupt never panics.
\<close>

theorem stack_panics_iff:
  assumes "stack_wf s" and "\<not> panicked (lk_os (st_link s))"
    and "input_queue (st_link s) = e # es" and "softirq_step s = Some s'"
  shows "(panicked (lk_os (st_link s')) \<longleftrightarrow> bad_packet e s) \<and> \<not> panicked (lk_os (st_link (timer_interrupt s)))"
  using softirq_panics_iff [OF assms] timer_interrupt_calm [of s] assms(1, 2)
  by (simp add: calm_def stack_wf_def)

text \<open>A host with a packet in its input queue that is too short to be an IP packet.\<close>

definition ex_input :: stack where
  "ex_input = st_with_link (ex_link\<lparr>input_queue := [\<lparr>ie_ty = PROTOCOL_TYPE_IP, ie_data = [1, 2, 3], ie_dev = 1\<rparr>]\<rparr>) ex_stack"

theorem stack_panics_iff_witness:
  "\<exists>s'. softirq_step ex_input = Some s' \<and> \<not> panicked (lk_os (st_link s'))"
proof -
  let ?e = "\<lparr>ie_ty = PROTOCOL_TYPE_IP, ie_data = [1, 2, 3], ie_dev = 1\<rparr>"
  have wf: "stack_wf ex_input"
    unfolding ex_input_def using ex_link_wf by (intro stack_wf_link ex_stack_wf) (simp add: link_wf_def)
  have queue: "input_queue (st_link ex_input) = [?e]" "\<not> panicked (lk_os (st_link ex_input))"
    by (simp_all add: ex_input_def ex_link_def ex_os_def)
  then obtain s' where step: "softirq_step ex_input = Some s'"
    by (cases "softirq_step ex_input") (auto simp: softirq_step_def softirq_pop_def Let_def)
  have "\<not> bad_packet ?e ex_input"
    by (auto simp: bad_packet_def ip_input_verdict_def ip_hdr_new_def IP_HDR_SIZE_MIN_def)
  with stack_panics_iff [OF wf queue(2, 1) step] step show ?thesis by blast
qed

text \<open>
  C35. End to end over the loopback device: \<open>sendto\<close> to a bound socket of the same host succeeds,
  and one pass of the software interrupt handler appends the data, with the sender's endpoint, to
  the queue of exactly that socket.
\<close>

theorem udp_loopback_end_to_end:
  assumes "stack_wf s"
    and "udp_pcb_get d (udp_view s) = Some p" and "port (u_local p) \<noteq> 0"
    and "addr (u_local p) = ip_any \<or> addr (u_local p) = a"
    and "udp_pcb_get e (udp_view s) = Some q" and "port (u_local q) \<noteq> 0"
    and "addr (u_local q) = ip_any \<or> addr (u_local q) = a"
    and "loopback_to (st_ip s) a iface dev" and "28 + length data \<le> unat (dev_mtu dev)"
    and "input_queue (st_link s) = []"
    and "find (\<lambda>p. fst p = IP_PROTOCOL_UDP) (ip_protocols (st_ip s)) = Some (IP_PROTOCOL_UDP, UdpInput)"
  shows "\<exists>s1 s2. on_udp (udp_sendto d data (ip_endp_new a (port (u_local q)))) s = (Ok (length data), s1) \<and>
    softirq_step s1 = Some s2 \<and>
    (\<forall>f. udp_pending (udp_view s2) f = udp_pending (udp_view s) f @
      (if f = e then [(ip_endp_new a (port (u_local p)), data)] else []))"
  using assms by (intro udp_over_loopback) (simp_all add: stack_wf_def)

theorem udp_loopback_end_to_end_witness:
  "\<exists>s1 s2. on_udp (udp_sendto 0 [1, 2, 3] (ip_endp_new (IpAddr 127 0 0 1) 9)) ex_stack = (Ok 3, s1) \<and>
    softirq_step s1 = Some s2 \<and> udp_pending (udp_view s2) 1 = [(ip_endp_new (IpAddr 127 0 0 1) 7, [1, 2, 3])]"
proof -
  have ip: "st_ip ex_stack = ex_ip" by (simp add: ex_stack_def ex_host_def)
  have "length [1, 2, 3 :: u8] = 3" "udp_pending ex_udp 1 = []"
    by (simp_all add: udp_pending_def ex_udp_get ex_udp_pcb2_def)
  then show ?thesis
    using udp_loopback_end_to_end [of ex_stack 0 ex_udp_pcb "IpAddr 127 0 0 1" 1 ex_udp_pcb2 ex_lo ex_lo_dev "[1, 2, 3]"]
      ex_stack_wf ex_loopback
    by (simp add: ex_views ex_udp_get ip)
      (auto simp: ex_udp_pcb_def ex_udp_pcb2_def ip_endp_new_def ex_lower IP_PROTOCOL_UDP_def IP_PROTOCOL_ICMP_def)
qed

text \<open>
  Start-up: on empty tables \<open>net::init\<close> succeeds if the timer can be created. Afterwards each
  protocol is registered with the layer below it exactly once, the timers of ARP and TCP are
  registered, each signal has exactly its handler, and a second \<open>net::init\<close> fails.
\<close>

theorem net_init_registers:
  assumes "irqs (ip_link i) = []" and "timers (ip_link i) = []" and "net_protocols (ip_link i) = []"
    and "ip_protocols i = []" and "sys_ret (lk_os (ip_link i)) (sys_calls (lk_os (ip_link i))) = 0"
  shows "\<exists>i'. net_init i = (Ok (), i') \<and>
    net_protocols (ip_link i') = [(ETHER_TYPE_ARP, ArpInput), (PROTOCOL_TYPE_IP, IpInput)] \<and>
    ip_protocols i' = [(IP_PROTOCOL_ICMP, IcmpInput), (IP_PROTOCOL_UDP, UdpInput), (IP_PROTOCOL_TCP, TcpInput)] \<and>
    map tm_handler (timers (ip_link i')) = [ArpTimer, TcpTimer] \<and> timer_created (ip_link i') \<and>
    intr_dispatch SIGUSR1 (irqs (ip_link i')) = [SoftirqIsr] \<and>
    intr_dispatch SIGALRM (irqs (ip_link i')) = [TimerIsr] \<and>
    intr_dispatch SIGUSR2 (irqs (ip_link i')) = [TaskIsr] \<and> fst (net_init i') = Err"
  using assms
  by (simp add: net_init_def platform_init_def and_then_def on_link_def softirq_init_def timer_init_def
      task_init_irq_def link_intr_register_def intr_register_def link_timer_register_def timer_register_def
      arp_init_def ip_init_def icmp_init_def udp_init_def tcp_init_def net_register_protocol_def
      ip_register_protocol_def syscall_def now_def intr_dispatch_def shared_def FLAG_SHARED_def FLAG_QUIET_def
      SIGUSR1_def SIGUSR2_def SIGALRM_def ETHER_TYPE_ARP_def PROTOCOL_TYPE_IP_def
      IP_PROTOCOL_ICMP_def IP_PROTOCOL_UDP_def IP_PROTOCOL_TCP_def)

definition ex_boot :: ip_state where
  "ex_boot = ex_ip\<lparr>ip_protocols := [], ip_arp := ex_arp\<lparr>arp_link := ex_link\<lparr>net_protocols := []\<rparr>\<rparr>\<rparr>"

theorem net_init_registers_witness:
  "\<exists>i'. net_init ex_boot = (Ok (), i') \<and> fst (net_init i') = Err"
  using net_init_registers [of ex_boot] by (auto simp: ex_boot_def ex_link_def ex_os_def)

end
